(* ===== verification/Prelude.thy ===== *)
theory Prelude
  imports Main "HOL-Library.Word"
begin

text \<open>
  Shared vocabulary of the development: the machine types of the C sources, the libuv status
  codes the library passes around, the parts of the C string library that the sources call, the
  values that stand for undefined behaviour, and the generic lemmas the component theories share.

  A C string is modelled as the list of its characters without the terminating NUL, so a pointer
  into a string is the suffix that starts there, \<open>*p\<close> is \<open>c_deref p\<close> and pointer advance is
  \<^const>\<open>drop\<close>. Binary data (frames, TLS records) is a list of bytes. A \<open>size_t\<close> is a 64-bit word
  where its wrap-around is observable and a \<^typ>\<open>nat\<close> where it only measures live memory.
\<close>

unbundle bit_operations_syntax

section \<open>Machine types\<close>

type_synonym byte = "8 word"
type_synonym uint16 = "16 word"
type_synonym uint32 = "32 word"
type_synonym uint64 = "64 word"
type_synonym size_t = "64 word"

text \<open>The conversion \<open>(int) n\<close> of an unsigned value to a 32-bit signed integer.\<close>

definition to_c_int :: "size_t \<Rightarrow> int" where
  "to_c_int n = sint (ucast n :: 32 word)"

section \<open>Undefined behaviour as a value\<close>

text \<open>
  Where the C code would read or write through a null or dangling pointer, or past the end of an
  allocation, the model returns one of these values instead of a state; so it does where a loop of
  the code does not end.
\<close>

datatype ub =
    Null_Deref
  | Out_Of_Bounds_Write
  | Out_Of_Bounds_Read
  | Bad_Pointer
  | Endless_Loop

text \<open>Sequencing of steps that may leave the defined behaviour.\<close>

definition ub_bind :: "ub + 'a \<Rightarrow> ('a \<Rightarrow> ub + 'b) \<Rightarrow> ub + 'b" where
  "ub_bind x f = (case x of Inl e \<Rightarrow> Inl e | Inr a \<Rightarrow> f a)"

lemma ub_bind_simps [simp]: "ub_bind (Inr a) f = f a" "ub_bind (Inl e) f = Inl e"
  by (simp_all add: ub_bind_def)

lemma ub_bind_Inr: "ub_bind x f = Inr b \<longleftrightarrow> (\<exists>a. x = Inr a \<and> f a = Inr b)"
  by (cases x) simp_all

section \<open>libuv status codes\<close>

text \<open>The values libuv gives these codes on Linux (the negated errno, and its own range at -4095).\<close>

definition UV_EINVAL :: int where "UV_EINVAL = -22"
definition UV_EFAULT :: int where "UV_EFAULT = -14"
definition UV_ECANCELED :: int where "UV_ECANCELED = -125"
definition UV_ECONNABORTED :: int where "UV_ECONNABORTED = -103"
definition UV_ECONNRESET :: int where "UV_ECONNRESET = -104"
definition UV_ETIMEDOUT :: int where "UV_ETIMEDOUT = -110"
definition UV_EALREADY :: int where "UV_EALREADY = -114"
definition UV_ENOBUFS :: int where "UV_ENOBUFS = -105"
definition UV_ENOMEM :: int where "UV_ENOMEM = -12"
definition UV_EOF :: int where "UV_EOF = -4095"
definition UV_ERRNO_MAX :: int where "UV_ERRNO_MAX = -4096"

named_theorems uv_codes \<open>the numeric values of the libuv status codes\<close>

declare UV_EINVAL_def [uv_codes] UV_EFAULT_def [uv_codes] UV_ECANCELED_def [uv_codes]
  UV_ECONNABORTED_def [uv_codes] UV_ECONNRESET_def [uv_codes] UV_ETIMEDOUT_def [uv_codes]
  UV_EALREADY_def [uv_codes] UV_ENOBUFS_def [uv_codes] UV_ENOMEM_def [uv_codes]
  UV_EOF_def [uv_codes] UV_ERRNO_MAX_def [uv_codes]

section \<open>C strings\<close>

definition c_deref :: "string \<Rightarrow> char" where
  "c_deref p = (case p of [] \<Rightarrow> CHR 0x00 | c # _ \<Rightarrow> c)"

definition to_lower :: "char \<Rightarrow> char" where
  "to_lower c = (if 65 \<le> (of_char c :: nat) \<and> (of_char c :: nat) \<le> 90
                 then char_of ((of_char c :: nat) + 32) else c)"

text \<open>
  \<open>strcasecmp(a, b) == 0\<close> and \<open>strncasecmp(a, b, n) == 0\<close>: the sources only ever compare the result
  with zero.
\<close>

definition strcasecmp_eq :: "string \<Rightarrow> string \<Rightarrow> bool" where
  "strcasecmp_eq a b \<longleftrightarrow> map to_lower a = map to_lower b"

definition strncasecmp_eq :: "string \<Rightarrow> string \<Rightarrow> nat \<Rightarrow> bool" where
  "strncasecmp_eq a b n \<longleftrightarrow> map to_lower (take n a) = map to_lower (take n b)"

text \<open>\<open>strndup(p, n)\<close>: at most \<open>n\<close> characters, up to the first NUL.\<close>

definition c_strndup :: "string \<Rightarrow> nat \<Rightarrow> string" where
  "c_strndup p n = takeWhile (\<lambda>c. c \<noteq> CHR 0x00) (take n p)"

lemma strcasecmp_eq_refl [simp]: "strcasecmp_eq a a"
  by (simp add: strcasecmp_eq_def)

lemma strcasecmp_eq_sym: "strcasecmp_eq a b \<longleftrightarrow> strcasecmp_eq b a"
  by (auto simp: strcasecmp_eq_def)

lemma strcasecmp_eq_trans [trans]:
  "strcasecmp_eq a b \<Longrightarrow> strcasecmp_eq b c \<Longrightarrow> strcasecmp_eq a c"
  by (simp add: strcasecmp_eq_def)

lemma c_deref_Nil [simp]: "c_deref [] = CHR 0x00"
  by (simp add: c_deref_def)

lemma c_deref_Cons [simp]: "c_deref (c # s) = c"
  by (simp add: c_deref_def)

section \<open>Decimal numbers\<close>

text \<open>Decimal digits, the text that \<open>%d\<close> and \<open>%ld\<close> print for a natural number, and its value.\<close>

definition is_digit :: "char \<Rightarrow> bool" where
  "is_digit c \<longleftrightarrow> 48 \<le> (of_char c :: nat) \<and> (of_char c :: nat) \<le> 57"

definition digit_char :: "nat \<Rightarrow> char" where
  "digit_char d = char_of (48 + d)"

definition digit_value :: "char \<Rightarrow> nat" where
  "digit_value c = of_char c - 48"

definition dec_value :: "string \<Rightarrow> nat" where
  "dec_value ds = foldl (\<lambda>a c. a * 10 + digit_value c) 0 ds"

fun show_dec :: "nat \<Rightarrow> string" where
  "show_dec n = (if n < 10 then [digit_char n] else show_dec (n div 10) @ [digit_char (n mod 10)])"

declare show_dec.simps [simp del]

lemma digit_char_props:
  assumes "d < 10" shows "is_digit (digit_char d)" and "digit_value (digit_char d) = d"
  using assms by (simp_all add: is_digit_def digit_char_def digit_value_def of_char_of)

lemma show_dec_digits: "\<forall>c \<in> set (show_dec n). is_digit c"
proof (induction n rule: show_dec.induct)
  case (1 n)
  then show ?case by (auto simp: show_dec.simps [of n] digit_char_props)
qed

lemma show_dec_value [simp]: "dec_value (show_dec n) = n"
proof (induction n rule: show_dec.induct)
  case (1 n)
  then show ?case by (auto simp: show_dec.simps [of n] digit_char_props dec_value_def)
qed

lemma show_dec_nonempty [simp]: "show_dec n \<noteq> []"
  by (simp add: show_dec.simps [of n])

lemma show_dec_length: "n < 10 ^ Suc k \<Longrightarrow> length (show_dec n) \<le> Suc k"
proof (induction k arbitrary: n)
  case 0
  then show ?case by (simp add: show_dec.simps [of n])
next
  case (Suc k)
  have "n div 10 < 10 ^ Suc k" using Suc.prems by (simp add: less_mult_imp_div_less)
  with Suc.IH [of "n div 10"] show ?case by (simp add: show_dec.simps [of n])
qed

section \<open>Lists\<close>

lemma take_drop_append: "take n xs @ take m (drop n xs) = take (n + m) xs"
  by (metis take_add)

lemma concat_drop_head:
  assumes "k \<le> length (hd xss)" and "xss \<noteq> []"
  shows "drop k (concat xss) = drop k (hd xss) @ concat (tl xss)"
  using assms by (cases xss) auto

lemma sum_list_ge_hd: "xs \<noteq> [] \<Longrightarrow> hd xs \<le> sum_list (xs :: nat list)"
  by (cases xs) auto

section \<open>Words\<close>

lemma unat_of_nat_size_t: "n < 2 ^ 64 \<Longrightarrow> unat (of_nat n :: size_t) = n"
  by (simp add: unat_of_nat take_bit_nat_eq_self)

lemma unat_lt_size_t: "unat (x :: size_t) < 2 ^ 64"
proof -
  have "unat x < 2 ^ LENGTH(64)" by (rule unsigned_less)
  then show ?thesis by simp
qed

lemma unat_sub_size_t: "b \<le> a \<Longrightarrow> unat (a - b :: size_t) = unat a - unat b"
  by (rule unat_sub)

lemma unat_add_size_t: "unat a + unat b < 2 ^ 64 \<Longrightarrow> unat (a + b :: size_t) = unat a + unat b"
  by (simp add: unat_add_lem [THEN iffD1])

lemma unat_min_size_t: "unat (min a b :: size_t) = min (unat a) (unat b)"
  by (simp add: min_def word_le_nat_alt)

lemma to_c_int_small: "unat n < 2 ^ 31 \<Longrightarrow> to_c_int n = int (unat n)"
proof -
  assume n: "unat n < 2 ^ 31"
  have u: "int (unat n) = uint n" by simp
  have lt: "uint n < 2 ^ 31"
    using n u by (metis of_nat_less_iff of_nat_numeral of_nat_power)
  then have "uint (ucast n :: 32 word) = uint n"
    by (simp add: unsigned_ucast_eq take_bit_int_eq_self)
  moreover have "signed_take_bit 31 (uint n) = uint n"
    using lt by (intro signed_take_bit_int_eq_self) (auto intro: order_trans [OF _ uint_ge_0])
  ultimately show ?thesis
    using lt unfolding u by (simp add: to_c_int_def sint_uint signed_take_bit_int_eq_self)
qed

section \<open>Numbers in bytes\<close>

text \<open>The number that bytes stand for, the most significant one first.\<close>

definition bin_value :: "byte list \<Rightarrow> nat" where
  "bin_value bs = foldl (\<lambda>n b. 256 * n + unat b) 0 bs"

end
