(* ===== verification/Bio.thy ===== *)
theory Bio
  imports Prelude
begin

text \<open>
  The in-memory byte queue of \<open>src/bio.c\<close> and \<open>src/bio.h\<close>, which the mbedTLS engine uses as the two
  ends of its transport. The queue keeps the messages as they were put, an offset into the first
  one and a running count of the unread bytes. The locale \<open>byte_fifo\<close> states what a user of such
  a queue relies on; the model of the code is an instance of it.
\<close>

section \<open>Data\<close>

record msg =
  msg_len :: size_t
  msg_buf :: "byte list"

record tlsuv_BIO =
  available :: size_t
  headoffset :: size_t
  qlen :: "32 word"
  message_q :: "msg list"

section \<open>Operations\<close>

definition tlsuv_BIO_new :: tlsuv_BIO where
  "tlsuv_BIO_new = \<lparr>available = 0, headoffset = 0, qlen = 0, message_q = []\<rparr>"

definition tlsuv_BIO_available :: "tlsuv_BIO \<Rightarrow> size_t" where
  "tlsuv_BIO_available bio = available bio"

text \<open>
  The two booleans say whether the two calls of \<open>malloc\<close> succeed. The caller passes the bytes of
  \<open>buf\<close> together with \<open>len\<close>; \<open>len\<close> is the length of the list.
\<close>

definition tlsuv_BIO_put :: "bool \<Rightarrow> bool \<Rightarrow> tlsuv_BIO \<Rightarrow> byte list \<Rightarrow> int \<times> tlsuv_BIO" where
  "tlsuv_BIO_put alloc_msg alloc_buf bio buf =
     (if \<not> alloc_msg then (-1, bio)
      else if \<not> alloc_buf then (-1, bio)
      else
        (let len = of_nat (length buf) :: size_t;
             m = \<lparr>msg_len = len, msg_buf = take (unat len) buf\<rparr>
         in (0, bio\<lparr>message_q := message_q bio @ [m],
                    available := available bio + len,
                    qlen := qlen bio + 1\<rparr>)))"

text \<open>
  \<open>tlsuv_BIO_free\<close> takes the messages off the queue one by one and frees each; the model returns
  the messages in the order in which they are released.
\<close>

function tlsuv_BIO_free :: "tlsuv_BIO \<Rightarrow> msg list" where
  "tlsuv_BIO_free bio =
     (if message_q bio = [] then []
      else hd (message_q bio) # tlsuv_BIO_free (bio\<lparr>message_q := tl (message_q bio)\<rparr>))"
  by pat_completeness auto
termination
  by (relation "measure (\<lambda>bio. length (message_q bio))") auto

declare tlsuv_BIO_free.simps [simp del]

text \<open>
  The body of the read loop for the first message of the queue: how many bytes are copied, and the
  queue afterwards. All arithmetic is that of \<open>size_t\<close>.
\<close>

definition bio_recv_size :: "tlsuv_BIO \<Rightarrow> msg \<Rightarrow> size_t \<Rightarrow> size_t \<Rightarrow> size_t" where
  "bio_recv_size bio m len tot = min (len - tot) (msg_len m - headoffset bio)"

definition bio_consume :: "tlsuv_BIO \<Rightarrow> msg \<Rightarrow> msg list \<Rightarrow> size_t \<Rightarrow> tlsuv_BIO" where
  "bio_consume bio m ms recv_size =
     (let bio1 = bio\<lparr>headoffset := headoffset bio + recv_size,
                     available := available bio - recv_size\<rparr>
      in if headoffset bio1 = msg_len m
         then bio1\<lparr>message_q := ms, headoffset := 0, qlen := qlen bio1 - 1\<rparr>
         else bio1)"

text \<open>
  The loop of \<open>tlsuv_BIO_read\<close>: \<open>out\<close> is the part of the caller's buffer filled so far. When the
  message is not used up, the copy has filled the request, so the loop guard fails at the next
  turn; this is what makes the loop end in every state of the queue.
\<close>

lemma bio_recv_all:
  assumes "headoffset bio + bio_recv_size bio m len tot \<noteq> msg_len m" and "tot < len"
  shows "tot + bio_recv_size bio m len tot = len"
proof -
  have "bio_recv_size bio m len tot \<noteq> msg_len m - headoffset bio"
    using assms(1) by auto
  then have "bio_recv_size bio m len tot = len - tot"
    by (auto simp: bio_recv_size_def min_def split: if_splits)
  then show ?thesis by simp
qed

function bio_read_loop ::
  "tlsuv_BIO \<Rightarrow> size_t \<Rightarrow> size_t \<Rightarrow> byte list \<Rightarrow> tlsuv_BIO \<times> size_t \<times> byte list" where
  "bio_read_loop bio len tot out =
     (case message_q bio of
        [] \<Rightarrow> (bio, tot, out)
      | m # ms \<Rightarrow>
          if tot < len then
            (let n = bio_recv_size bio m len tot
             in bio_read_loop (bio_consume bio m ms n) len (tot + n)
                  (out @ take (unat n) (drop (unat (headoffset bio)) (msg_buf m))))
          else (bio, tot, out))"
  by pat_completeness auto
termination
proof (relation "measures [\<lambda>(bio, len, tot, out). length (message_q bio),
                           \<lambda>(bio, len, tot, out). unat (len - tot)]", goal_cases)
  case 1
  show ?case by simp
next
  case (2 bio len tot out m ms n)
  show ?case
  proof (cases "headoffset bio + n = msg_len m")
    case True
    with 2 show ?thesis by (simp add: bio_consume_def Let_def)
  next
    case False
    with 2 have "tot + n = len" using bio_recv_all by blast
    moreover have "unat (len - tot) > 0"
      using \<open>tot < len\<close> by (simp add: unat_gt_0)
    ultimately show ?thesis
      using False 2 by (simp add: bio_consume_def Let_def)
  qed
qed

declare bio_read_loop.simps [simp del]

definition tlsuv_BIO_read :: "tlsuv_BIO \<Rightarrow> size_t \<Rightarrow> int \<times> tlsuv_BIO \<times> byte list" where
  "tlsuv_BIO_read bio len =
     (let (bio', tot, out) = bio_read_loop bio len 0 [] in (to_c_int tot, bio', out))"

section \<open>Well-formedness and the bytes the queue holds\<close>

text \<open>
  The buffers of all messages are live at the same time, so their total length is below \<open>2^64\<close>; this
  is the part of the invariant that excludes a wrap-around of \<open>available\<close>. The head offset is
  strictly inside the first message unless that message is empty.
\<close>

definition bio_pending :: "tlsuv_BIO \<Rightarrow> byte list" where
  "bio_pending bio = drop (unat (headoffset bio)) (concat (map msg_buf (message_q bio)))"

definition msg_wf :: "msg \<Rightarrow> bool" where
  "msg_wf m \<longleftrightarrow> unat (msg_len m) = length (msg_buf m)"

definition bio_wf :: "tlsuv_BIO \<Rightarrow> bool" where
  "bio_wf bio \<longleftrightarrow>
     (\<forall>m \<in> set (message_q bio). msg_wf m) \<and>
     length (concat (map msg_buf (message_q bio))) < 2 ^ 64 \<and>
     (case message_q bio of [] \<Rightarrow> headoffset bio = 0
        | m # ms \<Rightarrow> headoffset bio = 0 \<or> headoffset bio < msg_len m) \<and>
     unat (available bio) = length (bio_pending bio) \<and>
     qlen bio = of_nat (length (message_q bio))"


section \<open>Lemmas on single steps\<close>

lemma bio_wf_offset_le:
  assumes "bio_wf bio" and "message_q bio = m # ms"
  shows "headoffset bio \<le> msg_len m" and "unat (headoffset bio) \<le> length (msg_buf m)"
proof -
  show le: "headoffset bio \<le> msg_len m"
    using assms by (auto simp: bio_wf_def)
  have "msg_wf m" using assms by (simp add: bio_wf_def)
  with le show "unat (headoffset bio) \<le> length (msg_buf m)"
    by (simp add: msg_wf_def word_le_nat_alt)
qed

lemma bio_wf_offset_total:
  "bio_wf bio \<Longrightarrow> unat (headoffset bio) \<le> length (concat (map msg_buf (message_q bio)))"
  using bio_wf_offset_le(2) [of bio] by (cases "message_q bio") (fastforce simp: bio_wf_def)+

lemma bio_pending_Cons:
  assumes "bio_wf bio" and "message_q bio = m # ms"
  shows "bio_pending bio =
    drop (unat (headoffset bio)) (msg_buf m) @ concat (map msg_buf ms)"
  using bio_wf_offset_le(2) [OF assms] assms(2) by (simp add: bio_pending_def)

lemma bio_wf_new: "bio_wf tlsuv_BIO_new"
  by (simp add: bio_wf_def tlsuv_BIO_new_def bio_pending_def)

lemma bio_pending_new [simp]: "bio_pending tlsuv_BIO_new = []"
  by (simp add: bio_pending_def tlsuv_BIO_new_def)

text \<open>A put appends its bytes, provided the sum of the live buffers stays addressable.\<close>

definition bio_room :: "tlsuv_BIO \<Rightarrow> byte list \<Rightarrow> bool" where
  "bio_room bio buf \<longleftrightarrow>
     length (concat (map msg_buf (message_q bio))) + length buf < 2 ^ 64"

lemma bio_put_pending:
  assumes "bio_wf bio" and "bio_room bio buf"
  shows "bio_pending (snd (tlsuv_BIO_put True True bio buf)) = bio_pending bio @ buf"
  using bio_wf_offset_total [OF assms(1)] assms(2)
  by (simp add: tlsuv_BIO_put_def bio_pending_def Let_def bio_room_def unat_of_nat_size_t)

lemma bio_put_wf:
  assumes "bio_wf bio" and "bio_room bio buf"
  shows "bio_wf (snd (tlsuv_BIO_put True True bio buf))" (is "bio_wf ?b")
proof -
  have len: "unat (of_nat (length buf) :: size_t) = length buf"
    using assms(2) by (simp add: bio_room_def unat_of_nat_size_t)
  have pend: "bio_pending ?b = bio_pending bio @ buf"
    using assms by (rule bio_put_pending)
  have "length (bio_pending bio) \<le> length (concat (map msg_buf (message_q bio)))"
    by (simp add: bio_pending_def)
  then have "unat (available bio) + unat (of_nat (length buf) :: size_t) < 2 ^ 64"
    using assms len by (simp add: bio_wf_def bio_room_def)
  then have "unat (available ?b) = length (bio_pending ?b)"
    using assms(1) len pend unat_add_size_t
    by (simp add: tlsuv_BIO_put_def Let_def bio_wf_def)
  then show ?thesis
    using assms len
    by (auto simp: bio_wf_def bio_room_def msg_wf_def tlsuv_BIO_put_def Let_def
             split: list.splits)
qed

lemma bio_recv_size_nat:
  assumes "bio_wf bio" and "message_q bio = m # ms" and "tot \<le> len"
  shows "unat (bio_recv_size bio m len tot) =
    min (unat len - unat tot) (length (msg_buf m) - unat (headoffset bio))"
proof -
  have "msg_wf m" using assms by (simp add: bio_wf_def)
  then show ?thesis
    using bio_wf_offset_le(1) [OF assms(1,2)] assms(3)
    by (simp add: bio_recv_size_def unat_min_size_t unat_sub_size_t msg_wf_def)
qed


text \<open>
  One turn of the read loop: what is copied is the front of the pending bytes, what stays pending
  is the rest, and the queue stays well formed.
\<close>

lemma bio_consume_step:
  assumes wf: "bio_wf bio" and q: "message_q bio = m # ms" and le: "tot \<le> len"
  defines "n \<equiv> bio_recv_size bio m len tot"
  defines "bio' \<equiv> bio_consume bio m ms n"
  shows "take (unat n) (drop (unat (headoffset bio)) (msg_buf m)) = take (unat n) (bio_pending bio)"
    and "bio_pending bio' = drop (unat n) (bio_pending bio)"
    and "bio_wf bio'"
    and "unat n \<le> length (bio_pending bio)"
proof -
  have mwf: "msg_wf m" using wf q by (simp add: bio_wf_def)
  have hle: "unat (headoffset bio) \<le> length (msg_buf m)"
    using wf q by (rule bio_wf_offset_le)
  have n: "unat n = min (unat len - unat tot) (length (msg_buf m) - unat (headoffset bio))"
    unfolding n_def using wf q le by (rule bio_recv_size_nat)
  have pend: "bio_pending bio = drop (unat (headoffset bio)) (msg_buf m) @ concat (map msg_buf ms)"
    using wf q by (rule bio_pending_Cons)
  show take: "take (unat n) (drop (unat (headoffset bio)) (msg_buf m)) = take (unat n) (bio_pending bio)"
    using n pend by simp
  show nle: "unat n \<le> length (bio_pending bio)"
    using n pend by simp
  have ho: "unat (headoffset bio + n) = unat (headoffset bio) + unat n"
  proof (rule unat_add_size_t)
    show "unat (headoffset bio) + unat n < 2 ^ 64"
      using n hle mwf unat_lt_size_t [of "msg_len m"] by (simp add: msg_wf_def)
  qed
  have fin: "headoffset bio + n = msg_len m \<longleftrightarrow> unat n = length (msg_buf m) - unat (headoffset bio)"
    using ho hle mwf by (auto simp: msg_wf_def word_unat_eq_iff)
  have q': "message_q bio' = (if headoffset bio + n = msg_len m then ms else m # ms)"
    and h': "headoffset bio' = (if headoffset bio + n = msg_len m then 0 else headoffset bio + n)"
    and a': "available bio' = available bio - n"
    and l': "qlen bio' = (if headoffset bio + n = msg_len m then qlen bio - 1 else qlen bio)"
    using q by (simp_all add: bio'_def bio_consume_def Let_def)
  show pend': "bio_pending bio' = drop (unat n) (bio_pending bio)"
  proof (cases "headoffset bio + n = msg_len m")
    case True
    then show ?thesis
      using q' h' pend fin by (simp add: bio_pending_def)
  next
    case False
    have "unat n + unat (headoffset bio) \<le> length (msg_buf m)" using n hle by simp
    with False show ?thesis
      using q' h' pend ho q by (simp add: bio_pending_def add.commute)
  qed
  have "n \<le> available bio"
    using nle wf by (simp add: bio_wf_def word_le_nat_alt)
  then have "unat (available bio') = length (bio_pending bio')"
    using pend' a' wf by (simp add: bio_wf_def unat_sub_size_t)
  moreover have "headoffset bio + n = msg_len m \<or> headoffset bio + n < msg_len m"
    using ho n hle mwf by (auto simp: msg_wf_def word_less_nat_alt word_unat_eq_iff)
  ultimately show "bio_wf bio'"
    using wf q q' h' l' unfolding bio_wf_def by (auto split: list.splits)
qed

text \<open>The whole loop, by induction along its own recursion.\<close>

lemma bio_read_loop_correct:
  assumes "bio_wf bio" and "tot \<le> len" and "bio_read_loop bio len tot out = (bio', tot', out')"
  shows "bio_wf bio' \<and>
    out' = out @ take (unat len - unat tot) (bio_pending bio) \<and>
    bio_pending bio' = drop (unat len - unat tot) (bio_pending bio) \<and>
    unat tot' = unat tot + min (unat len - unat tot) (length (bio_pending bio))"
  using assms
proof (induction bio len tot out arbitrary: bio' tot' out' rule: bio_read_loop.induct)
  case (1 bio len tot out)
  show ?case
  proof (cases "message_q bio")
    case Nil
    then have "bio_pending bio = []" by (simp add: bio_pending_def)
    with Nil "1.prems" show ?thesis by (auto simp: bio_read_loop.simps [of bio])
  next
    case (Cons m ms)
    show ?thesis
    proof (cases "tot < len")
      case False
      with "1.prems" Cons show ?thesis by (auto simp: bio_read_loop.simps [of bio])
    next
      case True
      let ?n = "bio_recv_size bio m len tot"
      let ?b = "bio_consume bio m ms ?n"
      note step = bio_consume_step [OF "1.prems"(1) Cons "1.prems"(2)]
      have nn: "unat ?n = min (unat len - unat tot) (length (msg_buf m) - unat (headoffset bio))"
        using "1.prems"(1) Cons "1.prems"(2) by (rule bio_recv_size_nat)
      have lt: "unat tot < unat len" using True by (simp add: word_less_nat_alt)
      have tn: "unat (tot + ?n) = unat tot + unat ?n"
        by (rule unat_add_size_t) (use nn lt unat_lt_size_t [of len] in simp)
      then have le': "tot + ?n \<le> len"
        using nn lt by (simp add: word_le_nat_alt)
      have rec: "bio_read_loop ?b len (tot + ?n) (out @ take (unat ?n) (bio_pending bio)) =
          (bio', tot', out')"
        using "1.prems"(3) Cons True step(1) by (simp add: bio_read_loop.simps [of bio] Let_def)
      have IH: "bio_wf bio' \<and>
          out' = (out @ take (unat ?n) (bio_pending bio)) @ take (unat len - unat (tot + ?n)) (bio_pending ?b) \<and>
          bio_pending bio' = drop (unat len - unat (tot + ?n)) (bio_pending ?b) \<and>
          unat tot' = unat (tot + ?n) + min (unat len - unat (tot + ?n)) (length (bio_pending ?b))"
        using "1.IH" [OF Cons True refl step(3) le'] rec step(1) by simp
      have sum: "unat ?n + (unat len - (unat tot + unat ?n)) = unat len - unat tot"
        using nn lt by simp
      then show ?thesis
        using IH tn step(2,4) take_drop_append [of "unat ?n" "bio_pending bio"]
        by (auto simp: add.commute)
    qed
  qed
qed


lemma tlsuv_BIO_free_all: "tlsuv_BIO_free bio = message_q bio"
proof (induction bio rule: tlsuv_BIO_free.induct)
  case (1 bio)
  show ?case
  proof (cases "message_q bio = []")
    case True
    then show ?thesis by (simp add: tlsuv_BIO_free.simps [of bio])
  next
    case False
    with "1.IH" show ?thesis by (simp add: tlsuv_BIO_free.simps [of bio])
  qed
qed

lemma bio_read_pending:
  assumes "bio_wf bio" and "tlsuv_BIO_read bio len = (rc, bio', out)"
  shows "bio_wf bio'" and "out = take (unat len) (bio_pending bio)"
    and "bio_pending bio' = drop (unat len) (bio_pending bio)"
    and "unat len < 2 ^ 31 \<Longrightarrow> rc = int (length out)"
proof -
  obtain t where l: "bio_read_loop bio len 0 [] = (bio', t, out)" and rc: "rc = to_c_int t"
    using assms(2) by (auto simp: tlsuv_BIO_read_def Let_def split: prod.splits)
  note c = bio_read_loop_correct [OF assms(1) _ l, simplified]
  show "bio_wf bio'" and out: "out = take (unat len) (bio_pending bio)"
    and "bio_pending bio' = drop (unat len) (bio_pending bio)"
    using c by auto
  have "unat t = length out" using c out by (simp add: min.commute)
  then show "unat len < 2 ^ 31 \<Longrightarrow> rc = int (length out)"
    using out rc to_c_int_small [of t] by simp
qed

section \<open>The interface of a byte queue\<close>

text \<open>
  What a user of the queue relies on. \<open>held\<close> bounds the memory the queue keeps, so that a bound on
  the bytes ever put is enough to run any sequence of operations.
\<close>

datatype fifo_op = Put "byte list" | Get size_t

primrec fifo_input :: "fifo_op list \<Rightarrow> byte list" where
  "fifo_input [] = []"
| "fifo_input (x # xs) = (case x of Put bs \<Rightarrow> bs @ fifo_input xs | Get n \<Rightarrow> fifo_input xs)"

primrec fifo_run ::
  "('s \<Rightarrow> byte list \<Rightarrow> 's) \<Rightarrow> ('s \<Rightarrow> size_t \<Rightarrow> 's \<times> byte list) \<Rightarrow> 's \<Rightarrow> fifo_op list \<Rightarrow> 's \<times> byte list"
where
  "fifo_run put get s [] = (s, [])"
| "fifo_run put get s (x # xs) =
     (case x of
        Put bs \<Rightarrow> fifo_run put get (put s bs) xs
      | Get n \<Rightarrow> (let (s1, a) = get s n; (s2, b) = fifo_run put get s1 xs in (s2, a @ b)))"

locale byte_fifo =
  fixes empty :: 's
    and put :: "'s \<Rightarrow> byte list \<Rightarrow> 's"
    and get :: "'s \<Rightarrow> size_t \<Rightarrow> 's \<times> byte list"
    and contents :: "'s \<Rightarrow> byte list"
    and held :: "'s \<Rightarrow> nat"
    and wf :: "'s \<Rightarrow> bool"
  assumes wf_empty: "wf empty"
    and contents_empty: "contents empty = []"
    and held_empty: "held empty = 0"
    and wf_put: "wf s \<Longrightarrow> held s + length bs < 2 ^ 64 \<Longrightarrow> wf (put s bs)"
    and contents_put: "wf s \<Longrightarrow> held s + length bs < 2 ^ 64 \<Longrightarrow> contents (put s bs) = contents s @ bs"
    and held_put: "wf s \<Longrightarrow> held s + length bs < 2 ^ 64 \<Longrightarrow> held (put s bs) \<le> held s + length bs"
    and wf_get: "wf s \<Longrightarrow> wf (fst (get s n))"
    and contents_get: "wf s \<Longrightarrow> snd (get s n) @ contents (fst (get s n)) = contents s"
    and held_get: "wf s \<Longrightarrow> held (fst (get s n)) \<le> held s"
begin

lemma run_fifo:
  assumes "wf s" and "held s + length (fifo_input ops) < 2 ^ 64"
    and "fifo_run put get s ops = (s', outs)"
  shows "wf s' \<and> outs @ contents s' = contents s @ fifo_input ops"
  using assms
proof (induction ops arbitrary: s outs)
  case Nil
  then show ?case by simp
next
  case (Cons x ops)
  show ?case
  proof (cases x)
    case (Put bs)
    have room: "held s + length bs < 2 ^ 64" using Cons.prems(2) Put by simp
    have "held (put s bs) + length (fifo_input ops) < 2 ^ 64"
      using held_put [OF Cons.prems(1) room] Cons.prems(2) Put by simp
    from Cons.IH [OF wf_put [OF Cons.prems(1) room] this] Cons.prems(3) Put
    have "wf s' \<and> outs @ contents s' = contents (put s bs) @ fifo_input ops" by simp
    then show ?thesis using Put contents_put [OF Cons.prems(1) room] by simp
  next
    case (Get n)
    obtain b where b: "fifo_run put get (fst (get s n)) ops = (s', b)" and o: "outs = snd (get s n) @ b"
      using Cons.prems(3) Get by (auto simp: Let_def split: prod.splits)
    have "held (fst (get s n)) + length (fifo_input ops) < 2 ^ 64"
      using held_get [OF Cons.prems(1), of n] Cons.prems(2) Get by simp
    from Cons.IH [OF wf_get [OF Cons.prems(1)] this b]
    have "wf s' \<and> b @ contents s' = contents (fst (get s n)) @ fifo_input ops" .
    then show ?thesis using Get o contents_get [OF Cons.prems(1), of n] by (metis append_assoc fifo_input.simps(2) fifo_op.simps(6))
  qed
qed

lemma run_from_empty:
  assumes "length (fifo_input ops) < 2 ^ 64" and "fifo_run put get empty ops = (s', outs)"
  shows "wf s'" and "outs @ contents s' = fifo_input ops"
  using run_fifo [OF wf_empty _ assms(2)] assms(1) by (simp_all add: held_empty contents_empty)

end

text \<open>The code's queue is such a queue when its allocations succeed.\<close>

definition bio_put :: "tlsuv_BIO \<Rightarrow> byte list \<Rightarrow> tlsuv_BIO" where
  "bio_put bio buf = snd (tlsuv_BIO_put True True bio buf)"

definition bio_get :: "tlsuv_BIO \<Rightarrow> size_t \<Rightarrow> tlsuv_BIO \<times> byte list" where
  "bio_get bio n = snd (tlsuv_BIO_read bio n)"

definition bio_held :: "tlsuv_BIO \<Rightarrow> nat" where
  "bio_held bio = length (concat (map msg_buf (message_q bio)))"

lemma bio_held_consume:
  "message_q bio = m # ms \<Longrightarrow> bio_held (bio_consume bio m ms n) \<le> bio_held bio"
  by (simp add: bio_held_def bio_consume_def Let_def)

lemma bio_held_loop: "bio_held (fst (bio_read_loop bio len tot out)) \<le> bio_held bio"
proof (induction bio len tot out rule: bio_read_loop.induct)
  case (1 bio len tot out)
  show ?case
  proof (cases "message_q bio")
    case Nil
    then show ?thesis by (simp add: bio_read_loop.simps [of bio])
  next
    case (Cons m ms)
    with "1.IH" [OF Cons _ refl] bio_held_consume [OF Cons] show ?thesis
      by (auto simp: bio_read_loop.simps [of bio] Let_def intro: order_trans)
  qed
qed

interpretation bio: byte_fifo tlsuv_BIO_new bio_put bio_get bio_pending bio_held bio_wf
proof (unfold_locales, goal_cases)
  case 1 show ?case by (rule bio_wf_new)
next
  case 2 show ?case by simp
next
  case 3 show ?case by (simp add: bio_held_def tlsuv_BIO_new_def)
next
  case (4 s bs) then show ?case
    unfolding bio_put_def by (intro bio_put_wf) (simp_all add: bio_room_def bio_held_def)
next
  case (5 s bs) then show ?case
    unfolding bio_put_def by (intro bio_put_pending) (simp_all add: bio_room_def bio_held_def)
next
  case (6 s bs) then show ?case
    by (simp add: bio_put_def bio_held_def tlsuv_BIO_put_def Let_def)
next
  case (7 s n) then show ?case
    using bio_read_pending(1) by (metis bio_get_def prod.collapse)
next
  case (8 s n) then show ?case
    using bio_read_pending(2,3) by (metis append_take_drop_id bio_get_def prod.collapse)
next
  case (9 s n) show ?case
    using bio_held_loop [of s n 0 "[]"]
    by (auto simp: bio_get_def tlsuv_BIO_read_def Let_def split: prod.splits)
qed


section \<open>Properties\<close>

text \<open>
  C8. The queue is a byte stream: for every interleaving of puts and reads that starts from a new
  queue, the bytes handed out so far followed by the bytes still pending are exactly the bytes put,
  in order, with none lost, repeated or reordered at message boundaries.
\<close>

theorem bio_stream:
  assumes "length (fifo_input ops) < 2 ^ 64"
    and "fifo_run bio_put bio_get tlsuv_BIO_new ops = (bio, outs)"
  shows "bio_wf bio \<and> outs @ bio_pending bio = fifo_input ops"
  using bio.run_from_empty [OF assms] by simp

theorem bio_stream_witness:
  "snd (fifo_run bio_put bio_get tlsuv_BIO_new [Put [1, 2, 3], Put [4, 5], Get 4, Put [6], Get 9])
     = [1, 2, 3, 4, 5, 6]"
proof -
  let ?ops = "[Put [1, 2, 3], Put [4, 5], Get 4, Put [6], Get 9]"
  obtain bio outs where r: "fifo_run bio_put bio_get tlsuv_BIO_new ?ops = (bio, outs)"
    by (cases "fifo_run bio_put bio_get tlsuv_BIO_new ?ops")
  have s: "outs @ bio_pending bio = [1, 2, 3, 4, 5, 6]"
    using bio_stream [OF _ r] by simp
  have "snd (fifo_run bio_put bio_get tlsuv_BIO_new ?ops) = [1, 2, 3, 4, 5, 6]"
    by code_simp
  then show ?thesis using s r by simp
qed

end
