(* ===== verification/Base64url.thy ===== *)
theory Base64url
  imports Prelude
begin

text \<open>
  The base64url decoder of \<open>src/base64.c\<close>: the alphabet table, the length estimate that sizes the
  output buffer, and the decoder. The reference is a decoder on the bit string that the sextets
  spell out, and the encoder of RFC 4648 section 5 without padding.
\<close>

section \<open>The table\<close>

definition pr2six_table :: "byte list" where
  "pr2six_table =
    [64, 64, 64, 64, 64, 64, 64, 64, 64, 64, 64, 64, 64, 64, 64, 64,
     64, 64, 64, 64, 64, 64, 64, 64, 64, 64, 64, 64, 64, 64, 64, 64,
     64, 64, 64, 64, 64, 64, 64, 64, 64, 64, 64, 64, 64, 62, 64, 63,
     52, 53, 54, 55, 56, 57, 58, 59, 60, 61, 64, 64, 64, 64, 64, 64,
     64,  0,  1,  2,  3,  4,  5,  6,  7,  8,  9, 10, 11, 12, 13, 14,
     15, 16, 17, 18, 19, 20, 21, 22, 23, 24, 25, 64, 64, 64, 64, 63,
     64, 26, 27, 28, 29, 30, 31, 32, 33, 34, 35, 36, 37, 38, 39, 40,
     41, 42, 43, 44, 45, 46, 47, 48, 49, 50, 51, 64, 64, 64, 64, 64,
     64, 64, 64, 64, 64, 64, 64, 64, 64, 64, 64, 64, 64, 64, 64, 64,
     64, 64, 64, 64, 64, 64, 64, 64, 64, 64, 64, 64, 64, 64, 64, 64,
     64, 64, 64, 64, 64, 64, 64, 64, 64, 64, 64, 64, 64, 64, 64, 64,
     64, 64, 64, 64, 64, 64, 64, 64, 64, 64, 64, 64, 64, 64, 64, 64,
     64, 64, 64, 64, 64, 64, 64, 64, 64, 64, 64, 64, 64, 64, 64, 64,
     64, 64, 64, 64, 64, 64, 64, 64, 64, 64, 64, 64, 64, 64, 64, 64,
     64, 64, 64, 64, 64, 64, 64, 64, 64, 64, 64, 64, 64, 64, 64, 64,
     64, 64, 64, 64, 64, 64, 64, 64, 64, 64, 64, 64, 64, 64, 64, 64]"

definition pr2six :: "byte \<Rightarrow> byte" where
  "pr2six c = pr2six_table ! unat c"

section \<open>The code\<close>

text \<open>
  \<open>while (pr2six[*(bufin++)] <= 63);\<close> followed by the pointer difference less one: the number of
  leading characters of the alphabet. The string ends with a NUL, which is outside the alphabet.
\<close>

fun nprbytes :: "byte list \<Rightarrow> nat" where
  "nprbytes [] = 0"
| "nprbytes (c # cs) = (if pr2six c \<le> 63 then Suc (nprbytes cs) else 0)"

definition base64url_decode_len :: "byte list \<Rightarrow> nat" where
  "base64url_decode_len bufcoded = ((nprbytes bufcoded + 3) div 4) * 3"

text \<open>
  The three output bytes of a group. The C code computes them in \<open>int\<close> and truncates to
  \<open>unsigned char\<close>; shifting and combining in 8 bits gives the same low byte.
\<close>

definition b64_out1 :: "byte \<Rightarrow> byte \<Rightarrow> byte" where
  "b64_out1 c0 c1 = push_bit 2 (pr2six c0) OR drop_bit 4 (pr2six c1)"

definition b64_out2 :: "byte \<Rightarrow> byte \<Rightarrow> byte" where
  "b64_out2 c1 c2 = push_bit 4 (pr2six c1) OR drop_bit 2 (pr2six c2)"

definition b64_out3 :: "byte \<Rightarrow> byte \<Rightarrow> byte" where
  "b64_out3 c2 c3 = push_bit 6 (pr2six c2) OR pr2six c3"

text \<open>
  The loop and the three trailing conditionals. \<open>bufin\<close> is the input from the current position on
  and \<open>n\<close> the count of alphabet characters left; \<open>bufin ! i\<close> is only read for \<open>i < n\<close>.
\<close>

fun b64_decode_loop :: "byte list \<Rightarrow> nat \<Rightarrow> byte list" where
  "b64_decode_loop bufin n =
     (if n > 4 then
        [b64_out1 (bufin ! 0) (bufin ! 1), b64_out2 (bufin ! 1) (bufin ! 2),
         b64_out3 (bufin ! 2) (bufin ! 3)] @ b64_decode_loop (drop 4 bufin) (n - 4)
      else
        (if n > 1 then [b64_out1 (bufin ! 0) (bufin ! 1)] else []) @
        (if n > 2 then [b64_out2 (bufin ! 1) (bufin ! 2)] else []) @
        (if n > 3 then [b64_out3 (bufin ! 2) (bufin ! 3)] else []))"

declare b64_decode_loop.simps [simp del]

text \<open>
  The entry point. \<open>alloc\<close> says whether \<open>malloc\<close> succeeds: its result is not tested, so the first
  byte written through a null \<open>buf\<close> is a null dereference. The buffer has \<open>base64url_decode_len\<close>
  bytes and the loop writes without a test, so a longer output would be an out-of-bounds write.
  The result is \<open>len\<close> (also stored in \<open>*out_len\<close>) and the bytes at \<open>*out\<close>.
\<close>

definition tlsuv_base64url_decode :: "bool \<Rightarrow> byte list \<Rightarrow> ub + (nat \<times> byte list)" where
  "tlsuv_base64url_decode alloc inp =
     (let out_len = base64url_decode_len inp;
          out = b64_decode_loop inp (nprbytes inp)
      in if out = [] then Inr (0, [])
         else if \<not> alloc then Inl Null_Deref
         else if length out > out_len then Inl Out_Of_Bounds_Write
         else Inr (length out, out))"

section \<open>The reference\<close>

text \<open>
  A sextet as six bits, most significant first; a byte from eight bits; and the decoder that
  concatenates the sextets of the alphabet prefix and cuts the result into bytes, dropping an
  incomplete last byte.
\<close>

definition sextet_bits :: "byte \<Rightarrow> bool list" where
  "sextet_bits v = map (bit v) [5, 4, 3, 2, 1, 0]"

definition byte_of_bits :: "bool list \<Rightarrow> byte" where
  "byte_of_bits bs = horner_sum of_bool 2 (rev bs)"

fun bytes_of_bits :: "bool list \<Rightarrow> byte list" where
  "bytes_of_bits bs =
     (if length bs < 8 then [] else byte_of_bits (take 8 bs) # bytes_of_bits (drop 8 bs))"

declare bytes_of_bits.simps [simp del]

definition base64url_reference :: "byte list \<Rightarrow> byte list" where
  "base64url_reference inp =
     bytes_of_bits (concat (map (sextet_bits \<circ> pr2six) (takeWhile (\<lambda>c. pr2six c \<le> 63) inp)))"

definition base64url_char :: "byte \<Rightarrow> byte" where
  "base64url_char v =
     (if v < 26 then 65 + v else if v < 52 then 97 + (v - 26) else if v < 62 then 48 + (v - 52)
      else if v = 62 then 45 else 95)"

definition enc_sextet1 :: "byte \<Rightarrow> byte" where
  "enc_sextet1 a = drop_bit 2 a"

definition enc_sextet2 :: "byte \<Rightarrow> byte \<Rightarrow> byte" where
  "enc_sextet2 a b = push_bit 4 (a AND 3) OR drop_bit 4 b"

definition enc_sextet3 :: "byte \<Rightarrow> byte \<Rightarrow> byte" where
  "enc_sextet3 b c = push_bit 2 (b AND 15) OR drop_bit 6 c"

definition enc_sextet4 :: "byte \<Rightarrow> byte" where
  "enc_sextet4 c = c AND 63"

fun base64url_encode :: "byte list \<Rightarrow> byte list" where
  "base64url_encode [] = []"
| "base64url_encode [a] = map base64url_char [enc_sextet1 a, enc_sextet2 a 0]"
| "base64url_encode [a, b] =
     map base64url_char [enc_sextet1 a, enc_sextet2 a b, enc_sextet3 b 0]"
| "base64url_encode (a # b # c # r) =
     map base64url_char [enc_sextet1 a, enc_sextet2 a b, enc_sextet3 b c, enc_sextet4 c] @
     base64url_encode r"

section \<open>The decoder against the reference\<close>

lemma nprbytes_takeWhile: "nprbytes inp = length (takeWhile (\<lambda>c. pr2six c \<le> 63) inp)"
  by (induction inp) auto

lemma byte_cases_less: 
  assumes "list_all (\<lambda>n. P (of_nat n :: byte)) [0..<64]" and "v < 64" shows "P v"
proof -
  have "unat v < 64" using assms(2) by (simp add: word_less_nat_alt)
  then have "unat v \<in> set [0..<64]" by simp
  then have "P (of_nat (unat v))" using assms unfolding list_all_iff by blast
  then show ?thesis by simp
qed

lemma pr2six_char: 
  assumes "v < 64" shows "pr2six (base64url_char v) = v"
proof -
  have "list_all (\<lambda>n. pr2six (base64url_char (of_nat n)) = of_nat n) [0..<64]" by code_simp
  from byte_cases_less [where P = "\<lambda>v. pr2six (base64url_char v) = v", OF this assms] show ?thesis .
qed

lemma sextet_high_bit: 
  assumes "v \<le> 63" and "6 \<le> n" shows "\<not> bit (v::byte) n"
proof -
  have "list_all (\<lambda>n. (of_nat n :: byte) AND 63 = of_nat n) [0..<64]" by code_simp
  moreover have "v < 64" using assms(1) by (simp add: word_le_nat_alt word_less_nat_alt)
  ultimately have "v AND 63 = v" by (rule byte_cases_less [where P = "\<lambda>v. v AND 63 = v"])
  moreover have "(63 :: byte) = mask 6" by code_simp
  ultimately have "bit v n \<longleftrightarrow> bit v n \<and> bit (mask 6 :: byte) n" by (metis bit_and_iff)
  then show ?thesis using assms(2) by (simp add: bit_mask_iff)
qed

lemma byte_of_bits_eqI:
  assumes "\<And>n. n < 8 \<Longrightarrow> bit w n = bs ! (7 - n)" and "length bs = 8"
  shows "byte_of_bits bs = w"
  by (rule bit_word_eqI)
     (use assms in \<open>auto simp: byte_of_bits_def bit_horner_sum_bit_word_iff rev_nth\<close>)

lemma less_8_cases: "n < (8::nat) \<Longrightarrow> n \<in> {0,1,2,3,4,5,6,7}"
  by auto

lemma byte_of_bits_out1:
  assumes "a \<le> 63" "b \<le> 63"
  shows "byte_of_bits (take 8 (sextet_bits a @ sextet_bits b @ r)) = push_bit 2 a OR drop_bit 4 b"
  by (rule byte_of_bits_eqI, drule less_8_cases)
     (use assms in \<open>auto simp: sextet_bits_def bit_or_iff bit_push_bit_iff bit_drop_bit_eq sextet_high_bit
         numeral_2_eq_2 [symmetric] numeral_3_eq_3 [symmetric]\<close>)
lemma byte_of_bits_out2:
  assumes "a \<le> 63" "b \<le> 63"
  shows "byte_of_bits (take 8 (drop 2 (sextet_bits a) @ sextet_bits b @ r)) = push_bit 4 a OR drop_bit 2 b"
  by (rule byte_of_bits_eqI, drule less_8_cases)
     (use assms in \<open>auto simp: sextet_bits_def bit_or_iff bit_push_bit_iff bit_drop_bit_eq sextet_high_bit
         numeral_2_eq_2 [symmetric] numeral_3_eq_3 [symmetric]\<close>)
lemma byte_of_bits_out3:
  assumes "a \<le> 63" "b \<le> 63"
  shows "byte_of_bits (take 8 (drop 4 (sextet_bits a) @ sextet_bits b @ r)) = push_bit 6 a OR b"
  by (rule byte_of_bits_eqI, drule less_8_cases)
     (use assms in \<open>auto simp: sextet_bits_def bit_or_iff bit_push_bit_iff bit_drop_bit_eq sextet_high_bit
         numeral_2_eq_2 [symmetric] numeral_3_eq_3 [symmetric]\<close>)

lemma length_sextet_bits [simp]: "length (sextet_bits v) = 6"
  by (simp add: sextet_bits_def)

lemmas byte_of_bits_out = byte_of_bits_out1 byte_of_bits_out2 byte_of_bits_out3

lemma bytes_of_bits_step:
  "8 \<le> length bs \<Longrightarrow> bytes_of_bits bs = byte_of_bits (take 8 bs) # bytes_of_bits (drop 8 bs)"
  by (simp add: bytes_of_bits.simps [of bs])

lemma bytes_of_bits_short: "length bs < 8 \<Longrightarrow> bytes_of_bits bs = []"
  by (simp add: bytes_of_bits.simps [of bs])

lemma bytes_of_bits_2:
  assumes "a \<le> 63" "b \<le> 63"
  shows "bytes_of_bits (sextet_bits a @ sextet_bits b @ r) =
    (push_bit 2 a OR drop_bit 4 b) # bytes_of_bits (drop 2 (sextet_bits b) @ r)"
  using byte_of_bits_out1 [OF assms, of r] by (simp add: bytes_of_bits_step)

lemma bytes_of_bits_3:
  assumes "a \<le> 63" "b \<le> 63" "c \<le> 63"
  shows "bytes_of_bits (sextet_bits a @ sextet_bits b @ sextet_bits c @ r) =
    (push_bit 2 a OR drop_bit 4 b) # (push_bit 4 b OR drop_bit 2 c) #
    bytes_of_bits (drop 4 (sextet_bits c) @ r)"
  using bytes_of_bits_2 [OF assms(1,2)] byte_of_bits_out2 [OF assms(2,3), of r]
    bytes_of_bits_step [of "drop 2 (sextet_bits b) @ sextet_bits c @ r"] by simp

lemma bytes_of_bits_4:
  assumes "a \<le> 63" "b \<le> 63" "c \<le> 63" "d \<le> 63"
  shows "bytes_of_bits (sextet_bits a @ sextet_bits b @ sextet_bits c @ sextet_bits d @ r) =
    (push_bit 2 a OR drop_bit 4 b) # (push_bit 4 b OR drop_bit 2 c) # (push_bit 6 c OR d) #
    bytes_of_bits r"
  using bytes_of_bits_3 [OF assms(1-3)] byte_of_bits_out3 [OF assms(3,4), of r]
    bytes_of_bits_step [of "drop 4 (sextet_bits c) @ sextet_bits d @ r"] by simp

lemmas b64_out_defs = b64_out1_def b64_out2_def b64_out3_def

lemma b64_decode_loop_reference:
  assumes "n \<le> length bufin" and "\<forall>c \<in> set (take n bufin). pr2six c \<le> 63"
  shows "b64_decode_loop bufin n = bytes_of_bits (concat (map (sextet_bits \<circ> pr2six) (take n bufin)))"
  using assms
proof (induction bufin n rule: b64_decode_loop.induct)
  case (1 bufin n)
  show ?case
  proof (cases "n > 4")
    case True
    then obtain c0 c1 c2 c3 r where b: "bufin = c0 # c1 # c2 # c3 # r"
      using "1.prems"(1) by (cases bufin rule: remdups_adj.cases; cases "tl (tl bufin)" rule: remdups_adj.cases) auto
    have n: "n = Suc (Suc (Suc (Suc (n - 4))))" using True by simp
    have tk: "take n bufin = c0 # c1 # c2 # c3 # take (n - 4) r"
      unfolding b by (subst n) simp
    have IH: "b64_decode_loop r (n - 4) = bytes_of_bits (concat (map (sextet_bits \<circ> pr2six) (take (n - 4) r)))"
      using "1.IH" [OF True] "1.prems" b tk True by (simp add: comp_def)
    show ?thesis
      using "1.prems"(2) True IH unfolding tk
      by (simp add: b b64_decode_loop.simps [of "c0 # _"] bytes_of_bits_4 b64_out_defs comp_def)
  next
    case False
    then consider "n = 0" | "n = 1" | "n = 2" | "n = 3" | "n = 4" by linarith
    then show ?thesis
    proof cases
      case 1
      then show ?thesis by (simp add: b64_decode_loop.simps [of bufin] bytes_of_bits_short)
    next
      case 2
      with "1.prems" obtain c0 r where "bufin = c0 # r" by (cases bufin) auto
      with 2 show ?thesis by (simp add: b64_decode_loop.simps [of _ "Suc 0"] bytes_of_bits_short)
    next
      case 3
      with "1.prems" obtain c0 c1 r where "bufin = c0 # c1 # r"
        by (cases bufin rule: remdups_adj.cases) auto
      with 3 "1.prems" show ?thesis
        using bytes_of_bits_2 [of "pr2six c0" "pr2six c1" "[]"]
        by (simp add: b64_decode_loop.simps [of _ 2] bytes_of_bits_short b64_out_defs)
    next
      case 4
      with "1.prems" obtain c0 c1 c2 r where "bufin = c0 # c1 # c2 # r"
        by (cases bufin rule: remdups_adj.cases; cases "tl (tl bufin)") auto
      with 4 "1.prems" show ?thesis
        using bytes_of_bits_3 [of "pr2six c0" "pr2six c1" "pr2six c2" "[]"]
        by (simp add: b64_decode_loop.simps [of _ 3] bytes_of_bits_short b64_out_defs)
    next
      case 5
      with "1.prems" obtain c0 c1 c2 c3 r where "bufin = c0 # c1 # c2 # c3 # r"
        by (cases bufin rule: remdups_adj.cases; cases "tl (tl bufin)" rule: remdups_adj.cases) auto
      with 5 "1.prems" show ?thesis
        using bytes_of_bits_4 [of "pr2six c0" "pr2six c1" "pr2six c2" "pr2six c3" "[]"]
        by (simp add: b64_decode_loop.simps [of _ 4] bytes_of_bits_short b64_out_defs)
    qed
  qed
qed


lemma set_alphabet_prefix:
  "\<forall>c \<in> set (take (nprbytes inp) inp). pr2six c \<le> 63"
  by (induction inp) auto

lemma nprbytes_le: "nprbytes inp \<le> length inp"
  by (induction inp) auto

lemma take_nprbytes: "take (nprbytes inp) inp = takeWhile (\<lambda>c. pr2six c \<le> 63) inp"
  by (induction inp) auto

lemma length_b64_decode_loop:
  "length (b64_decode_loop bufin n) = 6 * n div 8"
proof (induction bufin n rule: b64_decode_loop.induct)
  case (1 bufin n)
  show ?case
  proof (cases "n > 4")
    case True
    then have "6 * n div 8 = 3 + 6 * (n - 4) div 8" by linarith
    with 1 True show ?thesis by (simp add: b64_decode_loop.simps [of bufin])
  next
    case False
    then have "n \<in> {0, 1, 2, 3, 4}" by auto
    then show ?thesis by (auto simp: b64_decode_loop.simps [of bufin])
  qed
qed

section \<open>The encoder inverts the decoder\<close>

lemma pr2six_char_le: "v < 64 \<Longrightarrow> pr2six (base64url_char v) \<le> 63"
  by (simp add: pr2six_char word_le_nat_alt word_less_nat_alt)

lemma mask_numerals: "(3 :: byte) = mask 2" "(15 :: byte) = mask 4" "(63 :: byte) = mask 6"
  by code_simp+

lemma sextetI:
  assumes "\<And>n. bit x n \<Longrightarrow> n < 6" shows "x < (64 :: byte)"
proof -
  have "x = x AND 63"
    unfolding mask_numerals by (rule bit_word_eqI) (use assms in \<open>auto simp: bit_and_iff bit_mask_iff\<close>)
  then have "x \<le> 63" by (metis word_and_le1)
  then show ?thesis by (simp add: word_le_nat_alt word_less_nat_alt)
qed

lemma byte_eqI:
  assumes "\<And>n. n \<in> {0, 1, 2, 3, 4, 5, 6, 7} \<Longrightarrow> bit x n = bit y n" shows "x = (y :: byte)"
  by (rule bit_word_eqI) (use assms less_8_cases in auto)

lemmas enc_sextet_defs = enc_sextet1_def enc_sextet2_def enc_sextet3_def enc_sextet4_def

lemma enc_sextets_less [simp]:
  "enc_sextet1 a < 64" "enc_sextet2 a b < 64" "enc_sextet3 b c < 64" "enc_sextet4 c < 64"
  unfolding enc_sextet_defs mask_numerals
  by (rule sextetI, auto simp: bit_simps dest: bit_imp_le_length)+

lemma dec_enc_groups [simp]:
  "push_bit 2 (enc_sextet1 a) OR drop_bit 4 (enc_sextet2 a b) = a"
  "push_bit 4 (enc_sextet2 a b) OR drop_bit 2 (enc_sextet3 b c) = b"
  "push_bit 6 (enc_sextet3 b c) OR enc_sextet4 c = c"
  unfolding enc_sextet_defs mask_numerals
  by ((rule byte_eqI; elim insertE emptyE;
       auto simp: bit_simps numeral_2_eq_2 [symmetric] numeral_3_eq_3 [symmetric]
            dest: bit_imp_le_length)+)

lemma base64url_encode_sextets:
  "\<forall>c \<in> set (base64url_encode bs). pr2six c \<le> 63"
  by (induction bs rule: base64url_encode.induct) (simp_all add: pr2six_char_le)

lemma nprbytes_all: "\<forall>c \<in> set inp. pr2six c \<le> 63 \<Longrightarrow> nprbytes (inp @ rest) = length inp + nprbytes rest"
  by (induction inp) auto

lemma length_encode_group: "base64url_encode bs = [] \<longleftrightarrow> bs = []"
  by (cases bs rule: base64url_encode.cases) auto

lemma b64_decode_loop_encode:
  "b64_decode_loop (base64url_encode bs @ rest) (length (base64url_encode bs)) = bs"
proof (induction bs rule: base64url_encode.induct)
  case 1
  show ?case by (simp add: b64_decode_loop.simps [of _ 0])
next
  case (2 a)
  show ?case by (simp add: b64_decode_loop.simps [of _ "Suc (Suc 0)"] b64_out_defs pr2six_char)
next
  case (3 a b)
  show ?case by (simp add: b64_decode_loop.simps [of _ "Suc (Suc (Suc 0))"] b64_out_defs pr2six_char)
next
  case (4 a b c r)
  show ?case
  proof (cases "r = []")
    case True
    then show ?thesis
      by (simp add: b64_decode_loop.simps [of _ "Suc (Suc (Suc (Suc 0)))"] b64_out_defs pr2six_char)
  next
    case False
    then have "length (base64url_encode r) > 0" using length_encode_group by auto
    with 4 show ?thesis
      by (simp add: b64_decode_loop.simps [of "base64url_char _ # _"] b64_out_defs pr2six_char)
  qed
qed

lemma base64url_fits: "length (b64_decode_loop inp (nprbytes inp)) \<le> base64url_decode_len inp"
proof -
  have "6 * nprbytes inp div 8 \<le> ((nprbytes inp + 3) div 4) * 3" by linarith
  then show ?thesis by (simp add: length_b64_decode_loop base64url_decode_len_def)
qed

lemma base64url_decode_alloc:
  "tlsuv_base64url_decode True inp =
     Inr (6 * nprbytes inp div 8, b64_decode_loop inp (nprbytes inp))"
  using base64url_fits [of inp] length_b64_decode_loop [of inp "nprbytes inp"]
  by (auto simp: tlsuv_base64url_decode_def Let_def)

section \<open>Properties\<close>

text \<open>
  C13. On every input the decoder returns what the bit-level reference returns: the longest prefix of
  alphabet characters, read as a bit string six bits at a time, cut into bytes with an incomplete
  last byte dropped. It never writes past the buffer it allocated.
\<close>

theorem base64url_decode_reference:
  "tlsuv_base64url_decode True inp =
     Inr (length (base64url_reference inp), base64url_reference inp)"
proof -
  have "b64_decode_loop inp (nprbytes inp) = base64url_reference inp"
    unfolding base64url_reference_def take_nprbytes [symmetric]
    by (rule b64_decode_loop_reference [OF nprbytes_le set_alphabet_prefix])
  then show ?thesis
    using length_b64_decode_loop [of inp "nprbytes inp"] by (simp add: base64url_decode_alloc)
qed

text \<open>
  C26. Round trip: decoding an unpadded base64url text followed by anything that does not start with
  an alphabet character (the end of the string, padding, a separator) gives back the encoded bytes.
\<close>

theorem base64url_roundtrip:
  assumes "nprbytes rest = 0"
  shows "tlsuv_base64url_decode True (base64url_encode bs @ rest) = Inr (length bs, bs)"
proof -
  have n: "nprbytes (base64url_encode bs @ rest) = length (base64url_encode bs)"
    using nprbytes_all [OF base64url_encode_sextets] assms by simp
  have l: "b64_decode_loop (base64url_encode bs @ rest) (length (base64url_encode bs)) = bs"
    by (rule b64_decode_loop_encode)
  then have "6 * length (base64url_encode bs) div 8 = length bs"
    by (metis length_b64_decode_loop)
  then show ?thesis using l n by (simp add: base64url_decode_alloc)
qed

theorem base64url_roundtrip_witness:
  "tlsuv_base64url_decode True (base64url_encode [0xFB, 0xFF, 0x00, 0x7A] @ [61, 61]) =
     Inr (4, [0xFB, 0xFF, 0x00, 0x7A])"
proof -
  have "nprbytes [61, 61] = 0" by code_simp
  from base64url_roundtrip [OF this, of "[0xFB, 0xFF, 0x00, 0x7A]"] show ?thesis by simp
qed

end
