(* ===== verification/Headers.thy ===== *)
theory Headers
  imports Prelude
begin

text \<open>
  The HTTP header lists of \<open>src/http_req.c\<close>, which hold the client's headers, the request headers
  and the response headers. The list is the linked list of the C code with the head first.
  The locale \<open>header_store\<close> is what the request and client code rely on: a map from header names,
  compared without regard to case, to values. \<open>strdup\<close> and \<open>malloc\<close> are taken to succeed.
\<close>

section \<open>Data and operations\<close>

record tlsuv_http_hdr =
  hdr_name :: string
  hdr_value :: string

type_synonym um_header_list = "tlsuv_http_hdr list"

text \<open>The \<open>LIST_FOREACH\<close> loop that stops at the first header with an equal name.\<close>

fun hdr_find :: "um_header_list \<Rightarrow> string \<Rightarrow> nat option" where
  "hdr_find [] name = None"
| "hdr_find (h # hl) name =
     (if strcasecmp_eq (hdr_name h) name then Some 0 else map_option Suc (hdr_find hl name))"

definition add_http_header :: "um_header_list \<Rightarrow> string \<Rightarrow> string \<Rightarrow> nat \<Rightarrow> um_header_list" where
  "add_http_header hl name val vallen =
     \<lparr>hdr_name = name, hdr_value = c_strndup val vallen\<rparr> # hl"

text \<open>\<open>None\<close> stands for a null \<open>value\<close>, which removes the header.\<close>

definition set_http_header :: "um_header_list \<Rightarrow> string \<Rightarrow> string option \<Rightarrow> um_header_list" where
  "set_http_header hl name val =
     (case val of
        None \<Rightarrow> (case hdr_find hl name of None \<Rightarrow> hl | Some i \<Rightarrow> take i hl @ drop (Suc i) hl)
      | Some v \<Rightarrow>
          (case hdr_find hl name of
             None \<Rightarrow> \<lparr>hdr_name = name, hdr_value = v\<rparr> # hl
           | Some i \<Rightarrow> hl[i := (hl ! i)\<lparr>hdr_value := v\<rparr>]))"

fun tlsuv_http_resp_header :: "um_header_list \<Rightarrow> string \<Rightarrow> string option" where
  "tlsuv_http_resp_header [] name = None"
| "tlsuv_http_resp_header (h # hl) name =
     (if strcasecmp_eq (hdr_name h) name then Some (hdr_value h) else tlsuv_http_resp_header hl name)"

text \<open>The headers in the order in which \<open>free_hdr_list\<close> releases them, and the empty list it leaves.\<close>

fun free_hdr_list :: "um_header_list \<Rightarrow> tlsuv_http_hdr list \<times> um_header_list" where
  "free_hdr_list [] = ([], [])"
| "free_hdr_list (h # hl) = (let (freed, rest) = free_hdr_list hl in (h # freed, rest))"

section \<open>The invariant and the lookup laws\<close>

text \<open>No two headers of a list that is only changed by \<open>set_http_header\<close> have the same name.\<close>

definition hdr_key :: "string \<Rightarrow> string" where
  "hdr_key = map to_lower"

definition hdr_distinct :: "um_header_list \<Rightarrow> bool" where
  "hdr_distinct hl \<longleftrightarrow> distinct (map (hdr_key \<circ> hdr_name) hl)"

lemma strcasecmp_eq_key: "strcasecmp_eq a b \<longleftrightarrow> hdr_key a = hdr_key b"
  by (simp add: strcasecmp_eq_def hdr_key_def)

lemma hdr_find_None: "hdr_find hl name = None \<longleftrightarrow> (\<forall>h \<in> set hl. hdr_key (hdr_name h) \<noteq> hdr_key name)"
  by (induction hl) (auto simp: strcasecmp_eq_key)

lemma hdr_find_Some:
  "hdr_find hl name = Some i \<Longrightarrow> i < length hl \<and> hdr_key (hdr_name (hl ! i)) = hdr_key name"
  by (induction hl arbitrary: i) (auto simp: strcasecmp_eq_key split: if_splits)

lemma lookup_set_Some:
  "tlsuv_http_resp_header (set_http_header hl n (Some v)) k =
     (if strcasecmp_eq n k then Some v else tlsuv_http_resp_header hl k)"
proof (induction hl)
  case Nil
  show ?case by (simp add: set_http_header_def)
next
  case (Cons h hl)
  then show ?case
    by (auto simp: set_http_header_def strcasecmp_eq_key split: option.splits)
qed

lemma lookup_remove:
  assumes "hdr_distinct hl"
  shows "tlsuv_http_resp_header (set_http_header hl n None) k =
     (if strcasecmp_eq n k then None else tlsuv_http_resp_header hl k)"
  using assms
proof (induction hl)
  case Nil
  show ?case by (simp add: set_http_header_def)
next
  case (Cons h hl)
  have absent: "tlsuv_http_resp_header hl k = None" if "hdr_key (hdr_name h) = hdr_key k"
    using Cons.prems that
    by (induction hl) (auto simp: hdr_distinct_def strcasecmp_eq_key)
  from Cons absent show ?case
    by (auto simp: set_http_header_def strcasecmp_eq_key hdr_distinct_def split: option.splits)
qed

lemma set_keys_set:
  "set (map (hdr_key \<circ> hdr_name) (set_http_header hl n (Some v))) =
     insert (hdr_key n) (set (map (hdr_key \<circ> hdr_name) hl))"
proof (induction hl)
  case Nil
  show ?case by (simp add: set_http_header_def)
next
  case (Cons h hl)
  then show ?case
    by (auto simp: set_http_header_def strcasecmp_eq_key split: option.splits)
qed

lemma hdr_distinct_set:
  assumes "hdr_distinct hl" shows "hdr_distinct (set_http_header hl n val)"
proof (cases val)
  case None
  then show ?thesis
    using assms
    by (auto simp: set_http_header_def hdr_distinct_def take_map [symmetric] drop_map [symmetric]
        distinct_take set_take_disj_set_drop_if_distinct split: option.splits)
next
  case (Some v)
  have "map (hdr_key \<circ> hdr_name) (hl[i := (hl ! i)\<lparr>hdr_value := v\<rparr>]) = map (hdr_key \<circ> hdr_name) hl" for i
    by (cases "i < length hl") (simp_all add: map_update list_update_same_conv list_update_beyond)
  then show ?thesis
    using assms Some hdr_find_None [of hl n]
    by (auto simp: set_http_header_def hdr_distinct_def simp del: map_update split: option.splits)
qed

section \<open>The interface\<close>

text \<open>
  A store of headers under names that are compared by \<open>key\<close>. A client applies a sequence of
  settings and removals; what a lookup then returns is the last setting under an equal name.
\<close>

primrec hdr_last :: "(string \<Rightarrow> string) \<Rightarrow> (string \<times> string option) list \<Rightarrow> string option \<Rightarrow> string \<Rightarrow> string option" where
  "hdr_last key [] dflt k = dflt"
| "hdr_last key (x # xs) dflt k =
     hdr_last key xs (if key (fst x) = key k then snd x else dflt) k"

locale header_store =
  fixes empty :: 's
    and update :: "'s \<Rightarrow> string \<Rightarrow> string option \<Rightarrow> 's"
    and lookup :: "'s \<Rightarrow> string \<Rightarrow> string option"
    and key :: "string \<Rightarrow> string"
    and wf :: "'s \<Rightarrow> bool"
  assumes wf_empty: "wf empty"
    and lookup_empty: "lookup empty k = None"
    and wf_update: "wf s \<Longrightarrow> wf (update s n val)"
    and lookup_update: "wf s \<Longrightarrow>
      lookup (update s n val) k = (if key n = key k then val else lookup s k)"
begin

lemma updates_wf: "wf s \<Longrightarrow> wf (foldl (\<lambda>s x. update s (fst x) (snd x)) s xs)"
  by (induction xs arbitrary: s) (simp_all add: wf_update)

lemma lookup_updates:
  "wf s \<Longrightarrow> lookup (foldl (\<lambda>s x. update s (fst x) (snd x)) s xs) k = hdr_last key xs (lookup s k) k"
  by (induction xs arbitrary: s) (simp_all add: wf_update lookup_update)

lemma update_other: "wf s \<Longrightarrow> key n \<noteq> key k \<Longrightarrow> lookup (update s n val) k = lookup s k"
  by (simp add: lookup_update)

lemma update_idem: "wf s \<Longrightarrow> lookup (update (update s n v1) n v2) k = lookup (update s n v2) k"
  by (simp add: wf_update lookup_update)

end

interpretation hdrs: header_store "[]" set_http_header tlsuv_http_resp_header hdr_key hdr_distinct
proof (unfold_locales, goal_cases)
  case 1
  show ?case by (simp add: hdr_distinct_def)
next
  case (2 k)
  show ?case by simp
next
  case (3 s n val)
  then show ?case by (rule hdr_distinct_set)
next
  case (4 s n val k)
  then show ?case
    by (cases val) (simp_all add: lookup_set_Some lookup_remove strcasecmp_eq_key)
qed

section \<open>Properties\<close>

text \<open>
  C24. A header list built by any sequence of \<open>set_http_header\<close> calls, removals included, is a map on
  case-insensitive names: it never holds two headers with the same name, and a lookup returns the
  last value set under an equal name, or nothing when that call was a removal or there was none.
\<close>

theorem header_list_is_map:
  "let hl = foldl (\<lambda>hl x. set_http_header hl (fst x) (snd x)) [] calls
   in hdr_distinct hl \<and> tlsuv_http_resp_header hl k = hdr_last hdr_key calls None k"
  using hdrs.updates_wf [OF hdrs.wf_empty] hdrs.lookup_updates [OF hdrs.wf_empty] by (simp add: Let_def)

end
