(* ===== verification/Url.thy ===== *)
theory Url
  imports Prelude
begin

text \<open>
  The zero-copy URL parser \<open>tlsuv_parse_url\<close> of \<open>src/http.c\<close> and the parts of \<open>sscanf\<close> and \<open>strtol\<close>
  it calls. A pointer field of the parsed URL is the suffix of the input that starts there
  (\<open>None\<close> for a null pointer), next to the length field the code stores.
\<close>

section \<open>The C library\<close>

text \<open>
  \<open>sscanf(p, "%*[^...]%n", &count)\<close>: the return value and the value stored through \<open>%n\<close>. An empty
  input is an input failure (\<open>EOF\<close>); a first character in the stop set is a matching failure, after
  which \<open>%n\<close> is not reached. Where literal text follows \<open>%n\<close> in the format, the result of matching
  it is not visible in the stored count; the code tests the characters itself.
\<close>

definition sscanf_scanset :: "(char \<Rightarrow> bool) \<Rightarrow> string \<Rightarrow> int \<times> nat option" where
  "sscanf_scanset stop p =
     (if p = [] then (-1, None)
      else (0, let n = length (takeWhile (\<lambda>c. \<not> stop c) p) in if n = 0 then None else Some n))"

definition is_space :: "char \<Rightarrow> bool" where
  "is_space c \<longleftrightarrow> c = CHR '' '' \<or> (9 \<le> (of_char c :: nat) \<and> (of_char c :: nat) \<le> 13)"

definition LONG_MAX :: int where "LONG_MAX = 2 ^ 63 - 1"
definition LONG_MIN :: int where "LONG_MIN = - (2 ^ 63)"

definition strtol_sign :: "string \<Rightarrow> bool \<times> string" where
  "strtol_sign q =
     (case q of
        [] \<Rightarrow> (False, q)
      | c # q' \<Rightarrow> if c = CHR ''-'' then (True, q') else if c = CHR ''+'' then (False, q') else (False, q))"

text \<open>\<open>strtol(p, &end, 10)\<close>: the value, saturated at the range of \<open>long\<close>, and \<open>end\<close>.\<close>

definition strtol10 :: "string \<Rightarrow> int \<times> string" where
  "strtol10 p =
     (let (neg, r) = strtol_sign (dropWhile is_space p);
          ds = takeWhile is_digit r
      in if ds = [] then (0, p)
         else (let v = int (dec_value ds); w = if neg then - v else v
               in (max LONG_MIN (min LONG_MAX w), drop (length ds) r)))"

section \<open>The parser\<close>

record tlsuv_url =
  url_scheme :: "string option"
  url_scheme_len :: nat
  url_hostname :: "string option"
  url_hostname_len :: nat
  url_port :: uint16
  url_path :: "string option"
  url_path_len :: nat
  url_query :: "string option"
  url_query_len :: nat

definition url_zero :: tlsuv_url where
  "url_zero = \<lparr>url_scheme = None, url_scheme_len = 0, url_hostname = None, url_hostname_len = 0,
     url_port = 0, url_path = None, url_path_len = 0, url_query = None, url_query_len = 0\<rparr>"

text \<open>The value of \<open>count\<close> after a call of \<open>sscanf\<close> that may not have reached \<open>%n\<close>.\<close>

definition stored_count :: "nat option \<Rightarrow> nat \<Rightarrow> nat" where
  "stored_count n old = (case n of None \<Rightarrow> old | Some k \<Rightarrow> k)"

definition url_scan_scheme :: "tlsuv_url \<Rightarrow> string \<Rightarrow> tlsuv_url \<times> string" where
  "url_scan_scheme url p =
     (let (rc, n) = sscanf_scanset (\<lambda>c. c = CHR '':'') p;
          count = stored_count n 0;
          q = drop count p
      in if rc = 0 \<and> c_deref q = CHR '':'' \<and> c_deref (drop 1 q) = CHR ''/'' \<and>
            c_deref (drop 2 q) = CHR ''/''
         then (url\<lparr>url_scheme := Some p, url_scheme_len := count\<rparr>, drop (count + 3) p)
         else (url, p))"

definition url_scan_host :: "tlsuv_url \<Rightarrow> string \<Rightarrow> tlsuv_url \<times> string \<times> nat" where
  "url_scan_host url p =
     (let (rc, n) = sscanf_scanset (\<lambda>c. c = CHR '':'' \<or> c = CHR ''/'') p;
          count = stored_count n 0
      in if rc = 0 \<and> count > 0
         then (url\<lparr>url_hostname := Some p, url_hostname_len := count\<rparr>, drop count p, count)
         else (url, p, count))"

text \<open>\<open>None\<close> is the return of -1; the structure is not changed on that path.\<close>

definition url_scan_port :: "tlsuv_url \<Rightarrow> string \<Rightarrow> (tlsuv_url \<times> string) option" where
  "url_scan_port url p =
     (if c_deref p = CHR '':'' then
        (if url_hostname url = None then None
         else
           (let p1 = drop 1 p; (lport, pend) = strtol10 p1
            in if pend = p1 then None
               else if lport > 0 \<and> lport \<le> 65535
                    then Some (url\<lparr>url_port := of_int lport\<rparr>, pend)
                    else None))
      else Some (url, p))"

definition url_scan_path :: "tlsuv_url \<Rightarrow> string \<Rightarrow> nat \<Rightarrow> tlsuv_url" where
  "url_scan_path url p count =
     (let (rc, n) = sscanf_scanset (\<lambda>c. c = CHR ''?'') p;
          count' = stored_count n count;
          (url1, p1) = (if rc = 0 then (url\<lparr>url_path := Some p, url_path_len := count'\<rparr>, drop count' p)
                        else (url, p))
      in if c_deref p1 = CHR ''?''
         then url1\<lparr>url_query := Some (drop 1 p1), url_query_len := length (drop 1 p1)\<rparr>
         else url1)"

definition tlsuv_parse_url :: "string \<Rightarrow> int \<times> tlsuv_url" where
  "tlsuv_parse_url urlstr =
     (let (url1, p1) = url_scan_scheme url_zero urlstr;
          (url2, p2, count) = url_scan_host url1 p1
      in case url_scan_port url2 p2 of
           None \<Rightarrow> (-1, url2)
         | Some (url3, p3) \<Rightarrow>
             if c_deref p3 = CHR 0x00 then (0, url3)
             else if c_deref p3 \<noteq> CHR ''/'' then (-1, url3)
             else (0, url_scan_path url3 p3 count))"

text \<open>The text a pointer field and its length field denote.\<close>

definition url_text :: "string option \<Rightarrow> nat \<Rightarrow> string option" where
  "url_text f n = map_option (take n) f"

section \<open>Lemmas on the scanners\<close>

lemma scanset_prefix:
  assumes "w \<noteq> []" and "\<forall>c \<in> set w. \<not> stop c" and "r = [] \<or> stop (hd r)"
  shows "sscanf_scanset stop (w @ r) = (0, Some (length w))"
proof -
  have "takeWhile (\<lambda>c. \<not> stop c) (w @ r) = w"
    using assms(2,3) by (cases r) (auto simp: takeWhile_append2 takeWhile_eq_all_conv)
  then show ?thesis using assms(1) by (simp add: sscanf_scanset_def)
qed

text \<open>What a successful scan says about its input.\<close>

lemma scanset_split:
  assumes "sscanf_scanset stop p = (0, n)" and "k = stored_count n 0"
  shows "p = take k p @ drop k p" and "\<forall>c \<in> set (take k p). \<not> stop c"
    and "drop k p = [] \<or> stop (hd (drop k p))" and "k \<le> length p"
proof -
  have k: "k = length (takeWhile (\<lambda>c. \<not> stop c) p)"
    using assms by (auto simp: sscanf_scanset_def Let_def stored_count_def split: if_splits)
  then have t: "take k p = takeWhile (\<lambda>c. \<not> stop c) p" "drop k p = dropWhile (\<lambda>c. \<not> stop c) p"
    by (simp_all add: takeWhile_eq_take [symmetric] dropWhile_eq_drop [symmetric])
  show "p = take k p @ drop k p" by simp
  show "\<forall>c \<in> set (take k p). \<not> stop c" unfolding t by (auto dest: set_takeWhileD)
  show "drop k p = [] \<or> stop (hd (drop k p))" unfolding t using hd_dropWhile by blast
  show "k \<le> length p" unfolding k by (rule length_takeWhile_le)
qed

lemma digit_not_special: "is_digit c \<Longrightarrow> \<not> is_space c \<and> c \<noteq> CHR ''-'' \<and> c \<noteq> CHR ''+''"
  by (auto simp: is_digit_def is_space_def)

lemma strtol10_show_dec:
  assumes "int n \<le> LONG_MAX" and "r = [] \<or> \<not> is_digit (hd r)"
  shows "strtol10 (show_dec n @ r) = (int n, r)"
proof -
  obtain d ds where d: "show_dec n = d # ds" by (cases "show_dec n") auto
  have dd: "is_digit d" using show_dec_digits [of n] d by simp
  have sk: "strtol_sign (dropWhile is_space (show_dec n @ r)) = (False, show_dec n @ r)"
    using digit_not_special [OF dd] d by (simp add: strtol_sign_def)
  have tw: "takeWhile is_digit (show_dec n @ r) = show_dec n"
    using assms(2) show_dec_digits [of n] by (cases r) (auto simp: takeWhile_append2 takeWhile_eq_all_conv)
  have "LONG_MIN \<le> int n" by (simp add: LONG_MIN_def)
  with assms(1) show ?thesis by (simp add: strtol10_def sk tw Let_def)
qed

lemma of_int_port: "0 < l \<Longrightarrow> l \<le> 65535 \<Longrightarrow> uint (of_int l :: uint16) = l"
  by (simp add: uint_word_of_int take_bit_int_eq_self)

section \<open>Rendering\<close>

text \<open>The URL with the given parts; a query only follows a path.\<close>

definition render_port :: "nat option \<Rightarrow> string" where
  "render_port port = (case port of None \<Rightarrow> [] | Some n \<Rightarrow> CHR '':'' # show_dec n)"

definition render_query :: "string option \<Rightarrow> string" where
  "render_query q = (case q of None \<Rightarrow> [] | Some s \<Rightarrow> CHR ''?'' # s)"

definition render_tail :: "(string \<times> string option) option \<Rightarrow> string" where
  "render_tail pq = (case pq of None \<Rightarrow> [] | Some (path, q) \<Rightarrow> path @ render_query q)"

definition render_url :: "string \<Rightarrow> string \<Rightarrow> nat option \<Rightarrow> (string \<times> string option) option \<Rightarrow> string" where
  "render_url scheme host port pq =
     scheme @ ''://'' @ host @ render_port port @ render_tail pq"

definition url_parts_ok :: "string \<Rightarrow> string \<Rightarrow> nat option \<Rightarrow> (string \<times> string option) option \<Rightarrow> bool" where
  "url_parts_ok scheme host port pq \<longleftrightarrow>
     scheme \<noteq> [] \<and> CHR '':'' \<notin> set scheme \<and>
     host \<noteq> [] \<and> CHR '':'' \<notin> set host \<and> CHR ''/'' \<notin> set host \<and>
     (case port of None \<Rightarrow> True | Some n \<Rightarrow> 0 < n \<and> n \<le> 65535) \<and>
     (case pq of None \<Rightarrow> True | Some (path, q) \<Rightarrow> path \<noteq> [] \<and> hd path = CHR ''/'' \<and> CHR ''?'' \<notin> set path)"

lemma scan_scheme_render:
  assumes "scheme \<noteq> []" and "CHR '':'' \<notin> set scheme"
  shows "url_scan_scheme url (scheme @ ''://'' @ r) =
     (url\<lparr>url_scheme := Some (scheme @ ''://'' @ r), url_scheme_len := length scheme\<rparr>, r)"
proof -
  have "sscanf_scanset (\<lambda>c. c = CHR '':'') (scheme @ ''://'' @ r) = (0, Some (length scheme))"
    by (rule scanset_prefix) (use assms in auto)
  then show ?thesis by (simp add: url_scan_scheme_def stored_count_def)
qed

lemma scan_host_render:
  assumes "host \<noteq> []" and "CHR '':'' \<notin> set host" and "CHR ''/'' \<notin> set host"
    and "r = [] \<or> hd r = CHR '':'' \<or> hd r = CHR ''/''"
  shows "url_scan_host url (host @ r) =
     (url\<lparr>url_hostname := Some (host @ r), url_hostname_len := length host\<rparr>, r, length host)"
proof -
  have "sscanf_scanset (\<lambda>c. c = CHR '':'' \<or> c = CHR ''/'') (host @ r) = (0, Some (length host))"
    by (rule scanset_prefix) (use assms in auto)
  then show ?thesis using assms(1) by (simp add: url_scan_host_def stored_count_def Let_def)
qed

lemma scan_port_render:
  assumes "case port of None \<Rightarrow> True | Some n \<Rightarrow> 0 < n \<and> n \<le> 65535"
    and "r = [] \<or> hd r = CHR ''/''" and "url_hostname url \<noteq> None"
  shows "url_scan_port url (render_port port @ r) =
     Some (case port of None \<Rightarrow> url | Some n \<Rightarrow> url\<lparr>url_port := of_nat n\<rparr>, r)"
proof (cases port)
  case None
  then show ?thesis using assms(2) by (cases r) (auto simp: render_port_def url_scan_port_def)
next
  case (Some n)
  have "strtol10 (show_dec n @ r) = (int n, r)"
    using assms(1,2) Some by (intro strtol10_show_dec) (auto simp: LONG_MAX_def is_digit_def)
  with assms Some show ?thesis by (auto simp: render_port_def url_scan_port_def Let_def)
qed

lemma scan_path_render:
  assumes "path \<noteq> []" and "CHR ''?'' \<notin> set path"
  shows "url_scan_path url (path @ render_query q) count =
     (let u = url\<lparr>url_path := Some (path @ render_query q), url_path_len := length path\<rparr>
      in case q of None \<Rightarrow> u | Some s \<Rightarrow> u\<lparr>url_query := Some s, url_query_len := length s\<rparr>)"
proof -
  have "sscanf_scanset (\<lambda>c. c = CHR ''?'') (path @ render_query q) = (0, Some (length path))"
    by (rule scanset_prefix) (use assms in \<open>auto simp: render_query_def split: option.splits\<close>)
  then show ?thesis
    by (simp add: url_scan_path_def stored_count_def render_query_def Let_def split: option.splits)
qed

section \<open>Soundness of a successful parse\<close>

lemma c_deref3:
  assumes "rc = 0 \<and> c_deref q = CHR '':'' \<and> c_deref (drop 1 q) = CHR ''/'' \<and> c_deref (drop 2 q) = CHR ''/''"
  obtains r where "q = ''://'' @ r"
proof -
  obtain q1 where 1: "q = CHR '':'' # q1" using assms by (cases q) auto
  obtain q2 where 2: "q1 = CHR ''/'' # q2" using assms 1 by (cases q1) auto
  obtain q3 where 3: "q2 = CHR ''/'' # q3" using assms 1 2 by (cases q2) auto
  show ?thesis using that 1 2 3 by simp
qed

lemma scan_scheme_sound:
  assumes "url_scan_scheme url_zero s = (u, p)"
  shows "(u = url_zero \<and> p = s) \<or>
    (\<exists>w. s = w @ ''://'' @ p \<and> CHR '':'' \<notin> set w \<and>
         u = url_zero\<lparr>url_scheme := Some s, url_scheme_len := length w\<rparr>)"
proof -
  obtain rc n where sc: "sscanf_scanset (\<lambda>c. c = CHR '':'') s = (rc, n)" by fastforce
  let ?k = "stored_count n 0"
  let ?q = "drop ?k s"
  show ?thesis
  proof (cases "rc = 0 \<and> c_deref ?q = CHR '':'' \<and> c_deref (drop 1 ?q) = CHR ''/'' \<and> c_deref (drop 2 ?q) = CHR ''/''")
    case False
    with assms sc show ?thesis by (auto simp: url_scan_scheme_def Let_def)
  next
    case True
    with sc have sp: "sscanf_scanset (\<lambda>c. c = CHR '':'') s = (0, n)" by simp
    note sp = scanset_split [OF sp refl]
    from True obtain r where q: "?q = ''://'' @ r"
      by (rule c_deref3)
    then have "drop (?k + 3) s = r" using drop_drop [of 3 ?k s] by (simp add: add.commute)
    moreover have "s = take ?k s @ ''://'' @ r" using sp(1) q by metis
    moreover have "CHR '':'' \<notin> set (take ?k s)" using sp(2) by blast
    moreover have "u = url_zero\<lparr>url_scheme := Some s, url_scheme_len := ?k\<rparr> \<and> p = drop (?k + 3) s"
      using assms sc True by (auto simp: url_scan_scheme_def Let_def)
    moreover have "?k = length (take ?k s)" using sp(4) by simp
    ultimately show ?thesis by metis
  qed
qed

lemma scan_host_sound:
  assumes "url_scan_host u p = (u', p', c)"
  shows "\<exists>w. p = w @ p' \<and> CHR '':'' \<notin> set w \<and> CHR ''/'' \<notin> set w \<and>
    u' = (if w = [] then u else u\<lparr>url_hostname := Some p, url_hostname_len := length w\<rparr>)"
proof -
  let ?stop = "\<lambda>c. c = CHR '':'' \<or> c = CHR ''/''"
  obtain rc n where sc: "sscanf_scanset ?stop p = (rc, n)" by fastforce
  let ?k = "stored_count n 0"
  show ?thesis
  proof (cases "rc = 0 \<and> ?k > 0")
    case False
    with assms sc show ?thesis by (intro exI [of _ "[]"]) (auto simp: url_scan_host_def Let_def)
  next
    case True
    with sc have "sscanf_scanset ?stop p = (0, n)" by simp
    note sp = scanset_split [OF this refl]
    have "u' = u\<lparr>url_hostname := Some p, url_hostname_len := ?k\<rparr> \<and> p' = drop ?k p"
      using assms sc True by (auto simp: url_scan_host_def Let_def)
    moreover have "take ?k p \<noteq> []" "length (take ?k p) = ?k" using sp(4) True by auto
    moreover have "CHR '':'' \<notin> set (take ?k p) \<and> CHR ''/'' \<notin> set (take ?k p)" using sp(2) by blast
    ultimately show ?thesis by (intro exI [of _ "take ?k p"]) simp
  qed
qed

lemma strtol10_suffix: "strtol10 p = (v, r) \<Longrightarrow> \<exists>t. p = t @ r"
proof -
  assume a: "strtol10 p = (v, r)"
  have dw: "\<exists>t. p = t @ dropWhile is_space p" by (metis takeWhile_dropWhile_id)
  have sg: "\<exists>t. q = t @ snd (strtol_sign q)" for q
    by (cases q) (auto simp: strtol_sign_def)
  obtain neg q where q: "strtol_sign (dropWhile is_space p) = (neg, q)" by fastforce
  have "\<exists>t. dropWhile is_space p = t @ q" using sg [of "dropWhile is_space p"] q by simp
  then obtain t where t: "p = t @ q" using dw by (metis append_assoc)
  show ?thesis
  proof (cases "takeWhile is_digit q = []")
    case True
    with a q show ?thesis by (intro exI [of _ "[]"]) (simp add: strtol10_def Let_def)
  next
    case False
    with a q have "r = drop (length (takeWhile is_digit q)) q" by (simp add: strtol10_def Let_def)
    with t show ?thesis by (metis append_assoc append_take_drop_id)
  qed
qed

lemma scan_port_sound:
  assumes "url_scan_port u p = Some (u', p')"
  shows "(p' = p \<and> u' = u) \<or>
    (\<exists>t l. p = CHR '':'' # t @ p' \<and> strtol10 (t @ p') = (l, p') \<and> t \<noteq> [] \<and> 0 < l \<and> l \<le> 65535 \<and>
         url_hostname u \<noteq> None \<and> u' = u\<lparr>url_port := of_int l\<rparr>)"
proof (cases "c_deref p = CHR '':''")
  case False
  with assms show ?thesis by (auto simp: url_scan_port_def)
next
  case True
  then obtain p1 where p: "p = CHR '':'' # p1" by (cases p) auto
  obtain l pend where st: "strtol10 p1 = (l, pend)" by fastforce
  then obtain t where "p1 = t @ pend" using strtol10_suffix by blast
  with assms p st show ?thesis
    by (auto simp: url_scan_port_def Let_def split: if_splits)
qed

lemma scan_path_sound:
  assumes "c_deref p = CHR ''/''" and "u' = url_scan_path u p c" and "url_query u = None"
  shows "\<exists>w q. p = w @ render_query q \<and> w \<noteq> [] \<and> hd w = CHR ''/'' \<and> CHR ''?'' \<notin> set w \<and>
    u' = u\<lparr>url_path := Some p, url_path_len := length w, url_query := q,
           url_query_len := (case q of None \<Rightarrow> url_query_len u | Some s \<Rightarrow> length s)\<rparr>"
proof -
  obtain n where sc: "sscanf_scanset (\<lambda>c. c = CHR ''?'') p = (0, Some n)" and n: "n > 0"
    using assms(1) by (cases p) (auto simp: sscanf_scanset_def Let_def)
  have sp: "take n p @ drop n p = p" "CHR ''?'' \<notin> set (take n p)" "n \<le> length p"
    "drop n p = [] \<or> hd (drop n p) = CHR ''?''"
    using scanset_split [OF sc refl] by (auto simp: stored_count_def)
  have hd: "hd (take n p) = CHR ''/''" using assms(1) n by (cases p) auto
  have ne: "take n p \<noteq> []" using n assms(1) by (cases p) auto
  show ?thesis
  proof (cases "drop n p")
    case Nil
    with sp hd ne assms sc show ?thesis
      by (intro exI [of _ "take n p"] exI [of _ None])
         (simp add: url_scan_path_def stored_count_def render_query_def)
  next
    case (Cons c q)
    then have "c = CHR ''?''" using sp(4) by simp
    moreover have "p = take n p @ c # q" using sp(1) Cons by simp
    ultimately show ?thesis
      using sp hd ne assms sc Cons
      by (intro exI [of _ "take n p"] exI [of _ "Some q"])
         (simp add: url_scan_path_def stored_count_def render_query_def)
  qed
qed

text \<open>The same facts, stated on the fields of the result.\<close>

lemma parse_url_stages:
  assumes "tlsuv_parse_url s = (0, u)"
  shows "\<exists>u1 p1 u2 p2 c u3 p3. url_scan_scheme url_zero s = (u1, p1) \<and>
    url_scan_host u1 p1 = (u2, p2, c) \<and> url_scan_port u2 p2 = Some (u3, p3) \<and>
    (c_deref p3 = CHR 0x00 \<and> u = u3 \<or> c_deref p3 = CHR ''/'' \<and> u = url_scan_path u3 p3 c)"
  using assms
  by (auto simp: tlsuv_parse_url_def Let_def split: prod.splits option.splits if_splits)

lemma scan_scheme_fields:
  assumes "url_scan_scheme url_zero s = (u, p)"
  shows "\<exists>w. s = w @ p \<and> url_query u = None \<and> url_path u = None \<and> url_hostname u = None \<and> url_port u = 0 \<and>
    (case url_text (url_scheme u) (url_scheme_len u) of None \<Rightarrow> w = [] | Some x \<Rightarrow> w = x @ ''://'')"
  using scan_scheme_sound [OF assms]
proof (elim disjE exE conjE)
  assume "u = url_zero" "p = s"
  then show ?thesis by (simp add: url_zero_def url_text_def)
next
  fix w
  assume "s = w @ ''://'' @ p" and "u = url_zero\<lparr>url_scheme := Some s, url_scheme_len := length w\<rparr>"
  then show ?thesis by (intro exI [of _ "w @ ''://''"]) (simp add: url_zero_def url_text_def)
qed

lemma scan_port_fields:
  assumes "url_scan_port u p = Some (u', p')"
  shows "\<exists>t prt. p = t @ p' \<and> u' = u\<lparr>url_port := prt\<rparr> \<and>
    (t = [] \<and> prt = url_port u \<or>
     (\<exists>x. t = CHR '':'' # x \<and> 0 < prt \<and> url_hostname u \<noteq> None \<and> strtol10 (x @ p') = (uint prt, p')))"
  using scan_port_sound [OF assms]
proof (elim disjE exE conjE)
  assume "p' = p" "u' = u"
  then show ?thesis by (intro exI [of _ "[]"] exI [of _ "url_port u"]) simp
next
  fix t l
  assume a: "p = CHR '':'' # t @ p'" "strtol10 (t @ p') = (l, p')" "0 < l" "l \<le> 65535"
    "url_hostname u \<noteq> None" "u' = u\<lparr>url_port := of_int l\<rparr>"
  have "uint (of_int l :: uint16) = l" using a(3,4) by (rule of_int_port)
  moreover from this have "0 < (of_int l :: uint16)" using a(3) by (simp add: word_less_def)
  ultimately show ?thesis
    using a by (intro exI [of _ "CHR '':'' # t"] exI [of _ "of_int l"]) simp
qed

lemma scan_end_fields:
  assumes "c_deref p = CHR 0x00 \<and> u = u0 \<or> c_deref p = CHR ''/'' \<and> u = url_scan_path u0 p c"
    and "url_query u0 = None" and "url_path u0 = None" and "CHR 0x00 \<notin> set p"
  shows "\<exists>path q. p = path @ render_query q \<and> url_text (url_query u) (url_query_len u) = q \<and>
    (case url_text (url_path u) (url_path_len u) of None \<Rightarrow> path = [] \<and> q = None
       | Some x \<Rightarrow> path = x \<and> hd x = CHR ''/'' \<and> CHR ''?'' \<notin> set x) \<and>
    url_scheme u = url_scheme u0 \<and> url_scheme_len u = url_scheme_len u0 \<and> url_port u = url_port u0 \<and>
    url_hostname u = url_hostname u0 \<and> url_hostname_len u = url_hostname_len u0"
  using assms(1)
proof (elim disjE conjE)
  assume "c_deref p = CHR 0x00" "u = u0"
  moreover from this have "p = []" using assms(4) by (cases p) auto
  ultimately show ?thesis
    using assms by (intro exI [of _ "[]"] exI [of _ None]) (simp add: url_text_def render_query_def)
next
  assume "c_deref p = CHR ''/''" "u = url_scan_path u0 p c"
  from scan_path_sound [OF this assms(2)] obtain w q where "p = w @ render_query q" "w \<noteq> []"
    "hd w = CHR ''/''" "CHR ''?'' \<notin> set w"
    "u = u0\<lparr>url_path := Some p, url_path_len := length w, url_query := q,
           url_query_len := (case q of None \<Rightarrow> url_query_len u0 | Some s \<Rightarrow> length s)\<rparr>" by blast
  then show ?thesis
    by (intro exI [of _ w] exI [of _ q]) (simp add: url_text_def split: option.splits)
qed

text \<open>The structure the parser fills for a rendered URL.\<close>

lemma parse_url_render:
  assumes "url_parts_ok scheme host port pq"
  shows "tlsuv_parse_url (render_url scheme host port pq) =
    (0, let tl = render_tail pq;
            u2 = url_zero\<lparr>url_scheme := Some (render_url scheme host port pq),
                   url_scheme_len := length scheme,
                   url_hostname := Some (host @ render_port port @ tl), url_hostname_len := length host\<rparr>;
            u3 = (case port of None \<Rightarrow> u2 | Some n \<Rightarrow> u2\<lparr>url_port := of_nat n\<rparr>)
        in case pq of None \<Rightarrow> u3
           | Some (path, q) \<Rightarrow>
               (let u4 = u3\<lparr>url_path := Some tl, url_path_len := length path\<rparr>
                in case q of None \<Rightarrow> u4 | Some s \<Rightarrow> u4\<lparr>url_query := Some s, url_query_len := length s\<rparr>))"
proof -
  note ok = assms [unfolded url_parts_ok_def]
  let ?t = "render_tail pq"
  let ?s = "render_url scheme host port pq"
  let ?u1 = "url_zero\<lparr>url_scheme := Some ?s, url_scheme_len := length scheme\<rparr>"
  let ?u2 = "?u1\<lparr>url_hostname := Some (host @ render_port port @ ?t), url_hostname_len := length host\<rparr>"
  let ?u3 = "case port of None \<Rightarrow> ?u2 | Some n \<Rightarrow> ?u2\<lparr>url_port := of_nat n\<rparr>"
  have tl: "?t = [] \<or> hd ?t = CHR ''/''"
    using ok by (auto simp: render_tail_def split: option.splits)
  have s1: "url_scan_scheme url_zero ?s = (?u1, host @ render_port port @ ?t)"
    using ok unfolding render_url_def by (intro scan_scheme_render) auto
  have s2: "url_scan_host ?u1 (host @ render_port port @ ?t) = (?u2, render_port port @ ?t, length host)"
    using ok tl by (intro scan_host_render) (auto simp: render_port_def split: option.splits)
  have s3: "url_scan_port ?u2 (render_port port @ ?t) = Some (?u3, ?t)"
    using ok tl by (intro scan_port_render) auto
  show ?thesis
  proof (cases pq)
    case None
    then show ?thesis
      unfolding tlsuv_parse_url_def s1 s2 s3 Let_def split_conv option.case
      by (simp add: render_tail_def)
  next
    case (Some x)
    obtain path q where x: "x = (path, q)" by (cases x)
    have "c_deref (path @ render_query q) = CHR ''/''"
      using ok Some x by (cases path) auto
    then show ?thesis
      using Some x ok
      unfolding tlsuv_parse_url_def s1 s2 s3 Let_def split_conv option.case
      by (simp add: render_tail_def scan_path_render Let_def)
  qed
qed

section \<open>Properties\<close>

text \<open>
  C12. Round trip: parsing a URL assembled from a scheme, a host, an optional port, an optional path and
  an optional query returns 0 and exactly those parts; an absent part is a null pointer, and an
  absent port is 0.
\<close>

theorem parse_url_roundtrip:
  assumes "url_parts_ok scheme host port pq"
    and "tlsuv_parse_url (render_url scheme host port pq) = (rc, u)"
  shows "rc = 0 \<and> url_text (url_scheme u) (url_scheme_len u) = Some scheme \<and>
    url_text (url_hostname u) (url_hostname_len u) = Some host \<and>
    unat (url_port u) = (case port of None \<Rightarrow> 0 | Some n \<Rightarrow> n) \<and>
    url_text (url_path u) (url_path_len u) = map_option fst pq \<and>
    url_text (url_query u) (url_query_len u) = Option.bind pq snd"
proof -
  have port: "unat (of_nat n :: uint16) = n" if "n \<le> 65535" for n
    using that by (simp add: unat_of_nat take_bit_nat_eq_self)
  show ?thesis
    using assms(2) assms(1) [unfolded url_parts_ok_def] port
    unfolding parse_url_render [OF assms(1)]
    by (auto simp: url_text_def url_zero_def render_url_def render_tail_def Let_def split: option.splits)
qed

theorem parse_url_roundtrip_witness:
  "tlsuv_parse_url ''https://ziti.dev:80/a/b?x=1'' =
     (0, \<lparr>url_scheme = Some ''https://ziti.dev:80/a/b?x=1'', url_scheme_len = 5,
         url_hostname = Some ''ziti.dev:80/a/b?x=1'', url_hostname_len = 8, url_port = 80,
         url_path = Some ''/a/b?x=1'', url_path_len = 4, url_query = Some ''x=1'', url_query_len = 3\<rparr>) \<and>
   render_url ''https'' ''ziti.dev'' (Some 80) (Some (''/a/b'', Some ''x=1'')) =
     ''https://ziti.dev:80/a/b?x=1''"
proof -
  have ok: "url_parts_ok ''https'' ''ziti.dev'' (Some 80) (Some (''/a/b'', Some ''x=1''))"
    by (simp add: url_parts_ok_def)
  have r: "render_url ''https'' ''ziti.dev'' (Some 80) (Some (''/a/b'', Some ''x=1'')) =
      ''https://ziti.dev:80/a/b?x=1''" by code_simp
  obtain rc u where p: "tlsuv_parse_url ''https://ziti.dev:80/a/b?x=1'' = (rc, u)" by fastforce
  then have "rc = 0" using parse_url_roundtrip [OF ok] unfolding r by blast
  moreover have "snd (tlsuv_parse_url ''https://ziti.dev:80/a/b?x=1'') =
    \<lparr>url_scheme = Some ''https://ziti.dev:80/a/b?x=1'', url_scheme_len = 5,
     url_hostname = Some ''ziti.dev:80/a/b?x=1'', url_hostname_len = 8, url_port = 80,
     url_path = Some ''/a/b?x=1'', url_path_len = 4, url_query = Some ''x=1'', url_query_len = 3\<rparr>"
    by code_simp
  ultimately show ?thesis using p r by simp
qed

text \<open>
  C27. Zero-copy soundness: when the parser accepts a string, the fields tile it. The input is the
  scheme with its separator, the host, the port text, the path and the query in this order, with
  nothing between or after them; the host has no colon or slash, the path starts with a slash and
  has no question mark, a query only comes with a path, and the port is either absent or the number
  that the port text spells, between 1 and 65535.
\<close>

theorem parse_url_sound:
  assumes "CHR 0x00 \<notin> set s" and "tlsuv_parse_url s = (0, u)"
  shows "\<exists>scheme host ptext path q.
    s = scheme @ host @ ptext @ path @ render_query q \<and>
    (case url_text (url_scheme u) (url_scheme_len u) of None \<Rightarrow> scheme = [] | Some w \<Rightarrow> scheme = w @ ''://'') \<and>
    (case url_text (url_hostname u) (url_hostname_len u) of None \<Rightarrow> host = [] | Some h \<Rightarrow> host = h \<and> h \<noteq> []) \<and>
    CHR '':'' \<notin> set host \<and> CHR ''/'' \<notin> set host \<and>
    (ptext = [] \<and> url_port u = 0 \<or>
     (\<exists>t. ptext = CHR '':'' # t \<and> 0 < url_port u \<and> host \<noteq> [] \<and>
          strtol10 (t @ path @ render_query q) = (uint (url_port u), path @ render_query q))) \<and>
    (case url_text (url_path u) (url_path_len u) of None \<Rightarrow> path = [] \<and> q = None
       | Some w \<Rightarrow> path = w \<and> hd w = CHR ''/'' \<and> CHR ''?'' \<notin> set w) \<and>
    url_text (url_query u) (url_query_len u) = q"
proof -
  obtain u1 p1 u2 p2 c u3 p3 where s1: "url_scan_scheme url_zero s = (u1, p1)"
    and s2: "url_scan_host u1 p1 = (u2, p2, c)" and s3: "url_scan_port u2 p2 = Some (u3, p3)"
    and s4: "c_deref p3 = CHR 0x00 \<and> u = u3 \<or> c_deref p3 = CHR ''/'' \<and> u = url_scan_path u3 p3 c"
    using parse_url_stages [OF assms(2)] by metis
  obtain w where w: "s = w @ p1" "url_query u1 = None" "url_path u1 = None" "url_hostname u1 = None" "url_port u1 = 0"
    "case url_text (url_scheme u1) (url_scheme_len u1) of None \<Rightarrow> w = [] | Some x \<Rightarrow> w = x @ ''://''"
    using scan_scheme_fields [OF s1] by blast
  obtain h where h: "p1 = h @ p2" "CHR '':'' \<notin> set h" "CHR ''/'' \<notin> set h"
    "u2 = (if h = [] then u1 else u1\<lparr>url_hostname := Some p1, url_hostname_len := length h\<rparr>)"
    using scan_host_sound [OF s2] by blast
  have host: "case url_text (url_hostname u2) (url_hostname_len u2) of None \<Rightarrow> h = [] | Some x \<Rightarrow> h = x \<and> x \<noteq> []"
    "url_hostname u2 \<noteq> None \<Longrightarrow> h \<noteq> []"
    using h w(4) by (auto simp: url_text_def)
  have port2: "url_port u2 = 0" using h(4) w(5) by simp
  obtain t prt where t: "p2 = t @ p3" "u3 = u2\<lparr>url_port := prt\<rparr>"
    "t = [] \<and> prt = 0 \<or> (\<exists>x. t = CHR '':'' # x \<and> 0 < prt \<and> h \<noteq> [] \<and> strtol10 (x @ p3) = (uint prt, p3))"
    using scan_port_fields [OF s3] host(2) port2 by metis
  have none: "url_query u3 = None" "url_path u3 = None" using t(2) h(4) w by auto
  have nul: "CHR 0x00 \<notin> set p3" using assms(1) w(1) h(1) t(1) by simp
  obtain path q where pq: "p3 = path @ render_query q" "url_text (url_query u) (url_query_len u) = q"
    "case url_text (url_path u) (url_path_len u) of None \<Rightarrow> path = [] \<and> q = None
       | Some x \<Rightarrow> path = x \<and> hd x = CHR ''/'' \<and> CHR ''?'' \<notin> set x"
    and keep: "url_scheme u = url_scheme u3 \<and> url_scheme_len u = url_scheme_len u3 \<and> url_port u = url_port u3 \<and>
      url_hostname u = url_hostname u3 \<and> url_hostname_len u = url_hostname_len u3"
    using scan_end_fields [OF s4 none nul] by (elim exE conjE) simp
  have sch: "url_scheme u = url_scheme u1" "url_scheme_len u = url_scheme_len u1"
    using keep t(2) h(4) by auto
  show ?thesis
    using w h t pq host(1) sch keep
    by (intro exI [of _ w] exI [of _ h] exI [of _ t] exI [of _ path] exI [of _ q]) simp
qed

theorem parse_url_sound_witness:
  "\<exists>scheme host ptext path q. ''http://h:8/p?q'' = scheme @ host @ ptext @ path @ render_query q \<and>
     scheme = ''http://'' \<and> host = ''h'' \<and> path = ''/p'' \<and> q = Some ''q''"
proof -
  let ?u = "\<lparr>url_scheme = Some ''http://h:8/p?q'', url_scheme_len = 4,
         url_hostname = Some ''h:8/p?q'', url_hostname_len = 1, url_port = 8,
         url_path = Some ''/p?q'', url_path_len = 2, url_query = Some ''q'', url_query_len = 1\<rparr>"
  have p: "tlsuv_parse_url ''http://h:8/p?q'' = (0, ?u)" by code_simp
  have "CHR 0x00 \<notin> set ''http://h:8/p?q''" by simp
  from parse_url_sound [OF this p] show ?thesis by (simp add: url_text_def) blast
qed

end
