(* ===== verification/Inflate.thy ===== *)
theory Inflate
  imports Prelude
begin

text \<open>
  Decompression of response bodies, \<open>src/compression.c\<close>. zlib is loaded at run time and is a
  parameter here: \<open>inflate_f\<close> takes the stream state, the input that is left and the room in the
  output buffer, and returns its status, the number of input bytes used, the bytes written and the
  next state; \<open>zinit\<close> is the state after \<open>inflateInit2\<close> (gzip) or \<open>inflateInit\<close>; \<open>zmsg\<close> says whether
  the stream's error message is set. What the code relies on of zlib is the predicate \<open>zlib_stream\<close>.
  The chunks handed to the callback are the output of the model.
\<close>

unbundle bit_operations_syntax

section \<open>The library and the inflater\<close>

datatype zlib_rc =
    Z_OK | Z_STREAM_END | Z_NEED_DICT | Z_STREAM_ERROR | Z_DATA_ERROR | Z_MEM_ERROR | Z_BUF_ERROR

type_synonym 'z inflate_fn = "'z \<Rightarrow> byte list \<Rightarrow> nat \<Rightarrow> zlib_rc \<times> nat \<times> byte list \<times> 'z"

record 'z http_inflater =
  zs :: 'z
  inf_complete :: int

text \<open>
  The shared library as \<open>init\<close> finds it: whether it opens, how many of the seven symbols (version,
  flags, \<open>inflateEnd\<close>, \<open>inflateInit_\<close>, \<open>inflateInit2_\<close>, \<open>inflate\<close>, \<open>zError\<close>, in this order) resolve before
  the first failure, its version string and its compile flags. A function pointer is null when its
  symbol was not reached.
\<close>

record zlib_so =
  so_opens :: bool
  so_symbols :: nat
  so_version :: string
  so_flags :: uint64

definition ZLIB_MAJOR :: char where "ZLIB_MAJOR = CHR ''1''"

definition NO_GZIP :: uint64 where "NO_GZIP = push_bit 16 1"

definition resolved :: "zlib_so \<Rightarrow> nat" where
  "resolved so = (if so_opens so then min 7 (so_symbols so) else 0)"

text \<open>\<open>init\<close>: the value it leaves in \<open>encodings\<close>.\<close>

definition compression_init :: "zlib_so \<Rightarrow> string option" where
  "compression_init so =
     (if resolved so < 7 then None
      else if c_deref (so_version so) \<noteq> ZLIB_MAJOR then None
      else if so_flags so AND NO_GZIP \<noteq> 0 then Some ''deflate''
      else Some ''gzip, deflate'')"

definition um_available_encoding :: "zlib_so \<Rightarrow> string option" where
  "um_available_encoding so = compression_init so"

text \<open>The inflater for an encoding; \<open>None\<close> for one that is not known.\<close>

definition um_get_inflater ::
  "zlib_so \<Rightarrow> (bool \<Rightarrow> 'z) \<Rightarrow> string \<Rightarrow> ub + 'z http_inflater option" where
  "um_get_inflater so zinit encoding =
     (if encoding = ''gzip'' then
        (if resolved so < 5 then Inl Null_Deref
         else Inr (Some \<lparr>zs = zinit True, inf_complete = 0\<rparr>))
      else if encoding = ''deflate'' then
        (if resolved so < 4 then Inl Null_Deref
         else Inr (Some \<lparr>zs = zinit False, inf_complete = 0\<rparr>))
      else Inr None)"

text \<open>The streams that \<open>um_free_inflater\<close> ends.\<close>

definition um_free_inflater :: "'z http_inflater option \<Rightarrow> 'z list" where
  "um_free_inflater ifl = (case ifl of None \<Rightarrow> [] | Some i \<Rightarrow> [zs i])"

section \<open>Decompression\<close>

definition DECOMP_SIZE :: nat where "DECOMP_SIZE = 32 * 1024"

text \<open>
  The loop of \<open>um_inflate\<close>. It ends when the input is used up, on a data error and at the end of the
  stream, and does not test any other status, so it is a partial function: \<open>None\<close> is a loop that
  never ends. The result is the return value, the inflater and the chunks passed to the callback.
\<close>

partial_function (option) um_inflate_loop ::
  "'z inflate_fn \<Rightarrow> 'z http_inflater \<Rightarrow> byte list \<Rightarrow> byte list list \<Rightarrow>
     (int \<times> 'z http_inflater \<times> byte list list) option" where
  "um_inflate_loop inflate_f ifl avail out =
     (if avail = [] then Some (0, ifl, out)
      else
        (let (rc, used, decompressed, z) = inflate_f (zs ifl) avail DECOMP_SIZE;
             ifl1 = ifl\<lparr>zs := z\<rparr>;
             out1 = (if decompressed = [] then out else out @ [decompressed])
         in if rc = Z_DATA_ERROR then Some (-1, ifl1, out)
            else if rc = Z_STREAM_END then Some (1, ifl1\<lparr>inf_complete := 1\<rparr>, out1)
            else um_inflate_loop inflate_f ifl1 (drop used avail) out1))"

text \<open>\<open>avail_in\<close> is a 32-bit field: the length is truncated when it is stored.\<close>

definition um_inflate ::
  "'z inflate_fn \<Rightarrow> 'z http_inflater \<Rightarrow> byte list \<Rightarrow>
     (int \<times> 'z http_inflater \<times> byte list list) option" where
  "um_inflate inflate_f ifl compressed =
     um_inflate_loop inflate_f ifl
       (take (unat (of_nat (length compressed) :: uint32)) compressed) []"

definition um_inflate_state :: "('z \<Rightarrow> bool) \<Rightarrow> 'z http_inflater \<Rightarrow> int" where
  "um_inflate_state zmsg ifl = (if zmsg (zs ifl) then -1 else inf_complete ifl)"

section \<open>What the code relies on of zlib\<close>

text \<open>
  \<open>plain z inp\<close> is the output that the stream \<open>z\<close> still has to give on the input \<open>inp\<close>, what it has
  buffered included. The documented behaviour: a call uses a prefix of its input and writes at most
  the room it is given; with input and room, \<open>Z_OK\<close> means some progress; whatever input comes later,
  what was written followed by what is left is what was due; at the end of the stream nothing is left.
\<close>

definition zlib_stream :: "'z inflate_fn \<Rightarrow> ('z \<Rightarrow> byte list \<Rightarrow> byte list) \<Rightarrow> bool" where
  "zlib_stream inflate_f plain \<longleftrightarrow>
     (\<forall>z inp room rc used out z'. inflate_f z inp room = (rc, used, out, z') \<longrightarrow>
        used \<le> length inp \<and> length out \<le> room \<and>
        (rc = Z_OK \<longrightarrow> inp \<noteq> [] \<longrightarrow> room > 0 \<longrightarrow> used > 0 \<or> out \<noteq> []) \<and>
        (rc = Z_OK \<longrightarrow> (\<forall>later. plain z (inp @ later) = out @ plain z' (drop used inp @ later))) \<and>
        (rc = Z_STREAM_END \<longrightarrow> (\<forall>later. plain z (inp @ later) = out)))"

text \<open>The stream only reports progress, its end or corrupt data on this input.\<close>

definition zlib_no_stall :: "'z inflate_fn \<Rightarrow> bool" where
  "zlib_no_stall inflate_f \<longleftrightarrow>
     (\<forall>z inp room. inp \<noteq> [] \<longrightarrow> fst (inflate_f z inp room) \<in> {Z_OK, Z_STREAM_END, Z_DATA_ERROR})"

text \<open>
  A stream that has ended or has failed stays so, and a failure sets the error message.
\<close>

definition zlib_final :: "'z inflate_fn \<Rightarrow> ('z \<Rightarrow> bool) \<Rightarrow> bool" where
  "zlib_final inflate_f zmsg \<longleftrightarrow>
     (\<forall>z inp room rc used out z'. inflate_f z inp room = (rc, used, out, z') \<longrightarrow>
        (rc = Z_STREAM_END \<longrightarrow> (\<forall>i r. inflate_f z' i r = (Z_STREAM_END, 0, [], z'))) \<and>
        (rc = Z_DATA_ERROR \<longrightarrow> zmsg z' \<and> (\<forall>i r. inflate_f z' i r = (Z_DATA_ERROR, 0, [], z'))))"

lemma zlib_stream_step:
  assumes "zlib_stream inflate_f plain" and "inflate_f z inp room = (Z_OK, used, out, z')"
    and "inp \<noteq> []" and "room > 0"
  shows "used \<le> length inp" and "length out \<le> room"
    and "plain z (inp @ later) = out @ plain z' (drop used inp @ later)"
    and "length (drop used inp) + length (plain z' (drop used inp)) < length inp + length (plain z inp)"
proof -
  note s = assms(1) [unfolded zlib_stream_def, rule_format, OF assms(2)]
  show "used \<le> length inp" "length out \<le> room"
    "plain z (inp @ later) = out @ plain z' (drop used inp @ later)"
    using s by auto
  have u: "plain z inp = out @ plain z' (drop used inp)"
    using s by (metis append_Nil2)
  have "used > 0 \<or> out \<noteq> []" using s assms(3,4) by blast
  then show "length (drop used inp) + length (plain z' (drop used inp)) < length inp + length (plain z inp)"
  proof
    assume "used > 0"
    moreover have "length (plain z' (drop used inp)) \<le> length (plain z inp)" using u by simp
    moreover have "length (drop used inp) < length inp" using assms(3) \<open>used > 0\<close> by simp
    ultimately show ?thesis by linarith
  next
    assume "out \<noteq> []"
    then have "length (plain z' (drop used inp)) < length (plain z inp)" using u by simp
    then show ?thesis by simp
  qed
qed

text \<open>One turn of the loop, by the status of the call.\<close>

lemma um_inflate_loop_done [simp]: "um_inflate_loop inflate_f ifl [] out = Some (0, ifl, out)"
  by (simp add: um_inflate_loop.simps [of _ _ "[]"])

lemma um_inflate_loop_turn:
  assumes "inflate_f (zs ifl) inp DECOMP_SIZE = (rc, used, dec, z)" and "inp \<noteq> []"
  shows "um_inflate_loop inflate_f ifl inp out =
    (let out1 = if dec = [] then out else out @ [dec]
     in if rc = Z_DATA_ERROR then Some (-1, ifl\<lparr>zs := z\<rparr>, out)
        else if rc = Z_STREAM_END then Some (1, ifl\<lparr>zs := z, inf_complete := 1\<rparr>, out1)
        else um_inflate_loop inflate_f (ifl\<lparr>zs := z\<rparr>) (drop used inp) out1)"
  using assms by (simp add: um_inflate_loop.simps [of inflate_f ifl inp out] Let_def)

text \<open>
  What a call promises. \<open>due later\<close> is the plain text of the input of the call followed by \<open>later\<close>: on 0
  it is the chunks passed on followed by what the stream will give on \<open>later\<close>, and on 1 it is the
  chunks passed on, whatever follows. Chunks are never empty and fit the buffer.
\<close>

definition inflate_post ::
  "('z \<Rightarrow> byte list \<Rightarrow> byte list) \<Rightarrow> (byte list \<Rightarrow> byte list) \<Rightarrow> int \<Rightarrow>
     int \<times> 'z http_inflater \<times> byte list list \<Rightarrow> bool" where
  "inflate_post plain due complete res =
     (case res of (rc, ifl', chunks) \<Rightarrow>
        (\<forall>c \<in> set chunks. c \<noteq> [] \<and> length c \<le> DECOMP_SIZE) \<and>
        (if rc = 0 then (\<forall>later. due later = concat chunks @ plain (zs ifl') later) \<and> inf_complete ifl' = complete
         else if rc = 1 then (\<forall>later. due later = concat chunks) \<and> inf_complete ifl' = 1
         else rc = -1 \<and> inf_complete ifl' = complete))"

lemma um_inflate_loop_ok:
  assumes "zlib_stream inflate_f plain" and "zlib_no_stall inflate_f"
    and "\<forall>c \<in> set out. c \<noteq> [] \<and> length c \<le> DECOMP_SIZE"
  shows "\<exists>res. um_inflate_loop inflate_f ifl inp out = Some res \<and>
    inflate_post plain (\<lambda>later. concat out @ plain (zs ifl) (inp @ later)) (inf_complete ifl) res"
  using assms(3)
proof (induction "length inp + length (plain (zs ifl) inp)" arbitrary: ifl inp out rule: less_induct)
  case less
  obtain rc used dec z where c: "inflate_f (zs ifl) inp DECOMP_SIZE = (rc, used, dec, z)"
    by (metis prod_cases4)
  show ?case
  proof (cases "inp = []")
    case True
    then show ?thesis using less.prems by (simp add: inflate_post_def)
  next
    case False
    have room: "DECOMP_SIZE > 0" by (simp add: DECOMP_SIZE_def)
    have rcs: "rc \<in> {Z_OK, Z_STREAM_END, Z_DATA_ERROR}"
      using assms(2) False c by (metis fst_conv zlib_no_stall_def)
    note s = assms(1) [unfolded zlib_stream_def, rule_format, OF c]
    define out1 where "out1 = (if dec = [] then out else out @ [dec])"
    have o: "\<forall>c \<in> set out1. c \<noteq> [] \<and> length c \<le> DECOMP_SIZE" "concat out1 = concat out @ dec"
      using less.prems s by (simp_all add: out1_def)
    note turn = um_inflate_loop_turn [of inflate_f ifl inp, OF c False, of out, folded out1_def]
    consider "rc = Z_DATA_ERROR" | "rc = Z_STREAM_END" | "rc = Z_OK" using rcs by blast
    then show ?thesis
    proof cases
      case 1
      then show ?thesis using less.prems turn by (simp add: inflate_post_def)
    next
      case 2
      then have "\<forall>later. plain (zs ifl) (inp @ later) = dec" using s by blast
      with 2 show ?thesis using turn o by (simp add: inflate_post_def)
    next
      case 3
      note st = zlib_stream_step [OF assms(1) c [unfolded 3] False room]
      have "(\<lambda>later. concat out @ plain (zs ifl) (inp @ later)) =
          (\<lambda>later. concat out1 @ plain z (drop used inp @ later))"
        using st(3) o(2) by simp
      with less.hyps [of "drop used inp" "ifl\<lparr>zs := z\<rparr>" out1] st(4) o(1) 3 turn show ?thesis by simp
    qed
  qed
qed

lemma um_inflate_exact_aux:
  assumes "zlib_stream inflate_f plain" and "zlib_no_stall inflate_f"
    and "length compressed < 2 ^ 32"
  shows "\<exists>res. um_inflate inflate_f ifl compressed = Some res \<and>
    inflate_post plain (\<lambda>later. plain (zs ifl) (compressed @ later)) (inf_complete ifl) res"
proof -
  have "unat (of_nat (length compressed) :: uint32) = length compressed"
    using assms(3) by (simp add: unat_of_nat take_bit_nat_eq_self)
  then show ?thesis
    using um_inflate_loop_ok [OF assms(1,2), of "[]" ifl compressed] by (simp add: um_inflate_def)
qed

text \<open>The status of the last call of \<open>inflate\<close> behind a return value.\<close>

lemma um_inflate_loop_last:
  assumes "um_inflate_loop inflate_f ifl inp out = Some (rc, ifl', out')"
  shows "(rc = 1 \<longrightarrow> (\<exists>z i r u o1. inflate_f z i r = (Z_STREAM_END, u, o1, zs ifl'))) \<and>
    (rc = -1 \<longrightarrow> (\<exists>z i r u o1. inflate_f z i r = (Z_DATA_ERROR, u, o1, zs ifl')))"
proof -
  have "(fst res = 1 \<longrightarrow> (\<exists>z i r u o1. inflate_f z i r = (Z_STREAM_END, u, o1, zs (fst (snd res))))) \<and>
    (fst res = -1 \<longrightarrow> (\<exists>z i r u o1. inflate_f z i r = (Z_DATA_ERROR, u, o1, zs (fst (snd res)))))"
    if "um_inflate_loop inflate_f i n os = Some res" for i n os res
    by (rule um_inflate_loop.raw_induct [where P = "\<lambda>f i n os res.
          (fst res = 1 \<longrightarrow> (\<exists>z i r u o1. f z i r = (Z_STREAM_END, u, o1, zs (fst (snd res))))) \<and>
          (fst res = -1 \<longrightarrow> (\<exists>z i r u o1. f z i r = (Z_DATA_ERROR, u, o1, zs (fst (snd res)))))", OF _ that])
       (fastforce simp: Let_def split: if_splits prod.splits)
  from this [OF assms] show ?thesis by simp
qed

section \<open>Decompression of a body in parts\<close>

text \<open>
  The states of a stream that has been fed \<open>fed\<close> since \<open>z0\<close> and has given \<open>given\<close>: running, complete,
  or failed.
\<close>

definition inflater_inv ::
  "'z inflate_fn \<Rightarrow> ('z \<Rightarrow> bool) \<Rightarrow> ('z \<Rightarrow> byte list \<Rightarrow> byte list) \<Rightarrow> 'z \<Rightarrow> byte list \<Rightarrow> byte list \<Rightarrow>
     'z http_inflater \<Rightarrow> bool" where
  "inflater_inv inflate_f zmsg plain z0 fed given ifl \<longleftrightarrow>
     inf_complete ifl = 0 \<and> (\<forall>later. plain z0 (fed @ later) = given @ plain (zs ifl) later) \<or>
     inf_complete ifl = 1 \<and> (\<forall>later. plain z0 (fed @ later) = given) \<and>
       (\<forall>i r. inflate_f (zs ifl) i r = (Z_STREAM_END, 0, [], zs ifl)) \<or>
     inf_complete ifl = 0 \<and> zmsg (zs ifl) \<and> (\<forall>i r. inflate_f (zs ifl) i r = (Z_DATA_ERROR, 0, [], zs ifl))"

lemma inflater_inv_cases:
  assumes "inflater_inv inflate_f zmsg plain z0 fed given ifl"
  obtains (running) "inf_complete ifl = 0" and "\<forall>later. plain z0 (fed @ later) = given @ plain (zs ifl) later"
  | (ended) "inf_complete ifl = 1" and "\<forall>later. plain z0 (fed @ later) = given"
      and "\<forall>i r. inflate_f (zs ifl) i r = (Z_STREAM_END, 0, [], zs ifl)"
  | (failed) "inf_complete ifl = 0" and "zmsg (zs ifl)"
      and "\<forall>i r. inflate_f (zs ifl) i r = (Z_DATA_ERROR, 0, [], zs ifl)"
  using assms unfolding inflater_inv_def by blast

lemma um_inflate_sticky:
  assumes "\<forall>i r. inflate_f (zs ifl) i r = (rc, 0, [], zs ifl)" and "rc = Z_STREAM_END \<or> rc = Z_DATA_ERROR"
    and "rc = Z_STREAM_END \<longrightarrow> inf_complete ifl = 1"
  shows "\<exists>r. um_inflate inflate_f ifl inp = Some (r, ifl, [])"
proof (cases "take (unat (of_nat (length inp) :: uint32)) inp = []")
  case True
  then show ?thesis unfolding um_inflate_def True by simp
next
  case False
  have "inflate_f (zs ifl) (take (unat (of_nat (length inp) :: uint32)) inp) DECOMP_SIZE = (rc, 0, [], zs ifl)"
    using assms(1) by blast
  note turn = um_inflate_loop_turn [of inflate_f ifl, OF this False, of "[]"]
  from assms(2) show ?thesis
  proof
    assume rc: "rc = Z_STREAM_END"
    then have "ifl\<lparr>inf_complete := 1\<rparr> = ifl" using assms(3) by (cases ifl) simp
    with turn rc show ?thesis by (simp add: um_inflate_def)
  next
    assume "rc = Z_DATA_ERROR"
    with turn show ?thesis by (simp add: um_inflate_def)
  qed
qed

lemma um_inflate_inv:
  assumes "zlib_stream inflate_f plain" and "zlib_no_stall inflate_f" and "zlib_final inflate_f zmsg"
    and "length inp < 2 ^ 32" and "inflater_inv inflate_f zmsg plain z0 fed given ifl"
  shows "\<exists>rc ifl' chunks. um_inflate inflate_f ifl inp = Some (rc, ifl', chunks) \<and>
    inflater_inv inflate_f zmsg plain z0 (fed @ inp) (given @ concat chunks) ifl'"
  using assms(5)
proof (cases rule: inflater_inv_cases)
  case running
  note c = running(1) and pl = running(2)
  obtain rc ifl' chunks where r: "um_inflate inflate_f ifl inp = Some (rc, ifl', chunks)"
    and post: "inflate_post plain (\<lambda>later. plain (zs ifl) (inp @ later)) (inf_complete ifl) (rc, ifl', chunks)"
    using um_inflate_exact_aux [OF assms(1,2,4)] by (metis prod_cases3)
  note last = um_inflate_loop_last [OF r [unfolded um_inflate_def]]
  have "rc = 0 \<or> rc = 1 \<or> rc = -1" using post by (auto simp: inflate_post_def split: if_splits)
  then have "inflater_inv inflate_f zmsg plain z0 (fed @ inp) (given @ concat chunks) ifl'"
  proof (elim disjE)
    assume "rc = 0"
    with post c pl show ?thesis by (simp add: inflate_post_def inflater_inv_def)
  next
    assume rc: "rc = 1"
    then obtain z i r u o1 where "inflate_f z i r = (Z_STREAM_END, u, o1, zs ifl')" using last by blast
    then have "\<forall>i r. inflate_f (zs ifl') i r = (Z_STREAM_END, 0, [], zs ifl')"
      using assms(3) unfolding zlib_final_def by blast
    with rc post pl show ?thesis by (simp add: inflate_post_def inflater_inv_def)
  next
    assume rc: "rc = -1"
    then obtain z i r u o1 where "inflate_f z i r = (Z_DATA_ERROR, u, o1, zs ifl')" using last by blast
    then have "zmsg (zs ifl') \<and> (\<forall>i r. inflate_f (zs ifl') i r = (Z_DATA_ERROR, 0, [], zs ifl'))"
      using assms(3) unfolding zlib_final_def by blast
    with rc post c show ?thesis by (simp add: inflate_post_def inflater_inv_def)
  qed
  with r show ?thesis by blast
next
  case ended
  from um_inflate_sticky [of inflate_f ifl, OF ended(3)] ended(1)
  obtain r where "um_inflate inflate_f ifl inp = Some (r, ifl, [])" by blast
  with ended show ?thesis by (simp add: inflater_inv_def)
next
  case failed
  from um_inflate_sticky [of inflate_f ifl, OF failed(3)]
  obtain r where "um_inflate inflate_f ifl inp = Some (r, ifl, [])" by blast
  with failed show ?thesis by (simp add: inflater_inv_def)
qed

section \<open>Where the loop does not deliver\<close>

text \<open>
  A status the loop does not test, without progress (a preset dictionary is needed, a stream error),
  is asked again for ever.
\<close>

lemma um_inflate_stalls:
  assumes "inflate_f (zs ifl) inp DECOMP_SIZE = (rc, 0, [], zs ifl)"
    and "rc \<noteq> Z_DATA_ERROR" and "rc \<noteq> Z_STREAM_END" and "inp \<noteq> []"
  shows "um_inflate_loop inflate_f ifl inp out = None"
proof -
  have "False" if "um_inflate_loop inflate_f ifl inp out = Some y" for y
  proof -
    have "f = inflate_f \<longrightarrow> i = ifl \<longrightarrow> n = inp \<longrightarrow> False"
      if "um_inflate_loop f i n os = Some y" for f i n os y
      by (rule um_inflate_loop.raw_induct [where P = "\<lambda>f i n os y. f = inflate_f \<longrightarrow> i = ifl \<longrightarrow> n = inp \<longrightarrow> False", OF _ that])
         (use assms in \<open>auto simp: Let_def split: if_splits\<close>, blast)
    with that show False by blast
  qed
  then show ?thesis by (metis not_None_eq)
qed

text \<open>
  The loop ends when the input is used up, although the stream may still hold output that did not fit
  the buffer; it is not delivered by this call.
\<close>

lemma um_inflate_leaves_output:
  assumes "inflate_f (zs ifl) inp DECOMP_SIZE = (Z_OK, length inp, dec, z)"
    and "inp \<noteq> []" and "dec \<noteq> []" and "zlib_stream inflate_f plain" and "plain z [] \<noteq> []"
  shows "um_inflate_loop inflate_f ifl inp [] = Some (0, ifl\<lparr>zs := z\<rparr>, [dec])"
    and "dec \<noteq> plain (zs ifl) inp"
proof -
  show "um_inflate_loop inflate_f ifl inp [] = Some (0, ifl\<lparr>zs := z\<rparr>, [dec])"
    using um_inflate_loop_turn [of inflate_f ifl inp, OF assms(1,2), of "[]"] assms(3) by simp
  have "plain (zs ifl) (inp @ []) = dec @ plain z (drop (length inp) inp @ [])"
    using assms(4) [unfolded zlib_stream_def, rule_format, OF assms(1)] by blast
  then show "dec \<noteq> plain (zs ifl) inp" using assms(5) by simp
qed

text \<open>Without the library the client offers no encoding, yet a compressed answer is still taken up.\<close>

lemma um_get_inflater_without_zlib:
  assumes "\<not> so_opens so"
  shows "um_available_encoding so = None \<and> um_get_inflater so zinit ''gzip'' = Inl Null_Deref \<and>
    um_get_inflater so zinit ''deflate'' = Inl Null_Deref"
  using assms by (simp add: um_available_encoding_def compression_init_def um_get_inflater_def resolved_def)

section \<open>Properties\<close>


text \<open>A concrete stream: stored text up to a zero byte; the state says whether that was seen.\<close>

definition stored_inflate :: "bool inflate_fn" where
  "stored_inflate z inp room =
     (let body = takeWhile (\<lambda>b. b \<noteq> 0) inp; out = take room body
      in if z then (Z_STREAM_END, 0, [], z)
         else if length body \<le> room \<and> length body < length inp
         then (Z_STREAM_END, Suc (length body), out, True)
         else (Z_OK, length out, out, False))"

definition stored_plain :: "bool \<Rightarrow> byte list \<Rightarrow> byte list" where
  "stored_plain z inp = (if z then [] else takeWhile (\<lambda>b. b \<noteq> 0) inp)"

lemma stored_body_drop:
  "takeWhile P (xs @ ys) = take n (takeWhile P xs) @ takeWhile P (drop (min n (length (takeWhile P xs))) xs @ ys)"
  by (induction xs arbitrary: n) (auto simp: drop_Cons take_Cons split: nat.splits)

lemma stored_body_less: "length (takeWhile P xs) < length xs \<Longrightarrow> takeWhile P (xs @ ys) = takeWhile P xs"
  by (induction xs) auto

lemma stored_body_full: "\<not> length (takeWhile P xs) < length xs \<Longrightarrow> takeWhile P xs = xs"
  by (metis length_takeWhile_le linorder_not_less le_antisym takeWhile_eq_take take_all)

lemma stored_is_zlib_stream: "zlib_stream stored_inflate stored_plain"
  unfolding zlib_stream_def
proof (intro allI impI)
  fix z z' :: bool and inp room rc used out
  assume a: "stored_inflate z inp room = (rc, used, out, z')"
  let ?b = "takeWhile (\<lambda>b. b \<noteq> 0) inp"
  have le: "length ?b \<le> length inp" by (rule length_takeWhile_le)
  consider "z" | "\<not> z" "length ?b \<le> room \<and> length ?b < length inp" | "\<not> z" "\<not> (length ?b \<le> room \<and> length ?b < length inp)"
    by blast
  then show "used \<le> length inp \<and> length out \<le> room \<and>
        (rc = Z_OK \<longrightarrow> inp \<noteq> [] \<longrightarrow> room > 0 \<longrightarrow> used > 0 \<or> out \<noteq> []) \<and>
        (rc = Z_OK \<longrightarrow> (\<forall>later. stored_plain z (inp @ later) = out @ stored_plain z' (drop used inp @ later))) \<and>
        (rc = Z_STREAM_END \<longrightarrow> (\<forall>later. stored_plain z (inp @ later) = out))"
  proof cases
    case 1
    with a show ?thesis by (simp add: stored_inflate_def stored_plain_def)
  next
    case 2
    then have "takeWhile (\<lambda>b. b \<noteq> 0) (inp @ later) = ?b" for later
      by (simp add: stored_body_less)
    with 2 a show ?thesis by (auto simp: stored_inflate_def stored_plain_def Let_def)
  next
    case 3
    have split: "takeWhile (\<lambda>b. b \<noteq> 0) (inp @ later) =
        take room ?b @ takeWhile (\<lambda>b. b \<noteq> 0) (drop (min room (length ?b)) inp @ later)" for later
      by (rule stored_body_drop)
    have ne: "?b \<noteq> []" if "inp \<noteq> []" "room > 0"
      using that 3 stored_body_full [of "\<lambda>b. b \<noteq> 0" inp] by (cases "length ?b < length inp") auto
    have r: "rc = Z_OK" "used = min room (length ?b)" "out = take room ?b" "z' = False"
      using a 3 by (auto simp: stored_inflate_def Let_def min.commute)
    have "inp \<noteq> [] \<longrightarrow> room > 0 \<longrightarrow> used > 0 \<or> out \<noteq> []" using ne by (simp add: r)
    moreover have "stored_plain z (inp @ later) = out @ stored_plain z' (drop used inp @ later)" for later
      unfolding r stored_plain_def using 3 split by simp
    ultimately show ?thesis using le by (simp add: r)
  qed
qed

lemma stored_no_stall: "zlib_no_stall stored_inflate"
  by (simp add: zlib_no_stall_def stored_inflate_def Let_def)

lemma stored_final: "zlib_final stored_inflate (\<lambda>z. False)"
  by (auto simp: zlib_final_def stored_inflate_def Let_def split: if_splits)


end
