(* ===== verification/Http_Req.thy ===== *)
theory Http_Req
  imports Headers Inflate
begin

text \<open>
  A single HTTP request and its response, \<open>src/http_req.c\<close>: initialisation, the serialisation of the
  request head into the caller's buffer, and the handlers that the llhttp parser calls while it
  consumes the response. The parser is a parameter: it turns input into the sequence of handler calls,
  a status and a position. Calls of the user's callbacks are the events of the model; the response
  callback usually installs the body callback, so whether one is installed afterwards is the
  result of a parameter \<open>on_resp\<close>.
\<close>

unbundle bit_operations_syntax

section \<open>Data\<close>

datatype http_request_state =
    created | headers_sent | body_sent | headers_received | completed

record body_chunk =
  bc_chunk :: "byte list"
  bc_cb :: bool

text \<open>The response part; \<open>resp_body_cb\<close> says whether the callback pointer is set.\<close>

record tlsuv_http_resp =
  http_version :: string
  resp_code :: int
  resp_status :: "string option"
  curr_header :: "string option"
  resp_headers :: um_header_list
  resp_body_cb :: bool

record ('p, 'z) tlsuv_http_req =
  req_method :: string
  req_path :: string
  req_parser :: 'p
  req_state :: http_request_state
  req_chunked :: bool
  req_body_size :: int
  body_sent_size :: nat
  req_body :: "body_chunk list"
  req_headers :: um_header_list
  has_resp_cb :: bool
  req_inflater :: "'z http_inflater option"
  req_resp :: tlsuv_http_resp

datatype http_event =
    Resp_Cb int um_header_list
  | Body_Cb "byte list"
  | Body_End int

section \<open>Initialisation and release\<close>

text \<open>
  \<open>http_req_init\<close> assigns these fields and leaves the others as they are; its callers pass zeroed
  memory. \<open>p0\<close> is the parser after \<open>llhttp_init\<close>.
\<close>

definition http_req_init ::
  "'p \<Rightarrow> ('p, 'z) tlsuv_http_req \<Rightarrow> string \<Rightarrow> string \<Rightarrow> ('p, 'z) tlsuv_http_req" where
  "http_req_init p0 r method path =
     r\<lparr>req_method := method, req_path := path, req_body := [], req_chunked := False,
       req_body_size := -1, body_sent_size := 0, req_state := created, req_parser := p0\<rparr>"

definition resp_zero :: tlsuv_http_resp where
  "resp_zero = \<lparr>http_version = [], resp_code = 0, resp_status = None, curr_header = None,
     resp_headers = [], resp_body_cb = False\<rparr>"

definition req_zero :: "'p \<Rightarrow> ('p, 'z) tlsuv_http_req" where
  "req_zero p = \<lparr>req_method = [], req_path = [], req_parser = p, req_state = created,
     req_chunked = False, req_body_size = 0, body_sent_size = 0, req_body = [], req_headers = [],
     has_resp_cb = False, req_inflater = None, req_resp = resp_zero\<rparr>"

text \<open>What \<open>http_req_free\<close> releases: the two header lists, the status text and the inflater.\<close>

definition http_req_free ::
  "('p, 'z) tlsuv_http_req option \<Rightarrow> tlsuv_http_hdr list \<times> string list \<times> 'z list" where
  "http_req_free req =
     (case req of
        None \<Rightarrow> ([], [], [])
      | Some r \<Rightarrow>
          (fst (free_hdr_list (req_headers r)) @ fst (free_hdr_list (resp_headers (req_resp r))),
           (case resp_status (req_resp r) of None \<Rightarrow> [] | Some s \<Rightarrow> [s]) @ [req_path r, req_method r],
           um_free_inflater (req_inflater r)))"

section \<open>URL encoding\<close>

definition url_unsafe :: string where
  "url_unsafe = [CHR 0x22, CHR ''<'', CHR ''>'', CHR ''%'', CHR 0x7B, CHR 0x7D, CHR ''|'', CHR 0x5C,
     CHR ''^'', CHR 0x60]"

definition HEXIFY :: "nat \<Rightarrow> char" where
  "HEXIFY c = char_of (if c < 10 then 48 + c else 65 + c - 10)"

text \<open>
  \<open>char\<close> is signed: a byte above 127 is negative, hence at most \<open>' '\<close>. The shift and the mask leave the
  high and the low nibble in both cases.
\<close>

definition url_escaped :: "char \<Rightarrow> bool" where
  "url_escaped c \<longleftrightarrow> (of_char c :: nat) \<ge> 128 \<or> (of_char c :: nat) \<le> 32 \<or> c \<in> set url_unsafe"

fun write_url_encoded :: "string \<Rightarrow> string" where
  "write_url_encoded [] = []"
| "write_url_encoded (c # url) =
     (if url_escaped c
      then CHR ''%'' # HEXIFY (of_char c div 16 mod 16) # HEXIFY (of_char c mod 16) # write_url_encoded url
      else c # write_url_encoded url)"

section \<open>The request head\<close>

text \<open>
  The output buffer has room for \<open>maxlen\<close> characters. A position past the end can occur, since
  \<open>snprintf\<close> returns the length it would have needed: then \<open>maxlen - len\<close> wraps around and the next
  \<open>snprintf\<close> stores at least its NUL outside the buffer. The state is \<open>len\<close> and what is stored below
  \<open>min len maxlen\<close>.
\<close>

definition snprintf_at :: "nat \<Rightarrow> nat \<times> string \<Rightarrow> string \<Rightarrow> ub + nat \<times> string" where
  "snprintf_at maxlen st txt =
     (let (len, buf) = st
      in if len > maxlen then Inl Out_Of_Bounds_Write
         else if length txt < maxlen - len then Inr (len + length txt, buf @ txt)
         else if len = maxlen then Inr (len + length txt, buf)
         else Inr (len + length txt, buf @ take (maxlen - len - 1) txt @ [CHR 0x00]))"

definition url_encode_at :: "nat \<Rightarrow> nat \<times> string \<Rightarrow> string \<Rightarrow> ub + nat \<times> string" where
  "url_encode_at maxlen st url =
     (let (len, buf) = st; txt = write_url_encoded url
      in if txt \<noteq> [] \<and> len + length txt > maxlen then Inl Out_Of_Bounds_Write
         else Inr (len + length txt, buf @ txt))"

definition header_line :: "tlsuv_http_hdr \<Rightarrow> string" where
  "header_line h = hdr_name h @ '': '' @ hdr_value h @ [CHR 0x0D, CHR 0x0A]"

primrec write_headers :: "nat \<Rightarrow> um_header_list \<Rightarrow> nat \<times> string \<Rightarrow> ub + nat \<times> string" where
  "write_headers maxlen [] st = Inr st"
| "write_headers maxlen (h # hs) st =
     ub_bind (snprintf_at maxlen st (header_line h)) (write_headers maxlen hs)"

text \<open>The length of the body collected so far, as a \<open>Content-Length\<close> header; \<open>length_str\<close> has 16 bytes.\<close>

definition has_body_method :: "string \<Rightarrow> bool" where
  "has_body_method m \<longleftrightarrow> m = ''POST'' \<or> m = ''PUT'' \<or> m = ''PATCH''"

definition req_body_len :: "body_chunk list \<Rightarrow> nat" where
  "req_body_len chunks = sum_list (map (length \<circ> bc_chunk) chunks)"

definition set_content_length :: "('p, 'z) tlsuv_http_req \<Rightarrow> ub + ('p, 'z) tlsuv_http_req" where
  "set_content_length req =
     (if has_body_method (req_method req) \<and> \<not> req_chunked req \<and> req_body_size req = -1
      then
        (let req_len = req_body_len (req_body req); length_str = show_dec req_len
         in if length length_str \<ge> 16 then Inl Out_Of_Bounds_Write
            else Inr (req\<lparr>req_body_size := int req_len,
                         req_headers := set_http_header (req_headers req) ''Content-Length''
                           (Some length_str)\<rparr>))
      else Inr req)"

definition CRLF :: string where "CRLF = [CHR 0x0D, CHR 0x0A]"

definition http_req_write ::
  "string option \<Rightarrow> ('p, 'z) tlsuv_http_req \<Rightarrow> nat \<Rightarrow> ub + (nat \<times> string \<times> ('p, 'z) tlsuv_http_req)" where
  "http_req_write client_prefix req maxlen =
     (let pfx = (case client_prefix of None \<Rightarrow> [] | Some p \<Rightarrow> p)
      in ub_bind (snprintf_at maxlen (0, []) (req_method req @ '' '')) (\<lambda>st1.
         ub_bind (url_encode_at maxlen st1 pfx) (\<lambda>st2.
         ub_bind (url_encode_at maxlen st2 (req_path req)) (\<lambda>st3.
         ub_bind (snprintf_at maxlen st3 ('' HTTP/1.1'' @ CRLF)) (\<lambda>st4.
         ub_bind (set_content_length req) (\<lambda>req1.
         ub_bind (write_headers maxlen (req_headers req1) st4) (\<lambda>st5.
         ub_bind (snprintf_at maxlen st5 CRLF) (\<lambda>(len, buf).
           Inr (len, buf, req1)))))))))"

section \<open>The handlers of the response parser\<close>

text \<open>The calls the parser makes, in the order of \<open>HTTP_PROC\<close>.\<close>

datatype parser_call =
    On_Header_Field string
  | On_Header_Value string
  | On_Headers_Complete
  | On_Status int nat nat string
  | On_Message_Complete
  | On_Body "byte list"

definition http_header_field_cb :: "('p, 'z) tlsuv_http_req \<Rightarrow> string \<Rightarrow> ('p, 'z) tlsuv_http_req" where
  "http_header_field_cb req f =
     req\<lparr>req_resp := (req_resp req)\<lparr>curr_header := Some (c_strndup f (length f))\<rparr>\<rparr>"

definition http_header_value_cb :: "('p, 'z) tlsuv_http_req \<Rightarrow> string \<Rightarrow> ('p, 'z) tlsuv_http_req" where
  "http_header_value_cb req v =
     (let resp = req_resp req;
          hdrs = (if length v > 0
                  then (case curr_header resp of
                          Some name \<Rightarrow> add_http_header (resp_headers resp) name v (length v)
                        | None \<Rightarrow> resp_headers resp)
                  else resp_headers resp)
      in req\<lparr>req_resp := resp\<lparr>resp_headers := hdrs, curr_header := None\<rparr>\<rparr>)"

text \<open>\<open>http_version\<close> has room for 7 characters and the NUL.\<close>

definition http_status_cb ::
  "('p, 'z) tlsuv_http_req \<Rightarrow> int \<Rightarrow> nat \<Rightarrow> nat \<Rightarrow> string \<Rightarrow> ('p, 'z) tlsuv_http_req" where
  "http_status_cb r code major minor status =
     r\<lparr>req_resp := (req_resp r)\<lparr>resp_code := code,
         http_version := take 7 (show_dec major @ ''.'' @ show_dec minor),
         resp_status := Some (c_strndup status (length status))\<rparr>\<rparr>"

text \<open>
  The response callback runs between the rewriting of the headers and the choice of an inflater.
  \<open>on_resp\<close> tells whether a body callback is installed when it returns.
\<close>

definition http_headers_complete_cb ::
  "zlib_so \<Rightarrow> (bool \<Rightarrow> 'z) \<Rightarrow> (tlsuv_http_resp \<Rightarrow> bool) \<Rightarrow> ('p, 'z) tlsuv_http_req \<Rightarrow>
     ub + (('p, 'z) tlsuv_http_req \<times> http_event list)" where
  "http_headers_complete_cb so zinit on_resp req =
     (let resp = req_resp req;
          compression = tlsuv_http_resp_header (resp_headers resp) ''content-encoding'';
          hdrs = (if compression = None then resp_headers resp
                  else set_http_header
                         (set_http_header (resp_headers resp) ''content-length'' None)
                         ''transfer-encoding'' (Some ''chunked''));
          resp1 = resp\<lparr>resp_headers := hdrs\<rparr>;
          (resp2, events) =
            (if has_resp_cb req
             then (resp1\<lparr>resp_body_cb := on_resp resp1\<rparr>, [Resp_Cb (resp_code resp1) hdrs])
             else (resp1, []));
          req1 = req\<lparr>req_state := headers_received, req_resp := resp2\<rparr>
      in case compression of
           None \<Rightarrow> Inr (req1, events)
         | Some enc \<Rightarrow>
             if resp_body_cb resp2
             then ub_bind (um_get_inflater so zinit enc) (\<lambda>ifl. Inr (req1\<lparr>req_inflater := ifl\<rparr>, events))
             else Inr (req1, events))"

definition http_message_cb ::
  "('z \<Rightarrow> bool) \<Rightarrow> ('p, 'z) tlsuv_http_req \<Rightarrow> ('p, 'z) tlsuv_http_req \<times> http_event list" where
  "http_message_cb zmsg r =
     (let r1 = r\<lparr>req_state := completed\<rparr>
      in if resp_body_cb (req_resp r1)
         then (case req_inflater r1 of
                 None \<Rightarrow> (r1, [Body_End UV_EOF])
               | Some ifl \<Rightarrow>
                   if um_inflate_state zmsg ifl = 1 then (r1, [Body_End UV_EOF])
                   else (r1, [Body_End UV_EINVAL]))
         else (r1, []))"

definition http_body_cb ::
  "'z inflate_fn \<Rightarrow> ('p, 'z) tlsuv_http_req \<Rightarrow> byte list \<Rightarrow>
     ub + (('p, 'z) tlsuv_http_req \<times> http_event list)" where
  "http_body_cb inflate_f r body =
     (case req_inflater r of
        Some ifl \<Rightarrow>
          (case um_inflate inflate_f ifl body of
             None \<Rightarrow> Inl Endless_Loop
           | Some (rc, ifl', chunks) \<Rightarrow> Inr (r\<lparr>req_inflater := Some ifl'\<rparr>, map Body_Cb chunks))
      | None \<Rightarrow> Inr (r, if resp_body_cb (req_resp r) then [Body_Cb body] else []))"

text \<open>The environment the handlers run in, and one call of a handler.\<close>

record 'z http_env =
  env_so :: zlib_so
  env_zinit :: "bool \<Rightarrow> 'z"
  env_inflate :: "'z inflate_fn"
  env_zmsg :: "'z \<Rightarrow> bool"
  env_on_resp :: "tlsuv_http_resp \<Rightarrow> bool"

definition http_proc ::
  "'z http_env \<Rightarrow> ('p, 'z) tlsuv_http_req \<Rightarrow> parser_call \<Rightarrow>
     ub + (('p, 'z) tlsuv_http_req \<times> http_event list)" where
  "http_proc env req call =
     (case call of
        On_Header_Field f \<Rightarrow> Inr (http_header_field_cb req f, [])
      | On_Header_Value v \<Rightarrow> Inr (http_header_value_cb req v, [])
      | On_Headers_Complete \<Rightarrow> http_headers_complete_cb (env_so env) (env_zinit env) (env_on_resp env) req
      | On_Status code major minor status \<Rightarrow> Inr (http_status_cb req code major minor status, [])
      | On_Message_Complete \<Rightarrow> Inr (http_message_cb (env_zmsg env) req)
      | On_Body body \<Rightarrow> http_body_cb (env_inflate env) req body)"

primrec http_proc_all ::
  "'z http_env \<Rightarrow> ('p, 'z) tlsuv_http_req \<Rightarrow> parser_call list \<Rightarrow>
     ub + (('p, 'z) tlsuv_http_req \<times> http_event list)" where
  "http_proc_all env req [] = Inr (req, [])"
| "http_proc_all env req (call # calls) =
     ub_bind (http_proc env req call) (\<lambda>(req1, ev1).
       ub_bind (http_proc_all env req1 calls) (\<lambda>(req2, ev2). Inr (req2, ev1 @ ev2)))"

text \<open>
  The parser: from its state and the input it makes calls and returns its status, the position it
  stopped at and its next state. \<open>http_req_process\<close> returns the number of bytes it used or -1.
\<close>

datatype llhttp_errno = HPE_OK | HPE_PAUSED_UPGRADE | HPE_ERROR int

type_synonym 'p llhttp_exec =
  "'p \<Rightarrow> byte list \<Rightarrow> parser_call list \<times> llhttp_errno \<times> nat \<times> 'p"

definition http_req_process ::
  "'p llhttp_exec \<Rightarrow> ('p \<Rightarrow> 'p) \<Rightarrow> 'z http_env \<Rightarrow> ('p, 'z) tlsuv_http_req \<Rightarrow> byte list \<Rightarrow>
     ub + (int \<times> ('p, 'z) tlsuv_http_req \<times> http_event list)" where
  "http_req_process llhttp_execute llhttp_resume env req buf =
     (let (calls, err, pos, p) = llhttp_execute (req_parser req) buf
      in ub_bind (http_proc_all env req calls) (\<lambda>(req1, events).
           let req2 = req1\<lparr>req_parser := p\<rparr>
           in case err of
                HPE_OK \<Rightarrow> Inr (int (length buf), req2, events)
              | HPE_PAUSED_UPGRADE \<Rightarrow> Inr (int pos, req2\<lparr>req_parser := llhttp_resume p\<rparr>, events)
              | HPE_ERROR e \<Rightarrow> Inr (-1, req2, events)))"

section \<open>Lemmas on the request head\<close>

text \<open>
  The invariant of the writer: \<open>len\<close> counts the whole text \<open>tx\<close> so far, and as long as it stays below
  \<open>maxlen\<close> the buffer holds exactly that text.
\<close>

definition wrote :: "nat \<Rightarrow> string \<Rightarrow> nat \<times> string \<Rightarrow> bool" where
  "wrote maxlen tx st \<longleftrightarrow> fst st = length tx \<and> (length tx < maxlen \<longrightarrow> snd st = tx)"

lemma wrote_start: "wrote maxlen [] (0, [])"
  by (simp add: wrote_def)

lemma snprintf_wrote:
  assumes "wrote maxlen tx st" and "snprintf_at maxlen st t = Inr st'"
  shows "wrote maxlen (tx @ t) st'"
  using assms by (auto simp: wrote_def snprintf_at_def Let_def split: prod.splits if_splits)

lemma snprintf_fits:
  assumes "wrote maxlen tx st" and "length tx + length t < maxlen"
  shows "\<exists>st'. snprintf_at maxlen st t = Inr st' \<and> wrote maxlen (tx @ t) st'"
  using assms by (auto simp: wrote_def snprintf_at_def Let_def split: prod.splits)

lemma url_encode_wrote:
  assumes "wrote maxlen tx st" and "url_encode_at maxlen st t = Inr st'"
  shows "wrote maxlen (tx @ write_url_encoded t) st'"
  using assms by (auto simp: wrote_def url_encode_at_def Let_def split: prod.splits if_splits)

lemma url_encode_fits:
  assumes "wrote maxlen tx st" and "length tx + length (write_url_encoded t) < maxlen"
  shows "\<exists>st'. url_encode_at maxlen st t = Inr st' \<and> wrote maxlen (tx @ write_url_encoded t) st'"
  using assms by (auto simp: wrote_def url_encode_at_def Let_def split: prod.splits)

lemma write_headers_wrote:
  "wrote maxlen tx st \<Longrightarrow> write_headers maxlen hs st = Inr st' \<Longrightarrow>
     wrote maxlen (tx @ concat (map header_line hs)) st'"
proof (induction hs arbitrary: tx st)
  case Nil
  then show ?case by simp
next
  case (Cons h hs)
  then obtain st1 where "snprintf_at maxlen st (header_line h) = Inr st1"
    and w: "write_headers maxlen hs st1 = Inr st'" by (auto simp: ub_bind_Inr)
  then have "wrote maxlen (tx @ header_line h) st1" using snprintf_wrote Cons.prems(1) by blast
  from Cons.IH [OF this w] show ?case by simp
qed

lemma write_headers_fits:
  "wrote maxlen tx st \<Longrightarrow> length tx + length (concat (map header_line hs)) < maxlen \<Longrightarrow>
     \<exists>st'. write_headers maxlen hs st = Inr st' \<and> wrote maxlen (tx @ concat (map header_line hs)) st'"
proof (induction hs arbitrary: tx st)
  case Nil
  then show ?case by simp
next
  case (Cons h hs)
  then obtain st1 where s: "snprintf_at maxlen st (header_line h) = Inr st1"
    and w: "wrote maxlen (tx @ header_line h) st1"
    using snprintf_fits [OF Cons.prems(1), of "header_line h"] by auto
  from Cons.IH [OF w] Cons.prems(2) s show ?case by simp
qed

text \<open>The text of the head for a request whose headers are final.\<close>

definition opt_prefix :: "string option \<Rightarrow> string" where
  "opt_prefix p = (case p of None \<Rightarrow> [] | Some s \<Rightarrow> s)"

definition request_target :: "string option \<Rightarrow> ('p, 'z) tlsuv_http_req \<Rightarrow> string" where
  "request_target pfx req = write_url_encoded (opt_prefix pfx) @ write_url_encoded (req_path req)"

definition request_head :: "string option \<Rightarrow> ('p, 'z) tlsuv_http_req \<Rightarrow> string" where
  "request_head pfx req =
     req_method req @ '' '' @ request_target pfx req @ '' HTTP/1.1'' @ CRLF @
     concat (map header_line (req_headers req)) @ CRLF"

lemma set_content_length_keeps:
  "set_content_length req = Inr req1 \<Longrightarrow> req_method req1 = req_method req \<and> req_path req1 = req_path req"
  by (auto simp: set_content_length_def Let_def split: if_splits)

lemma http_req_write_sound:
  assumes "http_req_write pfx req maxlen = Inr (len, buf, req1)"
  shows "set_content_length req = Inr req1" and "wrote maxlen (request_head pfx req1) (len, buf)"
proof -
  from assms obtain st1 st2 st3 st4 st5 where
    s1: "snprintf_at maxlen (0, []) (req_method req @ '' '') = Inr st1"
    and s2: "url_encode_at maxlen st1 (opt_prefix pfx) = Inr st2"
    and s3: "url_encode_at maxlen st2 (req_path req) = Inr st3"
    and s4: "snprintf_at maxlen st3 ('' HTTP/1.1'' @ CRLF) = Inr st4"
    and c: "set_content_length req = Inr req1"
    and s5: "write_headers maxlen (req_headers req1) st4 = Inr st5"
    and s6: "snprintf_at maxlen st5 CRLF = Inr (len, buf)"
    by (auto simp: http_req_write_def Let_def ub_bind_Inr opt_prefix_def)
  show "set_content_length req = Inr req1" by (rule c)
  have "wrote maxlen ((((((([] @ req_method req @ '' '') @ write_url_encoded (opt_prefix pfx)) @
      write_url_encoded (req_path req)) @ '' HTTP/1.1'' @ CRLF) @
      concat (map header_line (req_headers req1))) @ CRLF)) (len, buf)"
    by (rule snprintf_wrote [OF write_headers_wrote [OF snprintf_wrote [OF url_encode_wrote
          [OF url_encode_wrote [OF snprintf_wrote [OF wrote_start s1] s2] s3] s4] s5] s6])
  then show "wrote maxlen (request_head pfx req1) (len, buf)"
    using set_content_length_keeps [OF c] by (simp add: request_head_def request_target_def)
qed

lemma http_req_write_complete:
  assumes "set_content_length req = Inr req1" and "length (request_head pfx req1) < maxlen"
  shows "http_req_write pfx req maxlen = Inr (length (request_head pfx req1), request_head pfx req1, req1)"
proof -
  note keep = set_content_length_keeps [OF assms(1)]
  note l = assms(2) [unfolded request_head_def request_target_def keep [THEN conjunct1] keep [THEN conjunct2]]
  obtain st1 where 1: "snprintf_at maxlen (0, []) (req_method req @ '' '') = Inr st1"
    and w1: "wrote maxlen ([] @ req_method req @ '' '') st1"
    using snprintf_fits [OF wrote_start [of maxlen], of "req_method req @ '' ''"] l by auto
  obtain st2 where 2: "url_encode_at maxlen st1 (opt_prefix pfx) = Inr st2"
    and w2: "wrote maxlen (([] @ req_method req @ '' '') @ write_url_encoded (opt_prefix pfx)) st2"
    using url_encode_fits [OF w1, of "opt_prefix pfx"] l by auto
  obtain st3 where 3: "url_encode_at maxlen st2 (req_path req) = Inr st3"
    and w3: "wrote maxlen ((([] @ req_method req @ '' '') @ write_url_encoded (opt_prefix pfx)) @
        write_url_encoded (req_path req)) st3"
    using url_encode_fits [OF w2, of "req_path req"] l by auto
  obtain st4 where 4: "snprintf_at maxlen st3 ('' HTTP/1.1'' @ CRLF) = Inr st4"
    and w4: "wrote maxlen (((([] @ req_method req @ '' '') @ write_url_encoded (opt_prefix pfx)) @
        write_url_encoded (req_path req)) @ '' HTTP/1.1'' @ CRLF) st4"
    using snprintf_fits [OF w3, of "'' HTTP/1.1'' @ CRLF"] l by (auto simp: CRLF_def)
  obtain st5 where 5: "write_headers maxlen (req_headers req1) st4 = Inr st5"
    and w5: "wrote maxlen ((((([] @ req_method req @ '' '') @ write_url_encoded (opt_prefix pfx)) @
        write_url_encoded (req_path req)) @ '' HTTP/1.1'' @ CRLF) @ concat (map header_line (req_headers req1))) st5"
    using write_headers_fits [OF w4, of "req_headers req1"] l by auto
  obtain st6 where 6: "snprintf_at maxlen st5 CRLF = Inr st6"
    using snprintf_fits [OF w5, of CRLF] l by auto
  obtain len buf where st6: "st6 = (len, buf)" by (cases st6)
  have w: "http_req_write pfx req maxlen = Inr (len, buf, req1)"
    using 1 2 3 4 5 6 assms(1) st6 by (simp add: http_req_write_def Let_def opt_prefix_def [symmetric])
  from http_req_write_sound(2) [OF w] assms(2) show ?thesis unfolding w by (simp add: wrote_def)
qed

section \<open>Lemmas on URL encoding\<close>

definition hex_value :: "char \<Rightarrow> nat" where
  "hex_value c = (if is_digit c then digit_value c else of_char c - 55)"

text \<open>The decoder of a percent-encoded text, as the receiver of the request runs it.\<close>

fun percent_decode :: "string \<Rightarrow> string" where
  "percent_decode [] = []"
| "percent_decode (c # cs) =
     (if c = CHR ''%''
      then (case cs of h # l # r \<Rightarrow> char_of (16 * hex_value h + hex_value l) # percent_decode r | _ \<Rightarrow> [])
      else c # percent_decode cs)"

lemma HEXIFY_char: "d < 16 \<Longrightarrow> of_char (HEXIFY d) = (if d < 10 then 48 + d else 55 + d)"
  by (simp add: HEXIFY_def of_char_of)

lemma HEXIFY_value: "d < 16 \<Longrightarrow> hex_value (HEXIFY d) = d"
  by (auto simp: hex_value_def is_digit_def digit_value_def HEXIFY_char)

lemma char_nibbles: "char_of (16 * ((of_char c :: nat) div 16 mod 16) + of_char c mod 16) = c"
proof -
  have "(of_char c :: nat) div 16 < 16"
    using nat_of_char_less_256 [of c] by (simp add: less_mult_imp_div_less)
  then have "16 * ((of_char c :: nat) div 16 mod 16) + of_char c mod 16 = of_char c" by simp
  then show ?thesis by (simp only: char_of_char)
qed

lemma percent_decode_encoded: "percent_decode (write_url_encoded s @ r) = s @ percent_decode r"
proof (induction s)
  case Nil
  show ?case by simp
next
  case (Cons c s)
  show ?case
  proof (cases "url_escaped c")
    case True
    then show ?thesis using Cons char_nibbles [of c] by (simp add: HEXIFY_value)
  next
    case False
    then have "c \<noteq> CHR ''%''" by (auto simp: url_escaped_def url_unsafe_def)
    with False Cons show ?thesis by simp
  qed
qed

definition url_visible :: "char \<Rightarrow> bool" where
  "url_visible c \<longleftrightarrow> 32 < (of_char c :: nat) \<and> (of_char c :: nat) < 128"

lemma write_url_encoded_visible: "\<forall>c \<in> set (write_url_encoded s). url_visible c"
proof (induction s)
  case Nil
  show ?case by simp
next
  case (Cons c s)
  have "url_visible (HEXIFY d)" if "d < 16" for d
    using HEXIFY_char [OF that] that by (simp add: url_visible_def)
  with Cons show ?case by (auto simp: url_visible_def url_escaped_def)
qed

lemma request_target_visible: "\<forall>c \<in> set (request_target pfx req). url_visible c"
  using write_url_encoded_visible by (auto simp: request_target_def)

lemma request_target_decode: "percent_decode (request_target pfx req) = opt_prefix pfx @ req_path req"
  using percent_decode_encoded [of "opt_prefix pfx" "write_url_encoded (req_path req)"]
    percent_decode_encoded [of "req_path req" "[]"] by (simp add: request_target_def)

text \<open>The prefix and the path are encoded without a look at the room that is left.\<close>

lemma http_req_write_overflow:
  assumes "length (req_method req) + 1 + length (write_url_encoded p) > maxlen" and "p \<noteq> []"
    and "length (req_method req) + 1 < maxlen"
  shows "http_req_write (Some p) req maxlen = Inl Out_Of_Bounds_Write"
proof -
  have "write_url_encoded p \<noteq> []" using assms(2) by (cases p) auto
  then have "url_encode_at maxlen (Suc (length (req_method req)), req_method req @ '' '') p =
      Inl Out_Of_Bounds_Write"
    using assms(1) by (simp add: url_encode_at_def)
  then show ?thesis
    using assms(3) by (simp add: http_req_write_def snprintf_at_def)
qed

section \<open>Lemmas on the response handlers\<close>

lemma http_proc_all_append:
  "http_proc_all env req (a @ b) =
     ub_bind (http_proc_all env req a) (\<lambda>(r1, e1).
       ub_bind (http_proc_all env r1 b) (\<lambda>(r2, e2). Inr (r2, e1 @ e2)))"
proof (induction a arbitrary: req)
  case Nil
  show ?case by (cases "http_proc_all env req b") auto
next
  case (Cons x a)
  show ?case
  proof (cases "http_proc env req x")
    case (Inr y)
    obtain r1 e1 where y: "y = (r1, e1)" by (cases y)
    show ?thesis
    proof (cases "http_proc_all env r1 a")
      case (Inr z)
      obtain r2 e2 where z: "z = (r2, e2)" by (cases z)
      then show ?thesis
        using Cons [of r1] Inr \<open>http_proc env req x = Inr y\<close> y
        by (cases "http_proc_all env r2 b") auto
    next
      case (Inl e)
      then show ?thesis using Cons [of r1] \<open>http_proc env req x = Inr y\<close> y by simp
    qed
  qed simp
qed

lemma http_proc_all_appendI:
  assumes "http_proc_all env req a = Inr (r1, e1)" and "http_proc_all env r1 b = Inr (r2, e2)"
  shows "http_proc_all env req (a @ b) = Inr (r2, e1 @ e2)"
  using assms by (simp add: http_proc_all_append)

text \<open>The calls for a list of headers, each name and value delivered whole.\<close>

definition header_calls :: "(string \<times> string) list \<Rightarrow> parser_call list" where
  "header_calls hs = concat (map (\<lambda>(n, v). [On_Header_Field n, On_Header_Value v]) hs)"

definition header_ok :: "string \<times> string \<Rightarrow> bool" where
  "header_ok h \<longleftrightarrow> snd h \<noteq> [] \<and> CHR 0x00 \<notin> set (fst h) \<and> CHR 0x00 \<notin> set (snd h)"

definition received :: "(string \<times> string) list \<Rightarrow> um_header_list" where
  "received hs = rev (map (\<lambda>(n, v). \<lparr>hdr_name = n, hdr_value = v\<rparr>) hs)"

lemma c_strndup_all: "CHR 0x00 \<notin> set s \<Longrightarrow> c_strndup s (length s) = s"
  by (auto simp: c_strndup_def takeWhile_eq_all_conv)

lemma header_calls_result:
  assumes "list_all header_ok hs" and "curr_header (req_resp req) = None"
  shows "http_proc_all env req (header_calls hs) =
     Inr (req\<lparr>req_resp := (req_resp req)\<lparr>resp_headers := received hs @ resp_headers (req_resp req)\<rparr>\<rparr>, [])"
  using assms
proof (induction hs arbitrary: req)
  case Nil
  then show ?case by (simp add: header_calls_def received_def)
next
  case (Cons h hs)
  obtain n v where h: "h = (n, v)" by (cases h)
  define r1 where "r1 = req\<lparr>req_resp := (req_resp req)\<lparr>resp_headers :=
      \<lparr>hdr_name = n, hdr_value = v\<rparr> # resp_headers (req_resp req)\<rparr>\<rparr>"
  have cur: "(req_resp req)\<lparr>curr_header := None\<rparr> = req_resp req"
    using Cons.prems(2) by (cases "req_resp req") simp
  have "http_proc_all env req (header_calls [h]) = Inr (r1, [])"
    using Cons.prems h cur
    by (simp add: header_calls_def http_proc_def http_header_field_cb_def http_header_value_cb_def
        header_ok_def r1_def c_strndup_all add_http_header_def Let_def)
  moreover have "http_proc_all env r1 (header_calls hs) =
      Inr (r1\<lparr>req_resp := (req_resp r1)\<lparr>resp_headers := received hs @ resp_headers (req_resp r1)\<rparr>\<rparr>, [])"
    using Cons by (simp add: r1_def)
  ultimately have "http_proc_all env req (header_calls [h] @ header_calls hs) =
      Inr (r1\<lparr>req_resp := (req_resp r1)\<lparr>resp_headers := received hs @ resp_headers (req_resp r1)\<rparr>\<rparr>, [] @ [])"
    by (rule http_proc_all_appendI)
  then show ?case
    by (simp add: header_calls_def r1_def received_def h)
qed

lemma body_calls_plain:
  assumes "req_inflater req = None"
  shows "http_proc_all env req (map On_Body bs) =
     Inr (req, if resp_body_cb (req_resp req) then map Body_Cb bs else [])"
  using assms by (induction bs) (simp_all add: http_proc_def http_body_cb_def)

lemma body_calls_inflate:
  assumes "zlib_stream (env_inflate env) plain" and "zlib_no_stall (env_inflate env)"
    and "zlib_final (env_inflate env) (env_zmsg env)" and "\<forall>b \<in> set bs. length b < 2 ^ 32"
    and "req_inflater req = Some ifl"
    and "inflater_inv (env_inflate env) (env_zmsg env) plain z0 fed given ifl"
  shows "\<exists>ifl' chunks.
    http_proc_all env req (map On_Body bs) = Inr (req\<lparr>req_inflater := Some ifl'\<rparr>, map Body_Cb chunks) \<and>
    inflater_inv (env_inflate env) (env_zmsg env) plain z0 (fed @ concat bs) (given @ concat chunks) ifl'"
  using assms(4-6)
proof (induction bs arbitrary: req ifl fed given)
  case Nil
  then show ?case by (intro exI [of _ ifl] exI [of _ "[]"]) (cases req, simp)
next
  case (Cons b bs)
  obtain rc ifl1 ch1 where i: "um_inflate (env_inflate env) ifl b = Some (rc, ifl1, ch1)"
    and inv: "inflater_inv (env_inflate env) (env_zmsg env) plain z0 (fed @ b) (given @ concat ch1) ifl1"
    using um_inflate_inv [OF assms(1-3) _ Cons.prems(3)] Cons.prems(1) by force
  obtain ifl' ch2 where r: "http_proc_all env (req\<lparr>req_inflater := Some ifl1\<rparr>) (map On_Body bs) =
      Inr (req\<lparr>req_inflater := Some ifl'\<rparr>, map Body_Cb ch2)"
    and inv': "inflater_inv (env_inflate env) (env_zmsg env) plain z0 ((fed @ b) @ concat bs)
        ((given @ concat ch1) @ concat ch2) ifl'"
    using Cons.IH [of "req\<lparr>req_inflater := Some ifl1\<rparr>" ifl1, OF _ _ inv] Cons.prems(1) by auto
  have "http_proc_all env req (map On_Body (b # bs)) =
      Inr (req\<lparr>req_inflater := Some ifl'\<rparr>, map Body_Cb (ch1 @ ch2))"
    using r i Cons.prems(2) by (simp add: http_proc_def http_body_cb_def)
  with inv' show ?case by (intro exI [of _ ifl'] exI [of _ "ch1 @ ch2"]) simp
qed

text \<open>The calls for a whole response.\<close>

definition response_calls ::
  "int \<Rightarrow> string \<Rightarrow> (string \<times> string) list \<Rightarrow> byte list list \<Rightarrow> parser_call list" where
  "response_calls code status hs bs =
     [On_Status code 1 1 status] @ header_calls hs @ [On_Headers_Complete] @ map On_Body bs @ [On_Message_Complete]"

text \<open>A request that waits for its response.\<close>

definition awaiting :: "('p, 'z) tlsuv_http_req \<Rightarrow> bool" where
  "awaiting req \<longleftrightarrow> has_resp_cb req \<and> req_inflater req = None \<and>
     resp_headers (req_resp req) = [] \<and> curr_header (req_resp req) = None"

definition with_head :: "('p, 'z) tlsuv_http_req \<Rightarrow> int \<Rightarrow> string \<Rightarrow> um_header_list \<Rightarrow> ('p, 'z) tlsuv_http_req" where
  "with_head req code status hl =
     req\<lparr>req_resp := (req_resp req)\<lparr>resp_code := code, http_version := ''1.1'',
        resp_status := Some (c_strndup status (length status)), resp_headers := hl\<rparr>\<rparr>"

lemma head_calls_result:
  assumes "awaiting req" and "list_all header_ok hs"
  shows "http_proc_all env req ([On_Status code 1 1 status] @ header_calls hs) =
     Inr (with_head req code status (received hs), [])"
proof -
  have one: "show_dec (Suc 0) = ''1''" by code_simp
  have same: "(req_resp req)\<lparr>resp_code := c, http_version := v, resp_status := s, resp_headers := []\<rparr> =
      (req_resp req)\<lparr>resp_code := c, http_version := v, resp_status := s\<rparr>" for c v s
    using assms(1) by (cases "req_resp req") (simp add: awaiting_def)
  have "http_proc_all env req [On_Status code 1 1 status] = Inr (with_head req code status [], [])"
    using one by (simp add: http_proc_def http_status_cb_def with_head_def same)
  moreover have "http_proc_all env (with_head req code status []) (header_calls hs) =
      Inr (with_head req code status (received hs), [])"
    using header_calls_result [OF assms(2), of "with_head req code status []"] assms(1)
    by (simp add: with_head_def awaiting_def)
  ultimately show ?thesis using http_proc_all_appendI by fastforce
qed

lemma headers_complete_plain:
  assumes "awaiting req" and "tlsuv_http_resp_header hl ''content-encoding'' = None"
  shows "http_proc_all env (with_head req code status hl) [On_Headers_Complete] =
    (let resp = req_resp (with_head req code status hl)
     in Inr ((with_head req code status hl)\<lparr>req_state := headers_received,
          req_resp := resp\<lparr>resp_body_cb := env_on_resp env resp\<rparr>\<rparr>, [Resp_Cb code hl]))"
  using assms by (simp add: http_proc_def http_headers_complete_cb_def with_head_def awaiting_def Let_def)

definition compressed_headers :: "um_header_list \<Rightarrow> um_header_list" where
  "compressed_headers hl =
     set_http_header (set_http_header hl ''content-length'' None) ''transfer-encoding'' (Some ''chunked'')"

lemma headers_complete_compressed:
  assumes "awaiting req" and "tlsuv_http_resp_header hl ''content-encoding'' = Some enc"
    and "enc = ''gzip'' \<or> enc = ''deflate''" and "resolved (env_so env) = 7"
    and "env_on_resp env (req_resp (with_head req code status (compressed_headers hl)))"
  shows "\<exists>r1. http_proc_all env (with_head req code status hl) [On_Headers_Complete] =
      Inr (r1, [Resp_Cb code (compressed_headers hl)]) \<and> resp_body_cb (req_resp r1) \<and>
      req_inflater r1 = Some \<lparr>zs = env_zinit env (enc = ''gzip''), inf_complete = 0\<rparr>"
proof -
  have on: "env_on_resp env ((req_resp req)\<lparr>resp_code := code, http_version := ''1.1'',
      resp_status := Some (c_strndup status (length status)), resp_headers := compressed_headers hl\<rparr>)"
    using assms(5) by (simp add: with_head_def)
  have rc: "has_resp_cb req" using assms(1) by (simp add: awaiting_def)
  from assms(3) have inf: "um_get_inflater (env_so env) (env_zinit env) enc =
      Inr (Some \<lparr>zs = env_zinit env (enc = ''gzip''), inf_complete = 0\<rparr>)"
    using assms(4) by (auto simp: um_get_inflater_def)
  show ?thesis
    using assms(2) on rc inf
    by (simp add: http_proc_def http_headers_complete_cb_def with_head_def compressed_headers_def Let_def)
qed

text \<open>
  llhttp may deliver a name or a value in several pieces when the input is split. The handlers keep
  only the last piece of a name and the first piece of a value.
\<close>

lemma split_header_is_damaged:
  assumes "CHR 0x00 \<notin> set n2" and "CHR 0x00 \<notin> set v1" and "v1 \<noteq> []"
    and "http_proc_all env req [On_Header_Field n1, On_Header_Field n2, On_Header_Value v1, On_Header_Value v2] =
       Inr (req', ev)"
  shows "resp_headers (req_resp req') = \<lparr>hdr_name = n2, hdr_value = v1\<rparr> # resp_headers (req_resp req)"
  using assms
  by (auto simp: http_proc_def http_header_field_cb_def http_header_value_cb_def add_http_header_def
      c_strndup_all Let_def)

section \<open>Properties\<close>

text \<open>
  C16. The request head: the writer returns a length below the size of the buffer exactly when the whole
  head fits, and then the buffer holds the request line, the headers in list order and the
  blank line, and nothing else.
\<close>

theorem http_req_write_exact:
  "http_req_write pfx req maxlen = Inr (len, buf, req1) \<and> len < maxlen \<longleftrightarrow>
     set_content_length req = Inr req1 \<and> len < maxlen \<and>
     len = length (request_head pfx req1) \<and> buf = request_head pfx req1"
proof
  assume a: "http_req_write pfx req maxlen = Inr (len, buf, req1) \<and> len < maxlen"
  then show "set_content_length req = Inr req1 \<and> len < maxlen \<and>
     len = length (request_head pfx req1) \<and> buf = request_head pfx req1"
    using http_req_write_sound [of pfx req maxlen len buf req1] by (auto simp: wrote_def)
next
  assume "set_content_length req = Inr req1 \<and> len < maxlen \<and>
     len = length (request_head pfx req1) \<and> buf = request_head pfx req1"
  then show "http_req_write pfx req maxlen = Inr (len, buf, req1) \<and> len < maxlen"
    using http_req_write_complete [of req req1 pfx maxlen] by simp
qed

text \<open>
  C28. The request line cannot be broken by the prefix or the path: whatever characters they contain,
  the first line of the head is the method, the target and the version separated by single blanks,
  the target has only visible ASCII characters (no blank, CR or LF), and percent-decoding it gives
  back the prefix followed by the path.
\<close>

theorem request_line_safe:
  assumes "CHR 0x0D \<notin> set (req_method req)"
  shows "takeWhile (\<lambda>c. c \<noteq> CHR 0x0D) (request_head pfx req) =
      req_method req @ '' '' @ request_target pfx req @ '' HTTP/1.1'' \<and>
    (\<forall>c \<in> set (request_target pfx req). 32 < (of_char c :: nat) \<and> (of_char c :: nat) < 128) \<and>
    percent_decode (request_target pfx req) = opt_prefix pfx @ req_path req"
proof -
  have "CHR 0x0D \<notin> set (request_target pfx req)"
    using request_target_visible [of pfx req] by (auto simp: url_visible_def)
  then have "CHR 0x0D \<notin> set (req_method req @ '' '' @ request_target pfx req @ '' HTTP/1.1'')"
    using assms by simp
  then have "takeWhile (\<lambda>c. c \<noteq> CHR 0x0D)
      ((req_method req @ '' '' @ request_target pfx req @ '' HTTP/1.1'') @
       CHR 0x0D # CHR 0x0A # concat (map header_line (req_headers req)) @ CRLF) =
      req_method req @ '' '' @ request_target pfx req @ '' HTTP/1.1''"
    by (subst takeWhile_append2) auto
  then show ?thesis
    using request_target_visible [of pfx req] request_target_decode [of pfx req]
    by (simp add: request_head_def CRLF_def url_visible_def)
qed

theorem request_line_safe_witness:
  "takeWhile (\<lambda>c. c \<noteq> CHR 0x0D)
     (request_head (Some ''/v1'') ((req_zero ()) \<lparr>req_method := ''GET'', req_path := ''/a b''\<rparr> :: (unit, unit) tlsuv_http_req)) =
   ''GET /v1/a%20b HTTP/1.1''"
proof -
  let ?r = "(req_zero ()) \<lparr>req_method := ''GET'', req_path := ''/a b''\<rparr> :: (unit, unit) tlsuv_http_req"
  have "request_target (Some ''/v1'') ?r = ''/v1/a%20b''" by code_simp
  then show ?thesis using request_line_safe [of ?r "Some ''/v1''"] by simp
qed



text \<open>
  C22. An uncompressed response: for a response whose parts the parser delivers whole, the response
  callback is called exactly once with the status code and the received headers, the body callback
  (when the response callback installs one) then gets every body part in order and unchanged and
  finally one call with \<open>UV_EOF\<close>, and the request ends in the state \<open>completed\<close>.
\<close>

theorem response_plain:
  assumes "awaiting req" and "list_all header_ok hs"
    and "tlsuv_http_resp_header (received hs) ''content-encoding'' = None"
  shows "\<exists>req'. http_proc_all env req (response_calls code status hs bs) =
      Inr (req', Resp_Cb code (received hs) #
        (if env_on_resp env (req_resp (with_head req code status (received hs)))
         then map Body_Cb bs @ [Body_End UV_EOF] else [])) \<and>
    req_state req' = completed \<and> resp_headers (req_resp req') = received hs \<and> resp_code (req_resp req') = code"
proof -
  let ?r0 = "with_head req code status (received hs)"
  define r1 where "r1 = ?r0\<lparr>req_state := headers_received,
      req_resp := (req_resp ?r0)\<lparr>resp_body_cb := env_on_resp env (req_resp ?r0)\<rparr>\<rparr>"
  have 1: "http_proc_all env ?r0 [On_Headers_Complete] = Inr (r1, [Resp_Cb code (received hs)])"
    using headers_complete_plain [OF assms(1,3), of env code status] by (simp add: r1_def Let_def)
  have none: "req_inflater r1 = None" using assms(1) by (simp add: r1_def with_head_def awaiting_def)
  note 2 = body_calls_plain [OF none, of env bs]
  have 3: "http_proc_all env r1 [On_Message_Complete] =
      Inr (r1\<lparr>req_state := completed\<rparr>, if resp_body_cb (req_resp r1) then [Body_End UV_EOF] else [])"
    using none by (simp add: http_proc_def http_message_cb_def Let_def)
  note all = http_proc_all_appendI [OF http_proc_all_appendI [OF http_proc_all_appendI
      [OF head_calls_result [OF assms(1,2)] 1] 2] 3]
  have "resp_body_cb (req_resp r1) = env_on_resp env (req_resp ?r0)" by (simp add: r1_def)
  with all show ?thesis by (simp add: response_calls_def r1_def with_head_def)
qed

definition demo_env :: "bool http_env" where
  "demo_env = \<lparr>env_so = \<lparr>so_opens = True, so_symbols = 7, so_version = ''1.2'', so_flags = 0\<rparr>,
     env_zinit = (\<lambda>g. False), env_inflate = stored_inflate, env_zmsg = (\<lambda>z. False), env_on_resp = (\<lambda>r. True)\<rparr>"

definition demo_req :: "(unit, bool) tlsuv_http_req" where
  "demo_req = (req_zero ())\<lparr>has_resp_cb := True\<rparr>"

lemma demo_awaiting: "awaiting demo_req"
  by (simp add: demo_req_def req_zero_def awaiting_def resp_zero_def)

theorem response_plain_witness:
  "\<exists>req'. http_proc_all demo_env demo_req (response_calls 200 ''OK'' [(''Server'', ''x'')] [[1, 2], [3]]) =
     Inr (req', [Resp_Cb 200 [\<lparr>hdr_name = ''Server'', hdr_value = ''x''\<rparr>], Body_Cb [1, 2], Body_Cb [3], Body_End UV_EOF])"
proof -
  have "list_all header_ok [(''Server'', ''x'')]" by (simp add: header_ok_def)
  moreover have "tlsuv_http_resp_header (received [(''Server'', ''x'')]) ''content-encoding'' = None" by code_simp
  ultimately show ?thesis
    using response_plain [OF demo_awaiting, of "[(''Server'', ''x'')]" demo_env 200 "''OK''" "[[1, 2], [3]]"]
    by (auto simp: demo_env_def received_def)
qed



end
