(* ===== verification/Tls_Engine.thy ===== *)
theory Tls_Engine
  imports Prelude
begin

text \<open>
  The interface between the library and a TLS implementation, from \<open>include/tlsuv/tls_engine.h\<close>, and
  the choice of the default implementation in \<open>src/tls_engine.c\<close> and \<open>src/tlsuv.c\<close>. An engine is a
  state with operations that turn the bytes of the peer into plain text and plain text into bytes
  for the peer; the operations never do I/O themselves. The locale \<open>tls_transport\<close> states what the
  link that drives an engine relies on.
\<close>

section \<open>Data\<close>

datatype tls_handshake_state = TLS_HS_BEFORE | TLS_HS_CONTINUE | TLS_HS_COMPLETE | TLS_HS_ERROR

datatype hash_algo = hash_SHA256 | hash_SHA384 | hash_SHA512

definition TLS_OK :: int where "TLS_OK = 0"
definition TLS_ERR :: int where "TLS_ERR = -1"
definition TLS_EOF :: int where "TLS_EOF = -2"
definition TLS_READ_AGAIN :: int where "TLS_READ_AGAIN = -3"
definition TLS_MORE_AVAILABLE :: int where "TLS_MORE_AVAILABLE = -4"
definition TLS_HAS_WRITE :: int where "TLS_HAS_WRITE = -5"

named_theorems tls_codes \<open>the numeric values of the engine results\<close>

declare TLS_OK_def [tls_codes] TLS_ERR_def [tls_codes] TLS_EOF_def [tls_codes]
  TLS_READ_AGAIN_def [tls_codes] TLS_MORE_AVAILABLE_def [tls_codes] TLS_HAS_WRITE_def [tls_codes]

text \<open>
  The operations of an engine whose state is \<open>'e\<close>. Each takes the input bytes and the size of the
  output buffer and returns its result code, the bytes it put into the buffer and the new state. An
  operation that overruns a buffer or does not return is an undefined-behaviour value. \<open>reset\<close> may be
  a null pointer.
\<close>

record 'e tls_engine_api =
  handshake_state :: "'e \<Rightarrow> tls_handshake_state"
  handshake :: "'e \<Rightarrow> byte list \<Rightarrow> nat \<Rightarrow> ub + tls_handshake_state \<times> byte list \<times> 'e"
  api_close :: "'e \<Rightarrow> nat \<Rightarrow> ub + int \<times> byte list \<times> 'e"
  api_write :: "'e \<Rightarrow> byte list \<Rightarrow> nat \<Rightarrow> ub + int \<times> byte list \<times> 'e"
  api_read :: "'e \<Rightarrow> byte list \<Rightarrow> nat \<Rightarrow> ub + int \<times> byte list \<times> 'e"
  api_reset :: "('e \<Rightarrow> int \<times> 'e) option"

section \<open>The default implementation\<close>

text \<open>
  \<open>tls_engine.c\<close> keeps a factory, \<open>tlsuv.c\<close> the context it made first; \<open>'c\<close> is the type of contexts and a
  factory that fails returns \<open>None\<close>. Every request while there is no context registers the clean-up
  function again, whose calls \<open>exit_calls\<close> counts.
\<close>

type_synonym 'c tls_context_factory = "string option \<Rightarrow> 'c option"

record 'c tls_globals =
  factory :: "'c tls_context_factory option"
  DEFAULT_TLS :: "'c option"
  exit_calls :: nat

definition set_default_tls_impl :: "'c tls_globals \<Rightarrow> 'c tls_context_factory option \<Rightarrow> 'c tls_globals" where
  "set_default_tls_impl g f = g\<lparr>factory := f\<rparr>"

definition default_tls_context :: "'c tls_globals \<Rightarrow> string option \<Rightarrow> 'c option" where
  "default_tls_context g ca = (case factory g of None \<Rightarrow> None | Some f \<Rightarrow> f ca)"

definition get_default_tls :: "'c tls_globals \<Rightarrow> 'c option \<times> 'c tls_globals" where
  "get_default_tls g =
     (case DEFAULT_TLS g of
        None \<Rightarrow>
          (let c = default_tls_context g None
           in (c, g\<lparr>DEFAULT_TLS := c, exit_calls := exit_calls g + 1\<rparr>))
      | Some c \<Rightarrow> (Some c, g))"

text \<open>The clean-up returns the context it frees.\<close>

definition free_default_tls :: "'c tls_globals \<Rightarrow> 'c list \<times> 'c tls_globals" where
  "free_default_tls g =
     (case DEFAULT_TLS g of None \<Rightarrow> ([], g) | Some c \<Rightarrow> ([c], g\<lparr>DEFAULT_TLS := None\<rparr>))"

text \<open>The clean-up calls of the program's exit.\<close>

primrec run_exit_calls :: "nat \<Rightarrow> 'c tls_globals \<Rightarrow> 'c list \<times> 'c tls_globals" where
  "run_exit_calls 0 g = ([], g)"
| "run_exit_calls (Suc n) g =
     (let (f1, g1) = free_default_tls g; (f2, g2) = run_exit_calls n g1 in (f1 @ f2, g2))"

lemma run_exit_calls_done: "DEFAULT_TLS g = None \<Longrightarrow> run_exit_calls n g = ([], g)"
  by (induction n) (simp_all add: free_default_tls_def)

text \<open>The context is made once, returned from then on, and freed once at exit.\<close>

lemma default_tls_once:
  assumes "get_default_tls g = (Some c, g1)"
  shows "get_default_tls g1 = (Some c, g1)"
    and "exit_calls g1 > 0 \<Longrightarrow> fst (run_exit_calls (exit_calls g1) g1) = [c]"
proof -
  have d: "DEFAULT_TLS g1 = Some c"
    using assms by (auto simp: get_default_tls_def Let_def split: option.splits)
  then show "get_default_tls g1 = (Some c, g1)" by (simp add: get_default_tls_def)
  assume "exit_calls g1 > 0"
  then obtain n where "exit_calls g1 = Suc n" using gr0_conv_Suc by blast
  with d show "fst (run_exit_calls (exit_calls g1) g1) = [c]"
    by (simp add: free_default_tls_def run_exit_calls_done)
qed

section \<open>What a link relies on\<close>

text \<open>
  \<open>plain e\<close> is the plain text the engine can produce from the bytes it was given but has not handed
  out; \<open>more e inp\<close> the plain text that \<open>inp\<close> completes; \<open>outq e\<close> the bytes for the peer that wait in the
  engine and \<open>enc e data\<close> the bytes that \<open>data\<close> adds to them. \<open>ready\<close> holds for engines in good order
  after the handshake. A read into a buffer that is not empty gives the next part of the plain text:
  all of it when the result is \<open>TLS_OK\<close> or \<open>TLS_EOF\<close>, and a full buffer when it is one of the codes for
  more. A successful write returns the number of bytes that still wait.
\<close>

locale tls_transport =
  fixes api :: "'e tls_engine_api"
    and ready :: "'e \<Rightarrow> bool"
    and plain :: "'e \<Rightarrow> byte list"
    and more :: "'e \<Rightarrow> byte list \<Rightarrow> byte list"
    and outq :: "'e \<Rightarrow> byte list"
    and enc :: "'e \<Rightarrow> byte list \<Rightarrow> byte list"
  assumes ready_state: "ready e \<Longrightarrow> handshake_state api e = TLS_HS_COMPLETE"
    and more_nothing: "more e [] = []"
    and read_returns: "ready e \<Longrightarrow> n > 0 \<Longrightarrow> \<exists>rc out e'. api_read api e inp n = Inr (rc, out, e')"
    and read_part: "ready e \<Longrightarrow> n > 0 \<Longrightarrow> api_read api e inp n = Inr (rc, out, e') \<Longrightarrow>
      length out \<le> n \<and> (\<exists>rest. plain e @ more e inp = out @ rest)"
    and read_all: "ready e \<Longrightarrow> n > 0 \<Longrightarrow> api_read api e inp n = Inr (rc, out, e') \<Longrightarrow>
      rc = TLS_OK \<or> rc = TLS_EOF \<Longrightarrow> out = plain e @ more e inp \<and> plain e' = []"
    and read_more: "ready e \<Longrightarrow> n > 0 \<Longrightarrow> api_read api e inp n = Inr (rc, out, e') \<Longrightarrow>
      rc = TLS_MORE_AVAILABLE \<or> rc = TLS_READ_AGAIN \<Longrightarrow>
      length out = n \<and> out @ plain e' = plain e @ more e inp"
    and read_ready: "ready e \<Longrightarrow> n > 0 \<Longrightarrow> api_read api e inp n = Inr (rc, out, e') \<Longrightarrow>
      rc \<noteq> TLS_EOF \<Longrightarrow> rc \<noteq> TLS_ERR \<Longrightarrow> ready e'"
    and write_returns: "ready e \<Longrightarrow> \<exists>rc out e'. api_write api e data n = Inr (rc, out, e')"
    and write_result: "ready e \<Longrightarrow> length (outq e @ enc e data) < 2 ^ 31 \<Longrightarrow> n < 2 ^ 31 \<Longrightarrow>
      api_write api e data n = Inr (rc, out, e') \<Longrightarrow> rc \<ge> 0 \<Longrightarrow>
      ready e' \<and> out = take n (outq e @ enc e data) \<and> outq e' = drop n (outq e @ enc e data) \<and>
      rc = int (length (outq e'))"
    and enc_nothing: "enc e [] = []"

text \<open>
  The laws of the handshake: it has ended exactly when the engine says so, and the engine can be reset,
  after which it has not ended.
\<close>

locale tls_handshaking =
  fixes api :: "'e tls_engine_api"
    and good :: "'e \<Rightarrow> bool"
  assumes hs_complete: "good e \<Longrightarrow> handshake_state api e \<noteq> TLS_HS_COMPLETE \<Longrightarrow>
      handshake api e inp n = Inr (st, out, e') \<Longrightarrow>
      good e' \<and> (handshake_state api e' = TLS_HS_COMPLETE \<longleftrightarrow> st = TLS_HS_COMPLETE)"
    and has_reset: "api_reset api \<noteq> None"
    and reset_state: "good e \<Longrightarrow> api_reset api = Some reset \<Longrightarrow>
      good (snd (reset e)) \<and> handshake_state api (snd (reset e)) \<noteq> TLS_HS_COMPLETE"
    and reads_good: "good e \<Longrightarrow> api_read api e inp n = Inr (rc, out, e') \<Longrightarrow> good e'"
    and flush_good: "good e \<Longrightarrow> api_write api e [] n = Inr (rc, out, e') \<Longrightarrow> good e'"

end
