(* ===== verification/Http_Client.thy ===== *)
theory Http_Client
  imports Http_Req Url Tls_Engine
begin

text \<open>
  The HTTP client of \<open>src/http.c\<close>: one connection, a queue of requests and the active request. The
  client is driven by API calls and by the callbacks that libuv, the link chain and the connection
  source make; each is one function here. The state keeps, beside the fields of \<open>tlsuv_http_t\<close>, what
  libuv holds for the client: the timer that is armed, whether the async handle \<open>proc\<close> has a pending
  wake-up, the number of link closings and of body writes whose callbacks are outstanding. Calls
  to other components and to user callbacks are outputs, in order. User callbacks do not call back
  into the client in this model, except that the response callback may install a body callback.
\<close>

unbundle bit_operations_syntax

section \<open>Request states are ordered\<close>

definition state_index :: "http_request_state \<Rightarrow> nat" where
  "state_index s =
     (case s of created \<Rightarrow> 0 | headers_sent \<Rightarrow> 1 | body_sent \<Rightarrow> 2 | headers_received \<Rightarrow> 3 | completed \<Rightarrow> 4)"

instantiation http_request_state :: linorder
begin

definition less_eq_http_request_state :: "http_request_state \<Rightarrow> http_request_state \<Rightarrow> bool" where
  "less_eq_http_request_state a b \<longleftrightarrow> state_index a \<le> state_index b"

definition less_http_request_state :: "http_request_state \<Rightarrow> http_request_state \<Rightarrow> bool" where
  "less_http_request_state a b \<longleftrightarrow> state_index a < state_index b"

instance
  by standard (auto simp: less_eq_http_request_state_def less_http_request_state_def state_index_def
      split: http_request_state.splits)

end

lemmas request_state_order = less_eq_http_request_state_def less_http_request_state_def

section \<open>Data\<close>

datatype status = Disconnected | Connecting | Handshaking | Connected

datatype conn_timer = Timer_Stopped | Timer_Idle int | Timer_Connect int

text \<open>
  A request is known by a number, which stands for its address; numbers are not used twice.
  \<open>clt_engine\<close> is the host name for which the TLS engine was made.
\<close>

type_synonym ('p, 'z) req_ref = "nat \<times> ('p, 'z) tlsuv_http_req"

record ('p, 'z) tlsuv_http =
  clt_host :: "string option"
  clt_port :: string
  clt_prefix :: "string option"
  host_change :: bool
  clt_ssl :: bool
  clt_tls :: bool
  clt_engine :: "string option"
  clt_headers :: um_header_list
  connected :: status
  own_src :: bool
  has_src :: bool
  connect_timeout :: int
  idle_time :: int
  conn_timer :: conn_timer
  proc_ref :: bool
  proc_pending :: bool
  proc_closing :: bool
  active :: "('p, 'z) req_ref option"
  requests :: "('p, 'z) req_ref list"
  links_closing :: nat
  body_writes :: "(nat \<times> body_chunk) list"
  next_req :: nat

datatype client_out =
    User_Http nat http_event
  | User_Chunk nat "byte list" int
  | Link_Write "byte list"
  | Link_Close
  | Link_Read_Start
  | Src_Connect string string
  | Src_Cancel
  | Src_Release
  | Src_Free
  | Engine_New string
  | Engine_Free string
  | Req_Free nat
  | User_Close

text \<open>What the client runs in: the parser, the handlers' environment and the connection source.\<close>

record ('p, 'z) client_env =
  cl_exec :: "'p llhttp_exec"
  cl_resume :: "'p \<Rightarrow> 'p"
  cl_parser0 :: 'p
  cl_http :: "'z http_env"
  cl_connect :: "string \<Rightarrow> string \<Rightarrow> int"

type_synonym ('p, 'z) client_result = "ub + ('p, 'z) tlsuv_http \<times> client_out list"

text \<open>Sequencing: the outputs of both steps, in order.\<close>

definition client_then ::
  "('p, 'z) client_result \<Rightarrow> (('p, 'z) tlsuv_http \<Rightarrow> ('p, 'z) client_result) \<Rightarrow> ('p, 'z) client_result" where
  "client_then x f = ub_bind x (\<lambda>(c1, o1). ub_bind (f c1) (\<lambda>(c2, o2). Inr (c2, o1 @ o2)))"

definition text_bytes :: "string \<Rightarrow> byte list" where
  "text_bytes s = map of_char s"

definition uv_async_send :: "('p, 'z) tlsuv_http \<Rightarrow> ('p, 'z) tlsuv_http" where
  "uv_async_send c = c\<lparr>proc_pending := True\<rparr>"

section \<open>The URL and the configuration\<close>

definition http_set_prefix :: "('p, 'z) tlsuv_http \<Rightarrow> string option \<Rightarrow> nat \<Rightarrow> ('p, 'z) tlsuv_http" where
  "http_set_prefix clt pfx pfx_len = clt\<lparr>clt_prefix := map_option (take pfx_len) pfx\<rparr>"

definition tlsuv_http_header :: "('p, 'z) tlsuv_http \<Rightarrow> string \<Rightarrow> string option \<Rightarrow> ('p, 'z) tlsuv_http" where
  "tlsuv_http_header clt name val = clt\<lparr>clt_headers := set_http_header (clt_headers clt) name val\<rparr>"

text \<open>The default port of the scheme, and whether it asks for TLS; \<open>None\<close> when it is not supported.\<close>

definition http_scheme_port :: "string \<Rightarrow> nat \<Rightarrow> (uint16 \<times> bool) option" where
  "http_scheme_port scheme len =
     (if strncasecmp_eq ''http'' scheme len then Some (80, False)
      else if strncasecmp_eq ''https'' scheme len then Some (443, True)
      else None)"

definition tlsuv_http_set_url :: "('p, 'z) tlsuv_http \<Rightarrow> string \<Rightarrow> int \<times> ('p, 'z) tlsuv_http" where
  "tlsuv_http_set_url clt url =
     (let (rc, u) = tlsuv_parse_url url
      in if rc \<noteq> 0 then (UV_EINVAL, clt)
         else case url_scheme u of None \<Rightarrow> (UV_EINVAL, clt)
         | Some scheme \<Rightarrow>
           (case url_hostname u of None \<Rightarrow> (UV_EINVAL, clt)
            | Some hostname \<Rightarrow>
              (case http_scheme_port scheme (url_scheme_len u) of None \<Rightarrow> (UV_EINVAL, clt)
               | Some (dflt, tls) \<Rightarrow>
                   (let c1 = (if tls then clt\<lparr>clt_ssl := True\<rparr> else clt);
                        c2 = (if clt_host c1 \<noteq> None then c1\<lparr>host_change := True\<rparr> else c1);
                        c3 = c2\<lparr>clt_headers := set_http_header (clt_headers c2) ''Host'' None\<rparr>;
                        h = c_strndup hostname (url_hostname_len u);
                        c4 = tlsuv_http_header (c3\<lparr>clt_host := Some h\<rparr>) ''Host'' (Some h);
                        port = (if url_port u \<noteq> 0 then url_port u else dflt);
                        c5 = c4\<lparr>clt_port := show_dec (unat port)\<rparr>
                    in (0, if url_path u \<noteq> None then http_set_prefix c5 (url_path u) (url_path_len u)
                           else c5)))))"

text \<open>
  \<open>tlsuv_http_init_with_src\<close>: the fields it sets, before the URL is looked at. \<open>tlsuv_http_t\<close> is the
  caller's memory; every field that is read later is set here.
\<close>

definition http_fields_init :: "('p, 'z) tlsuv_http" where
  "http_fields_init = \<lparr>clt_host = None, clt_port = [], clt_prefix = None, host_change = False,
     clt_ssl = False, clt_tls = False, clt_engine = None, clt_headers = [], connected = Disconnected,
     own_src = False, has_src = True, connect_timeout = 0, idle_time = 0, conn_timer = Timer_Stopped,
     proc_ref = False, proc_pending = False, proc_closing = False, active = None, requests = [],
     links_closing = 0, body_writes = [], next_req = 0\<rparr>"

definition tlsuv_http_init_with_src :: "zlib_so \<Rightarrow> string \<Rightarrow> int \<times> ('p, 'z) tlsuv_http" where
  "tlsuv_http_init_with_src so url =
     (let (rc, clt) = tlsuv_http_set_url http_fields_init url
      in if rc \<noteq> 0 then (rc, clt)
         else
           (let c1 = tlsuv_http_header clt ''Connection'' (Some ''keep-alive'')
            in case um_available_encoding so of
                 None \<Rightarrow> (0, c1)
               | Some enc \<Rightarrow> (0, tlsuv_http_header c1 ''Accept-Encoding'' (Some enc))))"

definition tlsuv_http_init :: "zlib_so \<Rightarrow> string \<Rightarrow> int \<times> ('p, 'z) tlsuv_http" where
  "tlsuv_http_init so url =
     (let (rc, clt) = tlsuv_http_init_with_src so url in (rc, clt\<lparr>own_src := True\<rparr>))"

text \<open>\<open>strlen(prefix)\<close> is evaluated before the null test in \<open>http_set_prefix\<close>.\<close>

definition tlsuv_http_set_path_prefix :: "('p, 'z) tlsuv_http \<Rightarrow> string option \<Rightarrow> ('p, 'z) client_result" where
  "tlsuv_http_set_path_prefix clt prefix =
     (case prefix of
        None \<Rightarrow> Inl Null_Deref
      | Some p \<Rightarrow> Inr (http_set_prefix clt (Some p) (length p), []))"

definition tlsuv_http_connect_timeout :: "('p, 'z) tlsuv_http \<Rightarrow> int \<Rightarrow> ('p, 'z) tlsuv_http" where
  "tlsuv_http_connect_timeout clt millis = clt\<lparr>connect_timeout := millis\<rparr>"

definition tlsuv_http_idle_keepalive :: "('p, 'z) tlsuv_http \<Rightarrow> int \<Rightarrow> ('p, 'z) tlsuv_http" where
  "tlsuv_http_idle_keepalive clt millis = clt\<lparr>idle_time := millis\<rparr>"

definition tlsuv_http_set_ssl :: "('p, 'z) tlsuv_http \<Rightarrow> bool \<Rightarrow> ('p, 'z) tlsuv_http" where
  "tlsuv_http_set_ssl clt tls = clt\<lparr>clt_tls := tls\<rparr>"

section \<open>Failing requests\<close>

text \<open>The callbacks of \<open>clear_req_body\<close>, one for every chunk that has a callback.\<close>

fun clear_req_body :: "nat \<Rightarrow> body_chunk list \<Rightarrow> int \<Rightarrow> client_out list" where
  "clear_req_body rid [] code = []"
| "clear_req_body rid (chunk # rest) code =
     (if bc_cb chunk then [User_Chunk rid (bc_chunk chunk) code] else []) @ clear_req_body rid rest code"

definition fail_resp :: "('p, 'z) req_ref \<Rightarrow> int \<Rightarrow> client_out list" where
  "fail_resp r code = [User_Http (fst r) (Resp_Cb code (resp_headers (req_resp (snd r))))]"

text \<open>The loop over the queue.\<close>

fun fail_queue :: "('p, 'z) tlsuv_http \<Rightarrow> int \<Rightarrow> ('p, 'z) req_ref list \<Rightarrow> ('p, 'z) tlsuv_http \<times> client_out list" where
  "fail_queue c code [] = (c\<lparr>requests := []\<rparr>, [])"
| "fail_queue c code (r # rs) =
     (let (c1, o1) = (if has_resp_cb (snd r) then (c\<lparr>proc_ref := False\<rparr>, fail_resp r code) else (c, []));
          (c2, o2) = fail_queue c1 code rs
      in (c2, o1 @ clear_req_body (fst r) (req_body (snd r)) code @ [Req_Free (fst r)] @ o2))"

definition fail_active_request :: "('p, 'z) tlsuv_http \<Rightarrow> int \<Rightarrow> ('p, 'z) tlsuv_http \<times> client_out list" where
  "fail_active_request c code =
     (let (c1, o1) =
        (case active c of
           None \<Rightarrow> (c, [])
         | Some a \<Rightarrow>
             if has_resp_cb (snd a)
             then (c\<lparr>active := None\<rparr>,
                   fail_resp a code @ clear_req_body (fst a) (req_body (snd a)) code @ [Req_Free (fst a)])
             else (c, []));
          (c2, o2) = fail_queue c1 code (requests c1)
      in (c2, o1 @ o2))"

section \<open>The connection\<close>

definition close_connection :: "('p, 'z) tlsuv_http \<Rightarrow> ('p, 'z) tlsuv_http \<times> client_out list" where
  "close_connection c =
     (let c1 = c\<lparr>conn_timer := Timer_Stopped\<rparr>
      in case connected c1 of
           Handshaking \<Rightarrow> (c1\<lparr>links_closing := Suc (links_closing c1), connected := Disconnected\<rparr>, [Link_Close])
         | Connected \<Rightarrow> (c1\<lparr>links_closing := Suc (links_closing c1), connected := Disconnected\<rparr>, [Link_Close])
         | Connecting \<Rightarrow> (c1\<lparr>connected := Disconnected\<rparr>, [])
         | Disconnected \<Rightarrow> (c1, []))"

text \<open>The engine is freed through a pointer that is not tested.\<close>

definition make_links_tls :: "('p, 'z) tlsuv_http \<Rightarrow> ('p, 'z) client_result" where
  "make_links_tls clt =
     (let c1 = clt\<lparr>clt_tls := True\<rparr>;
          change =
            (if host_change c1
             then (case clt_engine c1 of
                     None \<Rightarrow> Inl Null_Deref
                   | Some h \<Rightarrow> Inr (c1\<lparr>clt_engine := None, host_change := False\<rparr>, [Engine_Free h]))
             else Inr (c1, []))
      in client_then change (\<lambda>c2.
           case clt_engine c2 of
             Some h \<Rightarrow> Inr (c2, [])
           | None \<Rightarrow>
               (case clt_host c2 of
                  None \<Rightarrow> Inl Null_Deref
                | Some h \<Rightarrow> Inr (c2\<lparr>clt_engine := Some h\<rparr>, [Engine_New h]))))"

definition make_links :: "('p, 'z) tlsuv_http \<Rightarrow> ('p, 'z) client_result" where
  "make_links clt =
     client_then
       (if clt_ssl clt
        then client_then (make_links_tls clt) (\<lambda>c. Inr (c\<lparr>connected := Handshaking\<rparr>, []))
        else Inr (clt, []))
       (\<lambda>c. Inr (if clt_ssl c then c else uv_async_send (c\<lparr>connected := Connected\<rparr>), [Link_Read_Start]))"

definition link_close_cb :: "('p, 'z) tlsuv_http \<Rightarrow> ('p, 'z) client_result" where
  "link_close_cb clt =
     (if \<not> has_src clt then Inl Null_Deref
      else Inr (uv_async_send (clt\<lparr>links_closing := links_closing clt - 1\<rparr>), [Src_Release]))"

definition src_connect_cb :: "('p, 'z) tlsuv_http \<Rightarrow> int \<Rightarrow> ('p, 'z) client_result" where
  "src_connect_cb clt st =
     (let c1 = clt\<lparr>conn_timer := Timer_Stopped\<rparr>
      in if st = 0 then
           (case connected c1 of
              Connecting \<Rightarrow> make_links c1
            | Disconnected \<Rightarrow> Inr (c1, [Src_Cancel])
            | Handshaking \<Rightarrow> Inr (c1, [])
            | Connected \<Rightarrow> Inr (c1, []))
         else
           (let (c2, o2) = fail_active_request (c1\<lparr>connected := Disconnected\<rparr>) st
            in Inr (uv_async_send c2, o2)))"

definition src_connect_timeout :: "('p, 'z) tlsuv_http \<Rightarrow> ('p, 'z) client_result" where
  "src_connect_timeout clt = client_then (src_connect_cb clt UV_ETIMEDOUT) (\<lambda>c. Inr (c, [Src_Cancel]))"

definition on_tls_handshake :: "('p, 'z) tlsuv_http \<Rightarrow> tls_handshake_state \<Rightarrow> ('p, 'z) tlsuv_http \<times> client_out list" where
  "on_tls_handshake clt st =
     (case st of
        TLS_HS_COMPLETE \<Rightarrow> (uv_async_send (clt\<lparr>connected := Connected\<rparr>), [])
      | TLS_HS_ERROR \<Rightarrow>
          (let (c1, o1) = close_connection clt; (c2, o2) = fail_active_request c1 UV_ECONNABORTED
           in (c2, o1 @ o2))
      | _ \<Rightarrow> close_connection clt)"

definition idle_timeout :: "('p, 'z) tlsuv_http \<Rightarrow> ('p, 'z) tlsuv_http \<times> client_out list" where
  "idle_timeout clt = close_connection clt"

section \<open>Sending\<close>

definition hex_digit :: "nat \<Rightarrow> char" where
  "hex_digit d = char_of (if d < 10 then 48 + d else 87 + d)"

fun show_hex :: "nat \<Rightarrow> string" where
  "show_hex n = (if n < 16 then [hex_digit n] else show_hex (n div 16) @ [hex_digit (n mod 16)])"

declare show_hex.simps [simp del]

text \<open>
  The chunk header is printed into 10 bytes and then sent with the length \<open>snprintf\<close> returned. At 10
  characters the last byte sent is the NUL that ended the truncated text; beyond that the write
  reads past the allocation.
\<close>

definition chunk_header :: "nat \<Rightarrow> ub + string" where
  "chunk_header len =
     (let s = show_hex len @ CRLF
      in if length s < 10 then Inr s
         else if length s = 10 then Inr (take 9 s @ [CHR 0x00])
         else Inl Out_Of_Bounds_Read)"

text \<open>One turn of the loop of \<open>send_body\<close>: the request and the writes. The comparison with \<open>req_body_size\<close> is unsigned.\<close>

definition send_chunk ::
  "('p, 'z) tlsuv_http_req \<Rightarrow> body_chunk \<Rightarrow> ub + ('p, 'z) tlsuv_http_req \<times> byte list list \<times> body_chunk list" where
  "send_chunk req b =
     (let len = length (bc_chunk b);
          req1 = req\<lparr>body_sent_size := body_sent_size req + len\<rparr>
      in if req_chunked req1 then
           (if len > 0
            then ub_bind (chunk_header len) (\<lambda>h.
                   Inr (req1, [text_bytes h, bc_chunk b, text_bytes CRLF], [b]))
            else Inr (req1\<lparr>req_state := body_sent\<rparr>, [text_bytes (''0'' @ CRLF @ CRLF)], []))
         else
           Inr (if int (body_sent_size req1) \<ge> req_body_size req1 mod 2 ^ 64
                then req1\<lparr>req_state := body_sent\<rparr> else req1,
                [bc_chunk b], [b]))"

fun send_body_loop ::
  "('p, 'z) tlsuv_http_req \<Rightarrow> body_chunk list \<Rightarrow> ub + ('p, 'z) tlsuv_http_req \<times> byte list list \<times> body_chunk list" where
  "send_body_loop req [] = Inr (req\<lparr>req_body := []\<rparr>, [], [])"
| "send_body_loop req (b # bs) =
     ub_bind (send_chunk req b) (\<lambda>(req1, w1, p1).
       ub_bind (send_body_loop req1 bs) (\<lambda>(req2, w2, p2). Inr (req2, w1 @ w2, p1 @ p2)))"

definition send_body ::
  "('p, 'z) tlsuv_http_req \<Rightarrow> ub + ('p, 'z) tlsuv_http_req \<times> byte list list \<times> body_chunk list" where
  "send_body req = send_body_loop req (req_body req)"

definition HEAD_SIZE :: nat where "HEAD_SIZE = 8196"

text \<open>The head is sent with the length that \<open>http_req_write\<close> returned.\<close>

definition send_head ::
  "string option \<Rightarrow> ('p, 'z) tlsuv_http_req \<Rightarrow> ub + ('p, 'z) tlsuv_http_req \<times> byte list list" where
  "send_head prefix req =
     ub_bind (http_req_write prefix req HEAD_SIZE) (\<lambda>(len, buf, req1).
       if len > HEAD_SIZE then Inl Out_Of_Bounds_Read
       else Inr (req1\<lparr>req_state := headers_sent\<rparr>, [text_bytes buf]))"

text \<open>The part of \<open>process_requests\<close> that runs for the active request on a connected link.\<close>

definition send_active :: "('p, 'z) tlsuv_http \<Rightarrow> ('p, 'z) req_ref \<Rightarrow> ('p, 'z) client_result" where
  "send_active c a =
     ub_bind (if req_state (snd a) < headers_sent then send_head (clt_prefix c) (snd a) else Inr (snd a, []))
       (\<lambda>(r1, w1).
     ub_bind (if req_state r1 < body_sent then send_body r1 else Inr (r1, [], [])) (\<lambda>(r2, w2, sent).
       Inr (c\<lparr>active := Some (fst a, r2), body_writes := body_writes c @ map (Pair (fst a)) sent\<rparr>,
            map Link_Write (w1 @ w2))))"

text \<open>\<open>c->src->connect\<close> is called with the host and the port; a failure is reported at once.\<close>

definition start_connect :: "('p, 'z) client_env \<Rightarrow> ('p, 'z) tlsuv_http \<Rightarrow> ('p, 'z) client_result" where
  "start_connect env c =
     (let c1 = c\<lparr>connected := Connecting\<rparr>;
          c2 = (if connect_timeout c1 > 0 then c1\<lparr>conn_timer := Timer_Connect (connect_timeout c1)\<rparr> else c1)
      in case clt_host c2 of
           None \<Rightarrow> Inl Null_Deref
         | Some host \<Rightarrow>
             (let rc = cl_connect env host (clt_port c2); out = [Src_Connect host (clt_port c2)]
              in if rc \<noteq> 0 then client_then (Inr (c2, out)) (\<lambda>c. src_connect_cb c rc)
                 else Inr (c2, out)))"

definition take_next :: "('p, 'z) tlsuv_http \<Rightarrow> ('p, 'z) tlsuv_http" where
  "take_next c =
     (if active c = None
      then (case requests c of [] \<Rightarrow> c | r # rs \<Rightarrow> c\<lparr>active := Some r, requests := rs\<rparr>)
      else c)"

definition process_requests :: "('p, 'z) client_env \<Rightarrow> ('p, 'z) tlsuv_http \<Rightarrow> ('p, 'z) client_result" where
  "process_requests env c0 =
     (let c = take_next (c0\<lparr>proc_pending := False\<rparr>)
      in case active c of
           None \<Rightarrow>
             Inr ((if connected c = Connected \<and> idle_time c \<ge> 0
                   then c\<lparr>conn_timer := Timer_Idle (idle_time c)\<rparr> else c)\<lparr>proc_ref := False\<rparr>, [])
         | Some a \<Rightarrow>
             if connected c = Disconnected then start_connect env c
             else if connected c = Connected then send_active c a
             else Inr (c, []))"

text \<open>The completion of a body write: \<open>req_write_body_cb\<close>.\<close>

definition req_write_body_cb :: "('p, 'z) tlsuv_http \<Rightarrow> int \<Rightarrow> ('p, 'z) tlsuv_http \<times> client_out list" where
  "req_write_body_cb c st =
     (case body_writes c of
        [] \<Rightarrow> (c, [])
      | (rid, b) # ws \<Rightarrow> (c\<lparr>body_writes := ws\<rparr>, if bc_cb b then [User_Chunk rid (bc_chunk b) st] else []))"

section \<open>Requests\<close>

text \<open>The client headers are copied in list order, each put at the head of the new list.\<close>

definition copy_headers :: "um_header_list \<Rightarrow> um_header_list \<Rightarrow> um_header_list" where
  "copy_headers from hl = foldl (\<lambda>hl h. set_http_header hl (hdr_name h) (Some (hdr_value h))) hl from"

definition tlsuv_http_req ::
  "('p, 'z) client_env \<Rightarrow> ('p, 'z) tlsuv_http \<Rightarrow> string \<Rightarrow> string \<Rightarrow> bool \<Rightarrow> nat \<times> ('p, 'z) tlsuv_http" where
  "tlsuv_http_req env clt method path resp_cb =
     (let rid = next_req clt;
          r0 = http_req_init (cl_parser0 env) (req_zero (cl_parser0 env)) method path;
          r = r0\<lparr>has_resp_cb := resp_cb, req_headers := copy_headers (clt_headers clt) (req_headers r0)\<rparr>
      in (rid, uv_async_send (clt\<lparr>next_req := Suc rid, requests := requests clt @ [(rid, r)],
            conn_timer := Timer_Stopped, proc_ref := True\<rparr>)))"

text \<open>
  A request the user refers to: the active one or one of the queue. Any other reference is to memory
  that was freed.
\<close>

definition find_req :: "('p, 'z) tlsuv_http \<Rightarrow> nat \<Rightarrow> ('p, 'z) tlsuv_http_req option" where
  "find_req c rid =
     (case active c of
        Some (a, r) \<Rightarrow> if a = rid then Some r else map_of (requests c) rid
      | None \<Rightarrow> map_of (requests c) rid)"

definition put_req :: "('p, 'z) tlsuv_http \<Rightarrow> nat \<Rightarrow> ('p, 'z) tlsuv_http_req \<Rightarrow> ('p, 'z) tlsuv_http" where
  "put_req c rid r =
     c\<lparr>active := map_option (\<lambda>(a, x). (a, if a = rid then r else x)) (active c),
       requests := map (\<lambda>(a, x). (a, if a = rid then r else x)) (requests c)\<rparr>"

text \<open>\<open>tlsuv_http_req_header\<close> on the request itself. A null \<open>value\<close> reaches \<open>strcmp\<close> or \<open>strtol\<close> for the two names it looks at.\<close>

definition req_set_header ::
  "('p, 'z) tlsuv_http_req \<Rightarrow> string \<Rightarrow> string option \<Rightarrow> ub + int \<times> ('p, 'z) tlsuv_http_req" where
  "req_set_header req name val =
     (let te = strcasecmp_eq name ''transfer-encoding''; cl = strcasecmp_eq name ''Content-Length''
      in if (te \<or> cl) \<and> val = None then Inl Null_Deref
         else if te \<and> val = Some ''chunked'' \<and> req_body_size req \<noteq> -1 then Inr (UV_EINVAL, req)
         else
           (let r1 = (if te \<and> val = Some ''chunked'' then req\<lparr>req_chunked := True\<rparr> else req)
            in if cl \<and> req_chunked r1 then Inr (UV_EINVAL, r1)
               else
                 (let r2 = (if cl then r1\<lparr>req_body_size := fst (strtol10 (the val)), req_chunked := False\<rparr> else r1)
                  in Inr (0, r2\<lparr>req_headers := set_http_header (req_headers r2) name val\<rparr>))))"

definition tlsuv_http_req_header ::
  "('p, 'z) tlsuv_http \<Rightarrow> nat \<Rightarrow> string \<Rightarrow> string option \<Rightarrow> ub + int \<times> ('p, 'z) tlsuv_http" where
  "tlsuv_http_req_header c rid name val =
     (case find_req c rid of
        None \<Rightarrow> Inl Bad_Pointer
      | Some req \<Rightarrow> ub_bind (req_set_header req name val) (\<lambda>(rc, r1). Inr (rc, put_req c rid r1)))"

definition tlsuv_http_req_end :: "('p, 'z) tlsuv_http \<Rightarrow> nat \<Rightarrow> ub + ('p, 'z) tlsuv_http" where
  "tlsuv_http_req_end c rid =
     (case find_req c rid of
        None \<Rightarrow> Inl Bad_Pointer
      | Some req \<Rightarrow>
          Inr (if req_chunked req
               then uv_async_send (put_req c rid
                      (req\<lparr>req_body := req_body req @ [\<lparr>bc_chunk = [], bc_cb = False\<rparr>]\<rparr>))
               else c))"

definition tlsuv_http_req_data ::
  "('p, 'z) tlsuv_http \<Rightarrow> nat \<Rightarrow> byte list \<Rightarrow> bool \<Rightarrow> ub + int \<times> ('p, 'z) tlsuv_http" where
  "tlsuv_http_req_data c rid body cb =
     (case find_req c rid of
        None \<Rightarrow> Inl Bad_Pointer
      | Some req \<Rightarrow>
          Inr (if req_method req \<noteq> ''POST'' \<and> req_method req \<noteq> ''PUT'' then (UV_EINVAL, c)
               else if req_state req > headers_sent then (UV_EINVAL, c)
               else (0, uv_async_send (put_req c rid
                      (req\<lparr>req_body := req_body req @ [\<lparr>bc_chunk = body, bc_cb = cb\<rparr>]\<rparr>)))))"

section \<open>Cancelling and closing\<close>

definition tlsuv_http_cancel_all :: "('p, 'z) tlsuv_http \<Rightarrow> ('p, 'z) tlsuv_http \<times> client_out list" where
  "tlsuv_http_cancel_all clt =
     (let (c1, o1) = fail_active_request clt UV_ECANCELED; (c2, o2) = close_connection c1
      in (c2, o1 @ o2))"

text \<open>
  \<open>tlsuv_http_req_cancel\<close>. After the search \<open>r\<close> is the request when it is in the queue and null when it
  is not; the response callback is called with fields of \<open>r\<close>, not of \<open>req\<close>.
\<close>

definition cancel_notify ::
  "bool \<Rightarrow> ('p, 'z) req_ref \<Rightarrow> ub + client_out list" where
  "cancel_notify queued r =
     (if req_state (snd r) < headers_received
      then (if \<not> queued \<or> \<not> has_resp_cb (snd r) then Inl Null_Deref
            else Inr (fail_resp r UV_ECANCELED))
      else Inr (if resp_body_cb (req_resp (snd r)) then [User_Http (fst r) (Body_End UV_ECANCELED)] else []))"

definition tlsuv_http_req_cancel ::
  "('p, 'z) tlsuv_http \<Rightarrow> nat \<Rightarrow> ub + int \<times> ('p, 'z) tlsuv_http \<times> client_out list" where
  "tlsuv_http_req_cancel clt rid =
     (let queued = map_of (requests clt) rid \<noteq> None;
          is_active = (case active clt of None \<Rightarrow> False | Some a \<Rightarrow> fst a = rid)
      in if \<not> queued \<and> \<not> is_active then Inr (UV_EINVAL, clt, [])
         else
           (let req = the (find_req clt rid);
                (c1, o1) = (if is_active then close_connection (clt\<lparr>active := None\<rparr>)
                            else (clt\<lparr>requests := filter (\<lambda>x. fst x \<noteq> rid) (requests clt)\<rparr>, []))
            in ub_bind (cancel_notify queued (rid, req)) (\<lambda>o3.
                 Inr (0, c1, o1 @ clear_req_body rid (req_body req) UV_ECANCELED @ o3 @ [Req_Free rid]))))"

text \<open>\<open>tlsuv_http_close\<close>, and \<open>on_clt_close\<close> with \<open>free_http\<close>, which libuv calls when the handle is closed.\<close>

definition tlsuv_http_close :: "('p, 'z) tlsuv_http \<Rightarrow> ('p, 'z) tlsuv_http \<times> client_out list" where
  "tlsuv_http_close clt =
     (let (c1, o1) = fail_active_request (clt\<lparr>proc_closing := True\<rparr>) UV_ECANCELED;
          (c2, o2) = close_connection c1;
          (c3, o3) = (case clt_engine c2 of
                        None \<Rightarrow> (c2, [])
                      | Some h \<Rightarrow> (c2\<lparr>clt_engine := None\<rparr>, [Engine_Free h]))
      in (c3\<lparr>clt_tls := False, conn_timer := Timer_Stopped\<rparr>, o1 @ o2 @ o3))"

definition free_http :: "('p, 'z) tlsuv_http \<Rightarrow> ('p, 'z) tlsuv_http \<times> client_out list" where
  "free_http clt =
     (let o1 = (case active clt of None \<Rightarrow> [] | Some a \<Rightarrow> [Req_Free (fst a)]);
          o2 = map (\<lambda>r. Req_Free (fst r)) (requests clt);
          c1 = clt\<lparr>clt_headers := [], clt_host := None, clt_prefix := None, active := None, requests := []\<rparr>
      in if own_src c1 \<and> has_src c1
         then (c1\<lparr>has_src := False\<rparr>, o1 @ o2 @ [Src_Release, Src_Free])
         else (c1, o1 @ o2))"

definition on_clt_close :: "bool \<Rightarrow> ('p, 'z) tlsuv_http \<Rightarrow> ('p, 'z) tlsuv_http \<times> client_out list" where
  "on_clt_close close_cb clt =
     (let (c1, o1) = free_http clt in (c1, o1 @ (if close_cb then [User_Close] else [])))"

section \<open>Reading\<close>

definition keep_alive :: "tlsuv_http_resp \<Rightarrow> bool" where
  "keep_alive resp =
     (let hdr = tlsuv_http_resp_header (resp_headers resp) ''Connection''
      in if http_version resp = ''1.1''
         then \<not> (case hdr of None \<Rightarrow> False | Some v \<Rightarrow> strcasecmp_eq ''close'' v)
         else if http_version resp = ''1.0''
         then (case hdr of None \<Rightarrow> False | Some v \<Rightarrow> strcasecmp_eq ''keep-alive'' v)
         else False)"

text \<open>The end of a request whose response is complete.\<close>

definition finish_request :: "('p, 'z) tlsuv_http \<Rightarrow> ('p, 'z) req_ref \<Rightarrow> ('p, 'z) tlsuv_http \<times> client_out list" where
  "finish_request c a =
     (let c1 = c\<lparr>active := None\<rparr>
      in if keep_alive (req_resp (snd a)) then (uv_async_send c1, [Req_Free (fst a)])
         else (let (c2, o2) = close_connection c1 in (c2, Req_Free (fst a) # o2)))"

text \<open>
  \<open>http_read_cb\<close> with \<open>nread < 0\<close>, and with data. After a parse error the active request is read again,
  and the buffer is freed twice when there still is one.
\<close>

definition http_read_error :: "('p, 'z) tlsuv_http \<Rightarrow> int \<Rightarrow> ('p, 'z) tlsuv_http \<times> client_out list" where
  "http_read_error c nread =
     (let (c1, o1) = (if active c \<noteq> None then fail_active_request c nread else (c, []));
          (c2, o2) = close_connection c1
      in (uv_async_send c2, o1 @ o2))"

definition http_read_parse_error :: "('p, 'z) tlsuv_http \<Rightarrow> ('p, 'z) client_result" where
  "http_read_parse_error c =
     (let (c1, o1) = fail_active_request c UV_EINVAL; (c2, o2) = close_connection c1
      in if active c2 = None then Inl Null_Deref else Inl Bad_Pointer)"

definition http_read_data :: "('p, 'z) client_env \<Rightarrow> ('p, 'z) tlsuv_http \<Rightarrow> byte list \<Rightarrow> ('p, 'z) client_result" where
  "http_read_data env c buf =
     (case active c of
        None \<Rightarrow> Inr (c, [])
      | Some (rid, req) \<Rightarrow>
          ub_bind (if buf = [] then Inr (0, req, [])
                   else http_req_process (cl_exec env) (cl_resume env) (cl_http env) req buf)
            (\<lambda>(n, req1, events).
               let c1 = c\<lparr>active := Some (rid, req1)\<rparr>; o1 = map (User_Http rid) events
               in if n < 0 then client_then (Inr (c1, o1)) http_read_parse_error
                  else if req_state req1 = completed
                       then (let (c2, o2) = finish_request c1 (rid, req1) in Inr (c2, o1 @ o2))
                       else Inr (c1, o1)))"

definition http_read_cb ::
  "('p, 'z) client_env \<Rightarrow> ('p, 'z) tlsuv_http \<Rightarrow> int \<Rightarrow> byte list \<Rightarrow> ('p, 'z) client_result" where
  "http_read_cb env c nread buf =
     (if nread < 0 then Inr (http_read_error c nread)
      else http_read_data env c (take (nat nread) buf))"

section \<open>The client as a state machine\<close>

text \<open>
  The actions: API calls, and the events of the environment. An event only happens when its source is
  armed: the async handle has a pending wake-up, the timer runs, a connection attempt may still
  report, a handshake is under way, a closing or a write has not been reported, data comes from an
  open connection.
\<close>

datatype client_action =
    Do_Req string string
  | Do_Req_Header nat string "string option"
  | Do_Req_Data nat "byte list" bool
  | Do_Req_End nat
  | Do_Req_Cancel nat
  | Do_Cancel_All
  | Do_Set_Url string
  | Do_Header string "string option"
  | Do_Set_Path_Prefix "string option"
  | Do_Connect_Timeout int
  | Do_Idle_Keepalive int
  | Do_Set_Ssl bool
  | On_Proc
  | On_Timer
  | On_Src_Connect int
  | On_Handshake tls_handshake_state
  | On_Link_Close
  | On_Read int "byte list"
  | On_Body_Written int

fun client_enabled :: "('p, 'z) tlsuv_http \<Rightarrow> client_action \<Rightarrow> bool" where
  "client_enabled c On_Proc = proc_pending c"
| "client_enabled c On_Timer = (conn_timer c \<noteq> Timer_Stopped)"
| "client_enabled c (On_Src_Connect st) = (connected c = Connecting \<or> connected c = Disconnected)"
| "client_enabled c (On_Handshake st) = (connected c = Handshaking)"
| "client_enabled c On_Link_Close = (links_closing c > 0)"
| "client_enabled c (On_Read nread buf) =
     (connected c = Connected \<or> connected c = Handshaking \<and> nread < 0)"
| "client_enabled c (On_Body_Written st) = (body_writes c \<noteq> [])"
| "client_enabled c a = True"

text \<open>The effect of an action. Every request of this machine has a response callback.\<close>

definition quiet :: "('p, 'z) tlsuv_http \<Rightarrow> ('p, 'z) client_result" where
  "quiet c = Inr (c, [])"

fun client_do :: "('p, 'z) client_env \<Rightarrow> ('p, 'z) tlsuv_http \<Rightarrow> client_action \<Rightarrow> ('p, 'z) client_result" where
  "client_do env c (Do_Req method path) = quiet (snd (tlsuv_http_req env c method path True))"
| "client_do env c (Do_Req_Header rid name val) =
     ub_bind (tlsuv_http_req_header c rid name val) (\<lambda>(rc, c1). quiet c1)"
| "client_do env c (Do_Req_Data rid body cb) =
     ub_bind (tlsuv_http_req_data c rid body cb) (\<lambda>(rc, c1). quiet c1)"
| "client_do env c (Do_Req_End rid) = ub_bind (tlsuv_http_req_end c rid) quiet"
| "client_do env c (Do_Req_Cancel rid) =
     ub_bind (tlsuv_http_req_cancel c rid) (\<lambda>(rc, c1, o1). Inr (c1, o1))"
| "client_do env c Do_Cancel_All = Inr (tlsuv_http_cancel_all c)"
| "client_do env c (Do_Set_Url url) = quiet (snd (tlsuv_http_set_url c url))"
| "client_do env c (Do_Header name val) = quiet (tlsuv_http_header c name val)"
| "client_do env c (Do_Set_Path_Prefix p) = tlsuv_http_set_path_prefix c p"
| "client_do env c (Do_Connect_Timeout ms) = quiet (tlsuv_http_connect_timeout c ms)"
| "client_do env c (Do_Idle_Keepalive ms) = quiet (tlsuv_http_idle_keepalive c ms)"
| "client_do env c (Do_Set_Ssl tls) = quiet (tlsuv_http_set_ssl c tls)"
| "client_do env c On_Proc = process_requests env c"
| "client_do env c On_Timer =
     (case conn_timer c of
        Timer_Stopped \<Rightarrow> quiet c
      | Timer_Idle ms \<Rightarrow> Inr (idle_timeout (c\<lparr>conn_timer := Timer_Stopped\<rparr>))
      | Timer_Connect ms \<Rightarrow> src_connect_timeout (c\<lparr>conn_timer := Timer_Stopped\<rparr>))"
| "client_do env c (On_Src_Connect st) = src_connect_cb c st"
| "client_do env c (On_Handshake st) = Inr (on_tls_handshake c st)"
| "client_do env c On_Link_Close = link_close_cb c"
| "client_do env c (On_Read nread buf) = http_read_cb env c nread buf"
| "client_do env c (On_Body_Written st) = Inr (req_write_body_cb c st)"

text \<open>The runs of the machine from an initialised client, with all outputs in order.\<close>

inductive client_run :: "('p, 'z) client_env \<Rightarrow> ('p, 'z) tlsuv_http \<Rightarrow> client_out list \<Rightarrow> bool"
  for env :: "('p, 'z) client_env" where
  start: "tlsuv_http_init so url = (0, c) \<Longrightarrow> client_run env c []"
| step: "client_run env c tr \<Longrightarrow> client_enabled c a \<Longrightarrow> client_do env c a = Inr (c', o1) \<Longrightarrow>
     client_run env c' (tr @ o1)"

section \<open>The invariant\<close>

definition live :: "('p, 'z) tlsuv_http \<Rightarrow> ('p, 'z) req_ref list" where
  "live c = (case active c of None \<Rightarrow> [] | Some a \<Rightarrow> [a]) @ requests c"

text \<open>Requests are numbered in the order of their creation and wait in that order.\<close>

definition ids_inv :: "('p, 'z) tlsuv_http \<Rightarrow> bool" where
  "ids_inv c \<longleftrightarrow> sorted_wrt (<) (map fst (live c)) \<and> (\<forall>r \<in> set (live c). fst r < next_req c)"

text \<open>A request that was not sent on the open connection is untouched.\<close>

definition reqs_inv :: "('p, 'z) tlsuv_http \<Rightarrow> bool" where
  "reqs_inv c \<longleftrightarrow> (\<forall>r \<in> set (live c). has_resp_cb (snd r)) \<and>
     (\<forall>r \<in> set (requests c). req_state (snd r) = created) \<and>
     (\<forall>a. active c = Some a \<longrightarrow> connected c \<noteq> Connected \<longrightarrow> req_state (snd a) = created)"

definition timer_inv :: "('p, 'z) tlsuv_http \<Rightarrow> bool" where
  "timer_inv c \<longleftrightarrow>
     (\<forall>ms. conn_timer c = Timer_Idle ms \<longrightarrow> live c = [] \<and> connected c = Connected) \<and>
     (\<forall>ms. conn_timer c = Timer_Connect ms \<longrightarrow> connected c = Connecting)"

text \<open>A TLS engine for another host than the current one is marked for replacement.\<close>

definition engine_inv :: "('p, 'z) tlsuv_http \<Rightarrow> bool" where
  "engine_inv c \<longleftrightarrow> clt_host c \<noteq> None \<and>
     (\<forall>h. clt_engine c = Some h \<longrightarrow> clt_host c = Some h \<or> host_change c)"

text \<open>The active request has been sent as far as its body goes and waits for the response.\<close>

definition in_flight :: "('p, 'z) tlsuv_http \<Rightarrow> bool" where
  "in_flight c \<longleftrightarrow> connected c = Connected \<and>
     (\<exists>a. active c = Some a \<and> req_state (snd a) \<noteq> created \<and>
        (req_state (snd a) = headers_sent \<longrightarrow> req_body (snd a) = []))"

text \<open>When there is work, something will wake the client: no wake-up is lost.\<close>

definition wake_inv :: "('p, 'z) tlsuv_http \<Rightarrow> bool" where
  "wake_inv c \<longleftrightarrow> live c = [] \<or> proc_pending c \<or> links_closing c > 0 \<or>
     connected c = Connecting \<or> connected c = Handshaking \<or> in_flight c"

definition client_inv :: "('p, 'z) tlsuv_http \<Rightarrow> bool" where
  "client_inv c \<longleftrightarrow> ids_inv c \<and> reqs_inv c \<and> timer_inv c \<and> engine_inv c \<and> wake_inv c"

lemmas client_inv_defs = client_inv_def ids_inv_def reqs_inv_def timer_inv_def engine_inv_def wake_inv_def

end
