(* ===== verification/Http_Client_Inv.thy ===== *)
theory Http_Client_Inv
  imports Http_Client "HOL-Library.Multiset"
begin

text \<open>
  The invariant of the HTTP client: what failing and closing do, that every action of the state
  machine keeps the invariant, and the balance of the requests created, live and freed.
\<close>

section \<open>Failing and closing\<close>

definition fail_out :: "int \<Rightarrow> ('p, 'z) req_ref \<Rightarrow> client_out list" where
  "fail_out code r = (if has_resp_cb (snd r) then fail_resp r code else []) @
     clear_req_body (fst r) (req_body (snd r)) code @ [Req_Free (fst r)]"

lemma fail_queue_result:
  "fail_queue c code rs =
     (c\<lparr>requests := [], proc_ref := proc_ref c \<and> (\<forall>r \<in> set rs. \<not> has_resp_cb (snd r))\<rparr>,
      concat (map (fail_out code) rs))"
  by (induction rs arbitrary: c) (auto simp: fail_out_def Let_def)

lemma fail_active_result:
  assumes "\<forall>r \<in> set (live c). has_resp_cb (snd r)"
  shows "fail_active_request c code =
     (c\<lparr>active := None, requests := [], proc_ref := proc_ref c \<and> requests c = []\<rparr>,
      concat (map (fail_out code) (live c)))"
proof -
  have q: "(\<forall>r \<in> set (requests c). \<not> has_resp_cb (snd r)) \<longleftrightarrow> requests c = []"
    using assms by (cases "requests c") (auto simp: live_def)
  show ?thesis
  proof (cases "active c")
    case None
    then have "c\<lparr>active := None\<rparr> = c" by (cases c) simp
    then have "c\<lparr>active := None, requests := xs, proc_ref := b\<rparr> = c\<lparr>requests := xs, proc_ref := b\<rparr>" for xs b
      by (metis (no_types))
    with None q show ?thesis by (simp add: fail_active_request_def fail_queue_result live_def)
  next
    case (Some a)
    with assms q show ?thesis
      by (simp add: fail_active_request_def fail_queue_result live_def fail_out_def Let_def)
  qed
qed

lemma close_connection_result:
  "fst (close_connection c) =
     c\<lparr>conn_timer := Timer_Stopped, connected := Disconnected,
       links_closing := links_closing c + (if connected c = Handshaking \<or> connected c = Connected then 1 else 0)\<rparr>"
  by (cases "connected c") (auto simp: close_connection_def Let_def)

lemma close_connection_out:
  "snd (close_connection c) = (if connected c = Handshaking \<or> connected c = Connected then [Link_Close] else [])"
  by (cases "connected c") (auto simp: close_connection_def Let_def)

lemma close_connection_eq: "close_connection c = (fst (close_connection c), snd (close_connection c))"
  by simp

lemma fail_inv:
  assumes "client_inv c" and "fail_active_request c code = (c1, o1)"
  shows "client_inv c1 \<and> live c1 = []"
proof -
  have "c1 = c\<lparr>active := None, requests := [], proc_ref := proc_ref c \<and> requests c = []\<rparr>"
    using assms fail_active_result [of c code] by (simp add: client_inv_def reqs_inv_def)
  then show ?thesis
    using assms(1) by (auto simp: client_inv_defs live_def split: conn_timer.splits)
qed

lemma close_inv_idle:
  assumes "client_inv c" and "live c = []"
  shows "client_inv (fst (close_connection c)) \<and> live (fst (close_connection c)) = []"
  using assms by (auto simp: close_connection_result client_inv_defs live_def split: option.splits)

text \<open>Closing an open connection is always followed by a wake-up, from the closing of the link.\<close>

lemma close_inv_open:
  assumes "client_inv c" and "connected c = Handshaking \<or> connected c = Connected"
    and "\<forall>a. active c = Some a \<longrightarrow> req_state (snd a) = created"
  shows "client_inv (fst (close_connection c))"
  using assms by (auto simp: close_connection_result client_inv_defs live_def split: option.splits)

section \<open>What the request functions keep\<close>

lemma http_proc_keeps:
  assumes "http_proc env r call = Inr (r', ev)"
  shows "has_resp_cb r' = has_resp_cb r" and "req_body r' = req_body r"
    and "req_state r' = req_state r \<or> req_state r' = headers_received \<or> req_state r' = completed"
  using assms
  by (auto simp: http_proc_def http_header_field_cb_def http_header_value_cb_def http_status_cb_def
      http_headers_complete_cb_def http_message_cb_def http_body_cb_def Let_def ub_bind_Inr
      split: parser_call.splits option.splits if_splits prod.splits)

lemma http_proc_all_keeps:
  assumes "http_proc_all env r calls = Inr (r', ev)"
  shows "has_resp_cb r' = has_resp_cb r \<and> req_body r' = req_body r \<and>
    (req_state r' = req_state r \<or> req_state r' = headers_received \<or> req_state r' = completed)"
  using assms
proof (induction calls arbitrary: r ev)
  case Nil
  then show ?case by simp
next
  case (Cons call calls)
  then obtain r1 e1 e2 where p: "http_proc env r call = Inr (r1, e1)"
    and q: "http_proc_all env r1 calls = Inr (r', e2)"
    by (auto simp: ub_bind_Inr)
  from Cons.IH [OF q] http_proc_keeps [OF p] show ?case by auto
qed

lemma http_req_process_keeps:
  assumes "http_req_process exec resume env r buf = Inr (n, r', ev)"
  shows "has_resp_cb r' = has_resp_cb r \<and> req_body r' = req_body r \<and>
    (req_state r' = req_state r \<or> req_state r' = headers_received \<or> req_state r' = completed)"
proof -
  obtain calls err pos p where e: "exec (req_parser r) buf = (calls, err, pos, p)" by (metis prod_cases4)
  with assms obtain r1 where a: "http_proc_all env r calls = Inr (r1, ev)"
    and r': "has_resp_cb r' = has_resp_cb r1 \<and> req_body r' = req_body r1 \<and> req_state r' = req_state r1"
    by (cases err) (auto simp: http_req_process_def Let_def ub_bind_Inr)
  from http_proc_all_keeps [OF a] r' show ?thesis by simp
qed

lemma send_head_keeps:
  assumes "send_head pfx r = Inr (r', w)"
  shows "has_resp_cb r' = has_resp_cb r" and "req_state r' = headers_sent"
proof -
  obtain len buf r1 where "http_req_write pfx r HEAD_SIZE = Inr (len, buf, r1)"
    and r': "r' = r1\<lparr>req_state := headers_sent\<rparr>"
    using assms by (auto simp: send_head_def ub_bind_Inr split: if_splits)
  then have "set_content_length r = Inr r1" by (blast dest: http_req_write_sound(1))
  then have "has_resp_cb r1 = has_resp_cb r"
    by (auto simp: set_content_length_def Let_def split: if_splits)
  with r' show "has_resp_cb r' = has_resp_cb r" and "req_state r' = headers_sent" by simp_all
qed

lemma send_chunk_keeps:
  assumes "send_chunk r b = Inr (r', w, p)"
  shows "has_resp_cb r' = has_resp_cb r \<and> (req_state r' = req_state r \<or> req_state r' = body_sent)"
  using assms by (auto simp: send_chunk_def Let_def ub_bind_Inr split: if_splits)

lemma send_body_loop_keeps:
  assumes "send_body_loop r bs = Inr (r', w, p)"
  shows "has_resp_cb r' = has_resp_cb r \<and> req_body r' = [] \<and>
    (req_state r' = req_state r \<or> req_state r' = body_sent)"
  using assms
proof (induction bs arbitrary: r w p)
  case Nil
  then show ?case by auto
next
  case (Cons b bs)
  then obtain r1 w1 p1 w2 p2 where c: "send_chunk r b = Inr (r1, w1, p1)"
    and l: "send_body_loop r1 bs = Inr (r', w2, p2)"
    by (auto simp: ub_bind_Inr)
  from Cons.IH [OF l] send_chunk_keeps [OF c] show ?case by auto
qed

lemma state_less_headers_sent: "s < headers_sent \<longleftrightarrow> s = created"
  by (cases s) (simp_all add: request_state_order state_index_def)

lemma state_less_body_sent: "s < body_sent \<longleftrightarrow> s = created \<or> s = headers_sent"
  by (cases s) (simp_all add: request_state_order state_index_def)

lemma state_less_headers_received: "s < headers_received \<longleftrightarrow> s = created \<or> s = headers_sent \<or> s = body_sent"
  by (cases s) (simp_all add: request_state_order state_index_def)

text \<open>After \<open>send_active\<close> the active request is in flight.\<close>

lemma send_active_result:
  assumes "send_active c (rid, r) = Inr (c', o1)"
  shows "\<exists>r' ws. c' = c\<lparr>active := Some (rid, r'), body_writes := ws\<rparr> \<and> has_resp_cb r' = has_resp_cb r \<and>
    req_state r' \<noteq> created \<and> (req_state r' = headers_sent \<longrightarrow> req_body r' = [])"
proof -
  obtain r1 w1 r2 w2 sent where
    h: "(if req_state r < headers_sent then send_head (clt_prefix c) r else Inr (r, [])) = Inr (r1, w1)"
    and b: "(if req_state r1 < body_sent then send_body r1 else Inr (r1, [], [])) = Inr (r2, w2, sent)"
    and c': "c' = c\<lparr>active := Some (rid, r2), body_writes := body_writes c @ map (Pair rid) sent\<rparr>"
    using assms unfolding send_active_def fst_conv snd_conv by (auto simp: ub_bind_Inr)
  have 1: "has_resp_cb r1 = has_resp_cb r \<and> req_state r1 \<noteq> created"
    using h send_head_keeps [of "clt_prefix c" r r1 w1]
    by (auto simp: state_less_headers_sent split: if_splits)
  have "has_resp_cb r2 = has_resp_cb r1 \<and> req_state r2 \<noteq> created \<and>
      (req_state r2 = headers_sent \<longrightarrow> req_body r2 = [])"
    using b 1 send_body_loop_keeps [of r1 "req_body r1" r2 w2 sent]
    by (auto simp: send_body_def state_less_body_sent split: if_splits)
  with 1 c' show ?thesis by auto
qed

section \<open>Every action keeps the invariant\<close>

text \<open>The fields the invariant does not look at, and those that do not bear on the live requests.\<close>

lemma live_frame [simp]:
  "live (c\<lparr>connected := s\<rparr>) = live c" "live (c\<lparr>conn_timer := t\<rparr>) = live c"
  "live (c\<lparr>proc_pending := b\<rparr>) = live c" "live (c\<lparr>proc_ref := b\<rparr>) = live c"
  "live (c\<lparr>links_closing := n\<rparr>) = live c" "live (c\<lparr>body_writes := w\<rparr>) = live c"
  "live (c\<lparr>clt_host := h\<rparr>) = live c" "live (c\<lparr>clt_port := p\<rparr>) = live c"
  "live (c\<lparr>clt_prefix := h\<rparr>) = live c" "live (c\<lparr>host_change := b\<rparr>) = live c"
  "live (c\<lparr>clt_ssl := b\<rparr>) = live c" "live (c\<lparr>clt_tls := b\<rparr>) = live c"
  "live (c\<lparr>clt_engine := h\<rparr>) = live c" "live (c\<lparr>clt_headers := hl\<rparr>) = live c"
  "live (c\<lparr>connect_timeout := m\<rparr>) = live c" "live (c\<lparr>idle_time := m\<rparr>) = live c"
  "live (c\<lparr>own_src := b\<rparr>) = live c" "live (c\<lparr>next_req := n\<rparr>) = live c"
  by (simp_all add: live_def)

lemma live_put_req:
  "map fst (live (put_req c rid r)) = map fst (live c)"
  by (auto simp: live_def put_req_def split: option.splits)

lemma make_links_inv:
  assumes "client_inv c" and "connected c = Connecting" and "conn_timer c = Timer_Stopped"
    and "make_links c = Inr (c', o1)"
  shows "client_inv c' \<and> (clt_ssl c \<longrightarrow> connected c' = Handshaking \<and> clt_engine c' = clt_host c')"
proof (cases "clt_ssl c")
  case False
  then have "c' = c\<lparr>connected := Connected, proc_pending := True\<rparr>"
    using assms(4) by (simp add: make_links_def client_then_def uv_async_send_def)
  with False assms(1-3) show ?thesis by (simp add: client_inv_defs)
next
  case True
  obtain h where h: "clt_host c = Some h" using assms(1) by (auto simp: client_inv_defs)
  obtain c1 o2 where t: "make_links_tls c = Inr (c1, o2)"
    and c': "c' = c1\<lparr>connected := Handshaking\<rparr>"
    using assms(4) True by (auto simp: make_links_def client_then_def ub_bind_Inr make_links_tls_def
        Let_def split: if_splits option.splits)
  from t have "\<exists>e hc. c1 = c\<lparr>clt_tls := True, clt_engine := e, host_change := hc\<rparr> \<and> e = Some h"
    using assms(1) h
    by (cases c) (auto simp: make_links_tls_def client_then_def client_inv_def engine_inv_def Let_def ub_bind_Inr
        split: if_splits option.splits)
  then obtain hc where c1: "c1 = c\<lparr>clt_tls := True, clt_engine := Some h, host_change := hc\<rparr>" by blast
  show ?thesis
    using assms(1,3) c' c1 h assms(2) by (simp add: client_inv_defs)
qed

lemma src_connect_inv:
  assumes "client_inv c" and "connected c = Connecting \<or> connected c = Disconnected"
    and "src_connect_cb c st = Inr (c', o1)"
  shows "client_inv c'"
proof -
  let ?c1 = "c\<lparr>conn_timer := Timer_Stopped\<rparr>"
  have i1: "client_inv ?c1" using assms(1) by (simp add: client_inv_defs in_flight_def)
  show ?thesis
  proof (cases "st = 0")
    case True
    from assms(2) show ?thesis
    proof
      assume "connected c = Connecting"
      with True assms(3) i1 make_links_inv [of ?c1 c' o1] show ?thesis
        by (simp add: src_connect_cb_def Let_def)
    next
      assume "connected c = Disconnected"
      with True assms(3) i1 show ?thesis by (simp add: src_connect_cb_def Let_def)
    qed
  next
    case False
    let ?c2 = "?c1\<lparr>connected := Disconnected\<rparr>"
    have rs: "\<forall>r \<in> set (live ?c2). has_resp_cb (snd r)" using i1 by (simp add: client_inv_def reqs_inv_def)
    have "c' = uv_async_send (fst (fail_active_request ?c2 st))"
      using False assms(3) by (auto simp: src_connect_cb_def Let_def split: prod.splits)
    then show ?thesis
      using i1 unfolding fail_active_result [OF rs]
      by (simp add: uv_async_send_def client_inv_defs live_def)
  qed
qed

lemma start_connect_inv:
  assumes "reqs_inv c" and "ids_inv c" and "timer_inv c" and "engine_inv c" and "connected c = Disconnected"
    and "start_connect env c = Inr (c', o1)"
  shows "client_inv c'"
proof -
  let ?c1 = "c\<lparr>connected := Connecting\<rparr>"
  let ?c2 = "if connect_timeout ?c1 > 0 then ?c1\<lparr>conn_timer := Timer_Connect (connect_timeout ?c1)\<rparr> else ?c1"
  have t: "conn_timer c = Timer_Stopped" using assms(3,5) by (cases "conn_timer c") (auto simp: timer_inv_def)
  have i: "client_inv ?c2"
    using assms t by (simp add: client_inv_defs)
  obtain h where h: "clt_host ?c2 = Some h" using assms(4) by (auto simp: engine_inv_def)
  show ?thesis
  proof (cases "cl_connect env h (clt_port ?c2) = 0")
    case True
    with assms(6) h have "c' = ?c2" by (simp add: start_connect_def Let_def split: if_splits)
    with i show ?thesis by simp
  next
    case False
    with assms(6) h obtain o2 where "src_connect_cb ?c2 (cl_connect env h (clt_port ?c2)) = Inr (c', o2)"
      by (auto simp: start_connect_def Let_def client_then_def ub_bind_Inr split: if_splits)
    with src_connect_inv [OF i] show ?thesis by simp
  qed
qed

lemma take_next_fields:
  "live (take_next c) = live c" "next_req (take_next c) = next_req c" "conn_timer (take_next c) = conn_timer c"
  "connected (take_next c) = connected c" "clt_host (take_next c) = clt_host c"
  "clt_engine (take_next c) = clt_engine c" "host_change (take_next c) = host_change c"
  "active (take_next c) = None \<Longrightarrow> live c = []"
  by (auto simp: take_next_def live_def split: list.splits if_splits option.splits)

lemma take_next_reqs: "reqs_inv c \<Longrightarrow> reqs_inv (take_next c)"
  unfolding reqs_inv_def take_next_fields by (auto simp: take_next_def split: list.splits)

lemma process_requests_inv:
  assumes "client_inv c0" and "process_requests env c0 = Inr (c', o1)"
  shows "client_inv c'"
proof -
  let ?c = "take_next (c0\<lparr>proc_pending := False\<rparr>)"
  have "reqs_inv (c0\<lparr>proc_pending := False\<rparr>)" using assms(1) by (simp add: client_inv_def reqs_inv_def)
  from take_next_reqs [OF this] have r: "reqs_inv ?c" .
  have i: "ids_inv ?c" "timer_inv ?c" "engine_inv ?c"
    using assms(1) unfolding client_inv_def ids_inv_def timer_inv_def engine_inv_def take_next_fields
    by (simp_all split: conn_timer.splits)
  note p = assms(2) [unfolded process_requests_def Let_def]
  show ?thesis
  proof (cases "active ?c")
    case None
    then have e: "live ?c = []" using take_next_fields(1,8) [of "c0\<lparr>proc_pending := False\<rparr>"] by simp
    then have q: "requests ?c = []" by (simp add: live_def)
    have "c' = ?c\<lparr>proc_ref := False\<rparr> \<or>
        connected ?c = Connected \<and> c' = ?c\<lparr>conn_timer := Timer_Idle (idle_time ?c), proc_ref := False\<rparr>"
      using None p by (auto split: if_splits)
    then show ?thesis
      using e q i None by (elim disjE) (simp_all add: client_inv_defs)
  next
    case (Some a)
    obtain rid req where a: "a = (rid, req)" by (cases a)
    consider "connected ?c = Disconnected" | "connected ?c = Connected" | "connected ?c = Connecting \<or> connected ?c = Handshaking"
      by (cases "connected ?c") auto
    then show ?thesis
    proof cases
      case 1
      then have "start_connect env ?c = Inr (c', o1)" using p Some by simp
      with start_connect_inv [of ?c env c' o1] r i 1 show ?thesis by simp
    next
      case 2
      then have "send_active ?c (rid, req) = Inr (c', o1)" using p Some a by simp
      from send_active_result [OF this] obtain r' ws where c': "c' = ?c\<lparr>active := Some (rid, r'), body_writes := ws\<rparr>"
        and r': "has_resp_cb r' = has_resp_cb req" "req_state r' \<noteq> created" "req_state r' = headers_sent \<longrightarrow> req_body r' = []"
        by blast
      show ?thesis
        using Some a c' r' r i 2 unfolding client_inv_defs in_flight_def
        by (simp add: live_def split: conn_timer.splits)
    next
      case 3
      then have "c' = ?c" using p Some by auto
      with 3 r i show ?thesis by (auto simp: client_inv_def wake_inv_def)
    qed
  qed
qed

lemma tlsuv_http_req_inv:
  assumes "client_inv c" shows "client_inv (snd (tlsuv_http_req env c method path True))"
proof -
  obtain r where r: "snd (tlsuv_http_req env c method path True) =
      c\<lparr>next_req := Suc (next_req c), requests := requests c @ [(next_req c, r)],
        conn_timer := Timer_Stopped, proc_ref := True, proc_pending := True\<rparr>"
    and rr: "has_resp_cb r" "req_state r = created"
    by (simp add: tlsuv_http_req_def Let_def uv_async_send_def http_req_init_def)
  have l: "live (snd (tlsuv_http_req env c method path True)) = live c @ [(next_req c, r)]"
    unfolding r by (simp add: live_def)
  show ?thesis
    using assms rr unfolding client_inv_defs l
    by (auto simp: r sorted_wrt_append less_Suc_eq)
qed

text \<open>Changing a live request in a way that keeps its callback, its state and what was already sent.\<close>

lemma find_req_live: "find_req c rid = Some r \<Longrightarrow> (rid, r) \<in> set (live c)"
  by (auto simp: find_req_def live_def dest: map_of_SomeD split: option.splits if_splits)

lemma find_req_created:
  assumes "client_inv c" and "find_req c rid = Some r" and "req_state r \<noteq> created"
  shows "active c = Some (rid, r) \<and> connected c = Connected"
proof -
  have "(rid, r) \<notin> set (requests c)" using assms by (auto simp: client_inv_def reqs_inv_def)
  then have "active c = Some (rid, r)"
    using find_req_live [OF assms(2)] by (auto simp: live_def split: option.splits)
  with assms show ?thesis by (auto simp: client_inv_def reqs_inv_def)
qed

lemma distinct_live: "client_inv c \<Longrightarrow> distinct (map fst (live c))"
  by (simp add: client_inv_def ids_inv_def strict_sorted_iff strict_sorted_equal)

lemma put_req_member:
  "x \<in> set (requests (put_req c rid r')) \<Longrightarrow>
     fst x = rid \<and> snd x = r' \<and> (\<exists>y. (rid, y) \<in> set (requests c)) \<or> fst x \<noteq> rid \<and> x \<in> set (requests c)"
  by (auto simp: put_req_def split: if_splits)

lemma put_req_active:
  "active (put_req c rid r') = Some a \<Longrightarrow>
     fst a = rid \<and> snd a = r' \<and> (\<exists>y. active c = Some (rid, y)) \<or> fst a \<noteq> rid \<and> active c = Some a"
  by (auto simp: put_req_def split: if_splits)

lemma put_req_fields [simp]:
  "connected (put_req c rid r') = connected c" "conn_timer (put_req c rid r') = conn_timer c"
  "next_req (put_req c rid r') = next_req c" "proc_pending (put_req c rid r') = proc_pending c"
  "links_closing (put_req c rid r') = links_closing c" "clt_host (put_req c rid r') = clt_host c"
  "clt_engine (put_req c rid r') = clt_engine c" "host_change (put_req c rid r') = host_change c"
  by (simp_all add: put_req_def)

lemma live_put_empty: "live (put_req c rid r') = [] \<longleftrightarrow> live c = []"
  by (auto simp: live_def put_req_def split: option.splits)

lemma live_iff: "x \<in> set (live c) \<longleftrightarrow> active c = Some x \<or> x \<in> set (requests c)"
  by (cases "active c") (auto simp: live_def)

lemma find_req_unique:
  assumes "client_inv c" and "find_req c rid = Some r" and "(rid, y) \<in> set (live c)"
  shows "y = r"
  using find_req_live [OF assms(2)] assms(3) distinct_live [OF assms(1)] by (metis eq_key_imp_eq_value)

lemma put_req_reqs:
  assumes "client_inv c" and "find_req c rid = Some r" and "has_resp_cb r'" and "req_state r' = req_state r"
  shows "reqs_inv (put_req c rid r')"
proof -
  note inv = assms(1) [unfolded client_inv_def reqs_inv_def]
  note uniq = find_req_unique [OF assms(1,2)]
  have "req_state (snd x) = created" if "x \<in> set (requests (put_req c rid r'))" for x
    using put_req_member [OF that] uniq inv assms(4) by (metis live_iff snd_conv)
  moreover have "req_state (snd a) = created"
    if "active (put_req c rid r') = Some a" "connected c \<noteq> Connected" for a
    using put_req_active [OF that(1)] that(2) uniq inv assms(4) by (metis live_iff snd_conv)
  moreover have "has_resp_cb (snd x)" if "x \<in> set (live (put_req c rid r'))" for x
    using that [unfolded live_iff]
  proof
    assume "active (put_req c rid r') = Some x"
    from put_req_active [OF this] inv assms(3) show ?thesis by (auto simp: live_iff)
  next
    assume "x \<in> set (requests (put_req c rid r'))"
    from put_req_member [OF this] inv assms(3) show ?thesis by (auto simp: live_iff)
  qed
  ultimately show ?thesis by (simp add: reqs_inv_def)
qed

lemma put_req_ids:
  assumes "ids_inv c" shows "ids_inv (put_req c rid r')"
proof -
  have m: "map fst (live (put_req c rid r')) = map fst (live c)" by (rule live_put_req)
  have "fst x < next_req c" if "x \<in> set (live (put_req c rid r'))" for x
  proof -
    have "fst x \<in> set (map fst (live (put_req c rid r')))" using that by simp
    then have "fst x \<in> set (map fst (live c))" by (simp only: m)
    then show ?thesis using assms by (auto simp: ids_inv_def)
  qed
  with assms m show ?thesis by (simp add: ids_inv_def)
qed

lemma put_req_inv:
  assumes "client_inv c" and "find_req c rid = Some r" and "has_resp_cb r'" and "req_state r' = req_state r"
    and "req_body r' = req_body r \<or> proc_pending c'"
    and "c' = put_req c rid r' \<or> c' = uv_async_send (put_req c rid r')"
  shows "client_inv c'"
proof -
  let ?p = "put_req c rid r'"
  have parts: "ids_inv ?p" "reqs_inv ?p" "timer_inv ?p" "engine_inv ?p"
    using assms(1) put_req_ids [of c rid r'] put_req_reqs [OF assms(1-4)]
    by (simp_all add: client_inv_def timer_inv_def engine_inv_def live_put_empty)
  have "in_flight ?p" if "in_flight c" "req_body r' = req_body r"
  proof -
    from that(1) obtain a where a: "active c = Some a" "connected c = Connected" "req_state (snd a) \<noteq> created"
      "req_state (snd a) = headers_sent \<longrightarrow> req_body (snd a) = []" by (auto simp: in_flight_def)
    show ?thesis
    proof (cases "fst a = rid")
      case True
      then have "snd a = r" using find_req_unique [OF assms(1,2), of "snd a"] a(1) by (cases a) (auto simp: live_iff)
      moreover have "active ?p = Some (rid, r')" using True a(1) by (cases a) (simp add: put_req_def)
      ultimately show ?thesis using a that(2) assms(4) by (simp add: in_flight_def)
    next
      case False
      then have "active ?p = Some a" using a(1) by (cases a) (simp add: put_req_def)
      with a show ?thesis by (simp add: in_flight_def)
    qed
  qed
  then have "wake_inv ?p \<or> proc_pending c'"
    using assms(1,5) unfolding client_inv_def wake_inv_def live_put_empty put_req_fields by blast
  then have w: "wake_inv c'" using assms(6)
    by (elim disjE) (simp_all add: wake_inv_def uv_async_send_def)
  from assms(6) show ?thesis
  proof
    assume "c' = ?p"
    with parts w show ?thesis by (simp add: client_inv_def)
  next
    assume "c' = uv_async_send ?p"
    with parts w show ?thesis
      by (simp add: client_inv_def uv_async_send_def ids_inv_def reqs_inv_def timer_inv_def engine_inv_def)
  qed
qed

lemma set_header_inv:
  assumes "client_inv c" and "tlsuv_http_req_header c rid name val = Inr (rc, c')"
  shows "client_inv c'"
proof -
  obtain r r1 where f: "find_req c rid = Some r" and h: "req_set_header r name val = Inr (rc, r1)"
    and c': "c' = put_req c rid r1"
    using assms(2) by (auto simp: tlsuv_http_req_header_def ub_bind_Inr split: option.splits)
  have "has_resp_cb r" using assms(1) find_req_live [OF f] by (auto simp: client_inv_def reqs_inv_def)
  moreover have "has_resp_cb r1 = has_resp_cb r \<and> req_state r1 = req_state r \<and> req_body r1 = req_body r"
    using h by (auto simp: req_set_header_def Let_def split: if_splits)
  ultimately show ?thesis using put_req_inv [OF assms(1) f, of r1 c'] c' by simp
qed

lemma req_data_inv:
  assumes "client_inv c" and "tlsuv_http_req_data c rid body cb = Inr (rc, c')"
  shows "client_inv c'"
proof -
  obtain r where f: "find_req c rid = Some r"
    using assms(2) by (auto simp: tlsuv_http_req_data_def split: option.splits)
  let ?r1 = "r\<lparr>req_body := req_body r @ [\<lparr>bc_chunk = body, bc_cb = cb\<rparr>]\<rparr>"
  have "has_resp_cb r" using assms(1) find_req_live [OF f] by (auto simp: client_inv_def reqs_inv_def)
  moreover have "c' = c \<or> c' = uv_async_send (put_req c rid ?r1)"
    using assms(2) f by (auto simp: tlsuv_http_req_data_def split: if_splits)
  moreover have "client_inv (uv_async_send (put_req c rid ?r1))" if "has_resp_cb r"
    by (rule put_req_inv [OF assms(1) f, of ?r1]) (simp_all add: that uv_async_send_def)
  ultimately show ?thesis using assms(1) by blast
qed

lemma req_end_inv:
  assumes "client_inv c" and "tlsuv_http_req_end c rid = Inr c'"
  shows "client_inv c'"
proof -
  obtain r where f: "find_req c rid = Some r"
    using assms(2) by (auto simp: tlsuv_http_req_end_def split: option.splits)
  let ?r1 = "r\<lparr>req_body := req_body r @ [\<lparr>bc_chunk = [], bc_cb = False\<rparr>]\<rparr>"
  have "has_resp_cb r" using assms(1) find_req_live [OF f] by (auto simp: client_inv_def reqs_inv_def)
  moreover have "c' = c \<or> c' = uv_async_send (put_req c rid ?r1)"
    using assms(2) f by (auto simp: tlsuv_http_req_end_def split: if_splits)
  moreover have "client_inv (uv_async_send (put_req c rid ?r1))" if "has_resp_cb r"
    by (rule put_req_inv [OF assms(1) f, of ?r1]) (simp_all add: that uv_async_send_def)
  ultimately show ?thesis using assms(1) by blast
qed

lemma read_error_inv:
  assumes "client_inv c" shows "client_inv (fst (http_read_error c nread))"
proof -
  obtain c1 o1 where f: "(if active c \<noteq> None then fail_active_request c nread else (c, [])) = (c1, o1)"
    by fastforce
  have i1: "client_inv c1" and a1: "active c1 = None"
  proof -
    show "client_inv c1"
      using assms f fail_inv [OF assms, of nread c1 o1] by (cases "active c = None") simp_all
    have "live c1 = []" if "active c \<noteq> None"
      using that f fail_inv [OF assms, of nread c1 o1] by simp
    then show "active c1 = None"
      using f by (cases "active c") (auto simp: live_def split: option.splits)
  qed
  have "fst (http_read_error c nread) = uv_async_send (fst (close_connection c1))"
    unfolding http_read_error_def f by (simp add: split_beta)
  then show ?thesis
    using i1 a1 by (simp add: close_connection_result uv_async_send_def client_inv_defs)
qed

lemma read_data_inv:
  assumes "client_inv c" and "connected c = Connected" and "http_read_data env c buf = Inr (c', o1)"
  shows "client_inv c'"
proof (cases "active c")
  case None
  with assms show ?thesis by (simp add: http_read_data_def)
next
  case (Some a)
  obtain rid req where a: "a = (rid, req)" by (cases a)
  obtain n req1 ev where p: "(if buf = [] then Inr (0, req, [])
      else http_req_process (cl_exec env) (cl_resume env) (cl_http env) req buf) = Inr (n, req1, ev)"
    using assms(3) Some a by (auto simp: http_read_data_def ub_bind_Inr)
  have keep: "has_resp_cb req1 = has_resp_cb req \<and> req_body req1 = req_body req \<and>
      (req_state req1 = req_state req \<or> req_state req1 = headers_received \<or> req_state req1 = completed)"
    using p http_req_process_keeps by (cases "buf = []") fastforce+
  let ?c1 = "c\<lparr>active := Some (rid, req1)\<rparr>"
  have live: "live ?c1 = (rid, req1) # requests c" "live c = (rid, req) # requests c"
    using Some a by (simp_all add: live_def)
  have i1: "ids_inv ?c1" "reqs_inv ?c1" "timer_inv ?c1" "engine_inv ?c1"
    using assms(1,2) keep unfolding client_inv_defs live by simp_all
  have "req_state req1 = headers_sent \<longrightarrow> req_state req = headers_sent" using keep by auto
  then have w1: "wake_inv ?c1"
    using assms(1,2) keep Some a unfolding client_inv_def wake_inv_def live in_flight_def by auto
  note d = assms(3) [unfolded http_read_data_def Some a option.case prod.case p ub_bind_simps Let_def]
  have np: "\<not> n < 0"
    using d by (auto simp: http_read_parse_error_def client_then_def Let_def split: prod.splits if_splits)
  show ?thesis
  proof (cases "req_state req1 = completed")
    case False
    with d np i1 w1 show ?thesis by (simp add: client_inv_def)
  next
    case True
    let ?c2 = "?c1\<lparr>active := None\<rparr>"
    have l2: "live ?c2 = requests c" by (simp add: live_def)
    have i2: "ids_inv ?c2" "reqs_inv ?c2" "timer_inv ?c2" "engine_inv ?c2"
      using i1 assms(2) unfolding ids_inv_def reqs_inv_def timer_inv_def engine_inv_def live l2 by simp_all
    have "c' = uv_async_send ?c2 \<or> c' = fst (close_connection ?c2)"
      using d np True by (auto simp: finish_request_def Let_def split: if_splits prod.splits)
    then show ?thesis
    proof
      assume "c' = uv_async_send ?c2"
      with i2 show ?thesis by (simp add: client_inv_defs uv_async_send_def)
    next
      assume "c' = fst (close_connection ?c2)"
      with i2 assms(2) show ?thesis by (simp add: close_connection_result client_inv_defs)
    qed
  qed
qed

lemma cancel_inv:
  assumes "client_inv c" and "tlsuv_http_req_cancel c rid = Inr (rc, c', o1)"
  shows "client_inv c'"
proof -
  let ?q = "map_of (requests c) rid \<noteq> None"
  let ?a = "case active c of None \<Rightarrow> False | Some a \<Rightarrow> fst a = rid"
  consider "\<not> ?q \<and> \<not> ?a" | "?a" | "?q" "\<not> ?a" by blast
  then show ?thesis
  proof cases
    case 1
    with assms show ?thesis by (simp add: tlsuv_http_req_cancel_def)
  next
    case 2
    then obtain r where act: "active c = Some (rid, r)" by (auto split: option.splits)
    then have nq: "map_of (requests c) rid = None"
      using distinct_live [OF assms(1)] by (force simp: live_def map_of_eq_None_iff)
    have f: "find_req c rid = Some r" using act by (simp add: find_req_def)
    have c': "c' = fst (close_connection (c\<lparr>active := None\<rparr>))"
      and st: "req_state r \<noteq> created"
      using assms(2) act nq f
      by (auto simp: tlsuv_http_req_cancel_def cancel_notify_def Let_def ub_bind_Inr state_less_headers_received
          split: prod.splits if_splits)
    then have "connected c = Connected" using find_req_created [OF assms(1) f] by simp
    moreover have "live (c\<lparr>active := None\<rparr>) = requests c" "live c = (rid, r) # requests c"
      using act by (simp_all add: live_def)
    ultimately show ?thesis
      using assms(1) c' by (simp add: close_connection_result client_inv_defs)
  next
    case 3
    let ?rs = "filter (\<lambda>x. fst x \<noteq> rid) (requests c)"
    have c': "c' = c\<lparr>requests := ?rs\<rparr>"
      using assms(2) 3 by (auto simp: tlsuv_http_req_cancel_def Let_def ub_bind_Inr split: option.splits)
    have sub: "set (live c') \<subseteq> set (live c)" and nil: "live c = [] \<longrightarrow> live c' = []"
      by (auto simp: c' live_def split: option.splits)
    have srt: "sorted_wrt (<) (map fst (live c'))"
    proof -
      have "live c' = filter (\<lambda>x. fst x \<noteq> rid) (live c)"
        using 3 by (auto simp: c' live_def split: option.splits)
      then show ?thesis using assms(1) by (simp add: client_inv_defs sorted_wrt_map sorted_wrt_filter)
    qed
    show ?thesis
      using assms(1) sub nil srt unfolding client_inv_defs
      by (auto simp: c' in_flight_def)
  qed
qed

lemma handshake_inv:
  assumes "client_inv c" and "connected c = Handshaking"
  shows "client_inv (fst (on_tls_handshake c st))"
proof (cases st)
  case TLS_HS_COMPLETE
  with assms show ?thesis by (simp add: on_tls_handshake_def uv_async_send_def client_inv_defs)
next
  case TLS_HS_ERROR
  have i: "client_inv (fst (close_connection c))"
    using assms by (intro close_inv_open) (auto simp: client_inv_def reqs_inv_def)
  obtain c2 o2 where f: "fail_active_request (fst (close_connection c)) UV_ECONNABORTED = (c2, o2)" by fastforce
  have "fst (on_tls_handshake c st) = c2"
    using TLS_HS_ERROR f by (simp add: on_tls_handshake_def split_beta Let_def)
  with fail_inv [OF i f] show ?thesis by simp
next
  case TLS_HS_BEFORE
  then show ?thesis
    using assms close_inv_open [OF assms(1)] by (simp add: on_tls_handshake_def client_inv_def reqs_inv_def)
next
  case TLS_HS_CONTINUE
  then show ?thesis
    using assms close_inv_open [OF assms(1)] by (simp add: on_tls_handshake_def client_inv_def reqs_inv_def)
qed

lemma cancel_all_inv:
  assumes "client_inv c" shows "client_inv (fst (tlsuv_http_cancel_all c))"
proof -
  obtain c1 o1 where f: "fail_active_request c UV_ECANCELED = (c1, o1)" by fastforce
  have "fst (tlsuv_http_cancel_all c) = fst (close_connection c1)"
    by (simp add: tlsuv_http_cancel_all_def f split_beta Let_def)
  with fail_inv [OF assms f] close_inv_idle show ?thesis by metis
qed

lemma timer_event_inv:
  assumes "client_inv c" and "client_do env c On_Timer = Inr (c', o1)"
  shows "client_inv c'"
proof (cases "conn_timer c")
  case Timer_Stopped
  with assms show ?thesis by (simp add: quiet_def)
next
  case (Timer_Idle ms)
  let ?c1 = "c\<lparr>conn_timer := Timer_Stopped\<rparr>"
  have "client_inv ?c1 \<and> live ?c1 = []"
    using assms(1) Timer_Idle by (simp add: client_inv_defs)
  moreover have "c' = fst (close_connection ?c1)"
    using assms(2) Timer_Idle by (simp add: idle_timeout_def)
  ultimately show ?thesis using close_inv_idle by blast
next
  case (Timer_Connect ms)
  let ?c1 = "c\<lparr>conn_timer := Timer_Stopped\<rparr>"
  have i: "client_inv ?c1" and c: "connected ?c1 = Connecting"
    using assms(1) Timer_Connect by (simp_all add: client_inv_defs in_flight_def)
  obtain o2 where "src_connect_cb ?c1 UV_ETIMEDOUT = Inr (c', o2)"
    using assms(2) Timer_Connect by (auto simp: src_connect_timeout_def client_then_def ub_bind_Inr)
  with src_connect_inv [OF i] c show ?thesis by blast
qed

lemma link_close_inv:
  assumes "client_inv c" and "link_close_cb c = Inr (c', o1)" shows "client_inv c'"
proof -
  have "c' = c\<lparr>links_closing := links_closing c - 1, proc_pending := True\<rparr>"
    using assms(2) by (simp add: link_close_cb_def uv_async_send_def split: if_splits)
  with assms(1) show ?thesis by (simp add: client_inv_defs)
qed

text \<open>The invariant does not depend on the remaining configuration.\<close>

lemma client_inv_config [simp]:
  "client_inv (c\<lparr>clt_headers := hl\<rparr>) = client_inv c" "client_inv (c\<lparr>clt_prefix := p\<rparr>) = client_inv c"
  "client_inv (c\<lparr>connect_timeout := m\<rparr>) = client_inv c" "client_inv (c\<lparr>idle_time := m\<rparr>) = client_inv c"
  "client_inv (c\<lparr>clt_tls := b\<rparr>) = client_inv c" "client_inv (c\<lparr>body_writes := w\<rparr>) = client_inv c"
  by (simp_all add: client_inv_defs in_flight_def)

text \<open>A change of the URL touches the configuration only; a host that was set before marks the change.\<close>

lemma set_url_fields:
  assumes "tlsuv_http_set_url c url = (rc, c')"
  shows "c' = c \<or> (\<exists>ssl h hl port pfx. c' = c\<lparr>clt_ssl := ssl, host_change := host_change c \<or> clt_host c \<noteq> None,
    clt_headers := hl, clt_host := Some h, clt_port := port, clt_prefix := pfx\<rparr> \<and> rc = 0)"
  using assms
  by (cases c) (auto simp: tlsuv_http_set_url_def tlsuv_http_header_def http_set_prefix_def Let_def
      split: prod.splits if_splits option.splits)

lemma set_url_inv:
  assumes "client_inv c" shows "client_inv (snd (tlsuv_http_set_url c url))"
proof -
  obtain rc c' where s: "tlsuv_http_set_url c url = (rc, c')" by fastforce
  have h: "clt_host c \<noteq> None" using assms by (simp add: client_inv_def engine_inv_def)
  from set_url_fields [OF s] show ?thesis
  proof (elim disjE exE conjE)
    assume "c' = c"
    with s assms show ?thesis by simp
  next
    fix ssl ho hl port pfx
    assume "c' = c\<lparr>clt_ssl := ssl, host_change := host_change c \<or> clt_host c \<noteq> None, clt_headers := hl,
      clt_host := Some ho, clt_port := port, clt_prefix := pfx\<rparr>"
    with s h assms show ?thesis by (simp add: client_inv_defs in_flight_def)
  qed
qed

lemma init_inv:
  fixes c :: "('p, 'z) tlsuv_http"
  assumes "tlsuv_http_init so url = (0, c)" shows "client_inv c"
proof -
  obtain rc and c1 :: "('p, 'z) tlsuv_http" where s: "tlsuv_http_set_url http_fields_init url = (rc, c1)"
    by fastforce
  note i = assms [unfolded tlsuv_http_init_def tlsuv_http_init_with_src_def s Let_def prod.case]
  have rc: "rc = 0" using i by (auto split: if_splits)
  have "c1 \<noteq> http_fields_init"
    using s rc by (auto simp: tlsuv_http_set_url_def tlsuv_http_header_def http_set_prefix_def Let_def
        http_fields_init_def uv_codes split: prod.splits if_splits option.splits)
  with set_url_fields [OF s] obtain ssl hc h hl port pfx where
    "c1 = http_fields_init\<lparr>clt_ssl := ssl, host_change := hc, clt_headers := hl, clt_host := Some h,
       clt_port := port, clt_prefix := pfx\<rparr>"
    by blast
  moreover have "\<exists>hl. c = c1\<lparr>clt_headers := hl, own_src := True\<rparr>"
    using i rc by (auto simp: tlsuv_http_header_def split: option.splits)
  ultimately show ?thesis
    by (auto simp: client_inv_defs http_fields_init_def live_def)
qed

lemma client_do_inv:
  assumes "client_inv c" and "client_enabled c a" and "client_do env c a = Inr (c', o1)"
  shows "client_inv c'"
proof (cases a)
  case (Do_Req m p)
  with assms show ?thesis using tlsuv_http_req_inv by (fastforce simp: quiet_def)
next
  case (Do_Req_Header rid n v)
  with assms show ?thesis by (auto simp: quiet_def ub_bind_Inr dest: set_header_inv)
next
  case (Do_Req_Data rid b cb)
  with assms show ?thesis by (auto simp: quiet_def ub_bind_Inr dest: req_data_inv)
next
  case (Do_Req_End rid)
  with assms show ?thesis by (auto simp: quiet_def ub_bind_Inr dest: req_end_inv)
next
  case (Do_Req_Cancel rid)
  with assms show ?thesis by (auto simp: ub_bind_Inr dest: cancel_inv)
next
  case Do_Cancel_All
  with assms show ?thesis using cancel_all_inv [OF assms(1)] by (metis client_do.simps(6) fst_conv sum.inject(2))
next
  case (Do_Set_Url url)
  with assms show ?thesis using set_url_inv [OF assms(1), of url] by (simp add: quiet_def)
next
  case (Do_Header n v)
  with assms show ?thesis by (auto simp: quiet_def tlsuv_http_header_def)
next
  case (Do_Set_Path_Prefix p)
  with assms show ?thesis
    by (auto simp: tlsuv_http_set_path_prefix_def http_set_prefix_def split: option.splits)
next
  case (Do_Connect_Timeout ms)
  with assms show ?thesis by (auto simp: quiet_def tlsuv_http_connect_timeout_def)
next
  case (Do_Idle_Keepalive ms)
  with assms show ?thesis by (auto simp: quiet_def tlsuv_http_idle_keepalive_def)
next
  case (Do_Set_Ssl b)
  with assms show ?thesis by (auto simp: quiet_def tlsuv_http_set_ssl_def)
next
  case On_Proc
  with assms show ?thesis using process_requests_inv by (metis client_do.simps(13))
next
  case On_Timer
  with assms show ?thesis using timer_event_inv by blast
next
  case (On_Src_Connect st)
  with assms show ?thesis using src_connect_inv [OF assms(1)] by simp
next
  case (On_Handshake st)
  with assms show ?thesis using handshake_inv [OF assms(1), of st] by (cases "on_tls_handshake c st") simp
next
  case On_Link_Close
  with assms show ?thesis using link_close_inv by simp
next
  case (On_Read n buf)
  then have r: "http_read_cb env c n buf = Inr (c', o1)" using assms(3) by simp
  show ?thesis
  proof (cases "n < 0")
    case True
    with r read_error_inv [OF assms(1), of n] show ?thesis
      by (cases "http_read_error c n") (simp add: http_read_cb_def)
  next
    case False
    with r assms(2) On_Read read_data_inv [OF assms(1)] show ?thesis by (auto simp: http_read_cb_def)
  qed
next
  case (On_Body_Written st)
  with assms show ?thesis
    by (auto simp: req_write_body_cb_def split: list.splits)
qed

lemma client_run_inv: "client_run env c tr \<Longrightarrow> client_inv c"
  by (induction rule: client_run.induct) (blast intro: init_inv client_do_inv)+

section \<open>Every request is freed once\<close>

fun freed :: "client_out list \<Rightarrow> nat list" where
  "freed [] = []"
| "freed (Req_Free i # os) = i # freed os"
| "freed (o1 # os) = freed os"

lemma freed_append [simp]: "freed (a @ b) = freed a @ freed b"
  by (induction a rule: freed.induct) auto

lemma freed_none: "(\<And>i. Req_Free i \<notin> set os) \<Longrightarrow> freed os = []"
proof (induction os)
  case (Cons x os)
  have "freed os = []" using Cons.IH Cons.prems by simp
  then show ?case using Cons.prems [of "case x of Req_Free i \<Rightarrow> i"] by (cases x) auto
qed simp

lemma freed_map [simp]: "freed (map Link_Write ws) = []" "freed (map (User_Http rid) es) = []"
  by (rule freed_none, auto)+

lemma freed_clear [simp]: "freed (clear_req_body rid bs code) = []"
  by (induction bs) auto

lemma freed_fail_resp [simp]: "freed (fail_resp r code) = []"
  by (simp add: fail_resp_def)

lemma freed_fail_out: "freed (concat (map (fail_out code) rs)) = map fst rs"
  by (induction rs) (simp_all add: fail_out_def)

lemma freed_close [simp]: "freed (snd (close_connection c)) = []"
  by (simp add: close_connection_out)

text \<open>The balance of a step: what was live or is created is live afterwards or freed by the step.\<close>

definition balanced :: "('p, 'z) tlsuv_http \<Rightarrow> client_out list \<Rightarrow> ('p, 'z) tlsuv_http \<Rightarrow> bool" where
  "balanced c os c' \<longleftrightarrow> next_req c \<le> next_req c' \<and>
     mset (map fst (live c')) + mset (freed os) = mset (map fst (live c)) + mset [next_req c..<next_req c']"

lemma balanced_same:
  "map fst (live c') = map fst (live c) \<Longrightarrow> next_req c' = next_req c \<Longrightarrow> freed os = [] \<Longrightarrow> balanced c os c'"
  by (simp add: balanced_def)

lemma balanced_fail:
  assumes "client_inv c" and "fail_active_request c code = (c1, o1)"
  shows "map fst (live c1) = []" and "freed o1 = map fst (live c)" and "next_req c1 = next_req c"
  using assms(2) fail_active_result [of c code] assms(1)
  by (auto simp: client_inv_def reqs_inv_def live_def freed_fail_out)

lemma close_live [simp]: "live (fst (close_connection c)) = live c" "next_req (fst (close_connection c)) = next_req c"
  by (simp_all add: close_connection_result)

lemma balanced_src_connect:
  assumes "reqs_inv c" and "src_connect_cb c st = Inr (c', o1)"
  shows "balanced c o1 c'"
proof (cases "st = 0")
  case True
  then show ?thesis
    using assms(2)
    by (auto simp: src_connect_cb_def make_links_def make_links_tls_def client_then_def ub_bind_Inr uv_async_send_def Let_def
        intro!: balanced_same split: status.splits if_splits option.splits)
next
  case False
  let ?c1 = "c\<lparr>conn_timer := Timer_Stopped, connected := Disconnected\<rparr>"
  have rs: "\<forall>r \<in> set (live ?c1). has_resp_cb (snd r)" using assms(1) by (simp add: reqs_inv_def)
  have "c' = uv_async_send (fst (fail_active_request ?c1 st))" "o1 = snd (fail_active_request ?c1 st)"
    using False assms(2) by (auto simp: src_connect_cb_def Let_def split: prod.splits)
  then show ?thesis
    unfolding fail_active_result [OF rs] by (simp add: balanced_def uv_async_send_def freed_fail_out live_def)
qed

lemma balanced_start:
  assumes "reqs_inv c" and "start_connect env c = Inr (c', o1)" and "connected c = Disconnected"
  shows "balanced c o1 c'"
proof -
  let ?c1 = "c\<lparr>connected := Connecting\<rparr>"
  let ?c2 = "if connect_timeout ?c1 > 0 then ?c1\<lparr>conn_timer := Timer_Connect (connect_timeout ?c1)\<rparr> else ?c1"
  obtain h where h: "clt_host ?c2 = Some h"
    using assms(2) by (auto simp: start_connect_def Let_def split: option.splits)
  have l: "live ?c2 = live c" "next_req ?c2 = next_req c" by simp_all
  show ?thesis
  proof (cases "cl_connect env h (clt_port ?c2) = 0")
    case True
    with assms(2) h have "c' = ?c2" "o1 = [Src_Connect h (clt_port ?c2)]"
      by (auto simp: start_connect_def Let_def split: if_splits)
    then show ?thesis using l by (intro balanced_same) simp_all
  next
    case False
    with assms(2) h obtain o2 where s: "src_connect_cb ?c2 (cl_connect env h (clt_port ?c2)) = Inr (c', o2)"
      and o: "o1 = [Src_Connect h (clt_port ?c2)] @ o2"
      by (auto simp: start_connect_def Let_def client_then_def ub_bind_Inr split: if_splits)
    have "reqs_inv ?c2" using assms(1,3) by (simp add: reqs_inv_def)
    from balanced_src_connect [OF this s] show ?thesis using l o by (simp add: balanced_def)
  qed
qed

lemma balanced_process:
  assumes "client_inv c0" and "process_requests env c0 = Inr (c', o1)"
  shows "balanced c0 o1 c'"
proof -
  let ?c = "take_next (c0\<lparr>proc_pending := False\<rparr>)"
  note f = take_next_fields [of "c0\<lparr>proc_pending := False\<rparr>"]
  note p = assms(2) [unfolded process_requests_def Let_def]
  show ?thesis
  proof (cases "active ?c")
    case None
    then show ?thesis using p f by (intro balanced_same) (auto split: if_splits)
  next
    case (Some a)
    obtain rid req where a: "a = (rid, req)" by (cases a)
    show ?thesis
    proof (cases "connected ?c = Connected")
      case True
      then have s: "send_active ?c (rid, req) = Inr (c', o1)" using p Some a by simp
      from send_active_result [OF s] obtain r' ws where c': "c' = ?c\<lparr>active := Some (rid, r'), body_writes := ws\<rparr>"
        by blast
      have "freed o1 = []" using s by (auto simp: send_active_def ub_bind_Inr)
      moreover have "map fst (live c') = map fst (live ?c)" using Some a c' by (simp add: live_def)
      ultimately show ?thesis using f c' by (intro balanced_same) simp_all
    next
      case False
      then consider "connected ?c = Disconnected" | "c' = ?c" "o1 = []"
        using p Some by (auto split: if_splits)
      then show ?thesis
      proof cases
        case 1
        then have s: "start_connect env ?c = Inr (c', o1)" using p Some by simp
        have i: "reqs_inv ?c" "client_inv c0" using assms(1) take_next_reqs [of "c0\<lparr>proc_pending := False\<rparr>"]
          by (simp_all add: client_inv_def reqs_inv_def)
        show ?thesis using balanced_start [OF i(1) s 1] f by (simp add: balanced_def)
      next
        case 2
        then show ?thesis using f by (intro balanced_same) simp_all
      qed
    qed
  qed
qed

lemma mset_remove_key:
  "distinct (map fst xs) \<Longrightarrow> map_of xs k = Some r \<Longrightarrow>
     mset (map fst xs) = add_mset k (mset (map fst (filter (\<lambda>x. fst x \<noteq> k) xs)))"
proof (induction xs)
  case (Cons x xs)
  show ?case
  proof (cases "fst x = k")
    case True
    then have "filter (\<lambda>x. fst x \<noteq> k) xs = xs" using Cons.prems(1) by (intro filter_True ballI) (auto simp: image_iff)
    with True show ?thesis by simp
  next
    case False
    with Cons show ?thesis by (cases x) simp
  qed
qed simp

lemma balanced_read_error:
  assumes "client_inv c" and "http_read_error c nread = (c', o1)" shows "balanced c o1 c'"
proof -
  obtain c1 o2 where f: "(if active c \<noteq> None then fail_active_request c nread else (c, [])) = (c1, o2)"
    by fastforce
  have b: "balanced c o2 c1"
  proof (cases "active c = None")
    case True
    with f show ?thesis by (intro balanced_same) auto
  next
    case False
    with f have "fail_active_request c nread = (c1, o2)" by simp
    from balanced_fail [OF assms(1) this] show ?thesis by (simp add: balanced_def)
  qed
  have "c' = uv_async_send (fst (close_connection c1))" "o1 = o2 @ snd (close_connection c1)"
    using assms(2) [unfolded http_read_error_def f] by (auto simp: split_beta)
  with b show ?thesis by (simp add: balanced_def uv_async_send_def)
qed

lemma balanced_read_data:
  assumes "client_inv c" and "http_read_data env c buf = Inr (c', o1)"
  shows "balanced c o1 c'"
proof (cases "active c")
  case None
  with assms(2) show ?thesis by (intro balanced_same) (auto simp: http_read_data_def)
next
  case (Some a)
  obtain rid req where a: "a = (rid, req)" by (cases a)
  obtain n req1 ev where p: "(if buf = [] then Inr (0, req, [])
      else http_req_process (cl_exec env) (cl_resume env) (cl_http env) req buf) = Inr (n, req1, ev)"
    using assms(2) Some a by (auto simp: http_read_data_def ub_bind_Inr)
  note d = assms(2) [unfolded http_read_data_def Some a option.case prod.case p ub_bind_simps Let_def]
  have np: "\<not> n < 0"
    using d by (auto simp: http_read_parse_error_def client_then_def Let_def split: prod.splits if_splits)
  let ?c1 = "c\<lparr>active := Some (rid, req1)\<rparr>"
  let ?c2 = "?c1\<lparr>active := None\<rparr>"
  have live: "live c = (rid, req) # requests c" "live ?c1 = (rid, req1) # requests c" "live ?c2 = requests c"
    using Some a by (simp_all add: live_def)
  show ?thesis
  proof (cases "req_state req1 = completed")
    case False
    with d np have "c' = ?c1" "o1 = map (User_Http rid) ev" by auto
    then show ?thesis using live by (intro balanced_same) simp_all
  next
    case True
    let ?o = "if keep_alive (req_resp req1) then [] else snd (close_connection ?c2)"
    have "c' = (if keep_alive (req_resp req1) then uv_async_send ?c2 else fst (close_connection ?c2))"
      "o1 = map (User_Http rid) ev @ [Req_Free rid] @ ?o"
      using d np True by (auto simp: finish_request_def Let_def split: if_splits prod.splits)
    then show ?thesis using live by (simp add: balanced_def uv_async_send_def)
  qed
qed

lemma balanced_cancel:
  assumes "client_inv c" and "tlsuv_http_req_cancel c rid = Inr (rc, c', o1)"
  shows "balanced c o1 c'"
proof -
  let ?q = "map_of (requests c) rid \<noteq> None"
  let ?a = "case active c of None \<Rightarrow> False | Some a \<Rightarrow> fst a = rid"
  have note_free: "cancel_notify q r = Inr os \<Longrightarrow> freed os = []" for q r os
    by (auto simp: cancel_notify_def split: if_splits)
  consider "\<not> ?q \<and> \<not> ?a" | "?a" | "?q" "\<not> ?a" by blast
  then show ?thesis
  proof cases
    case 1
    with assms(2) show ?thesis by (intro balanced_same) (auto simp: tlsuv_http_req_cancel_def)
  next
    case 2
    then obtain r where act: "active c = Some (rid, r)" by (auto split: option.splits)
    let ?c1 = "c\<lparr>active := None\<rparr>"
    obtain o3 where "cancel_notify ?q (rid, r) = Inr o3" and c': "c' = fst (close_connection ?c1)"
      and o1: "o1 = snd (close_connection ?c1) @ clear_req_body rid (req_body r) UV_ECANCELED @ o3 @ [Req_Free rid]"
      using assms(2) act
      by (auto simp: tlsuv_http_req_cancel_def find_req_def Let_def ub_bind_Inr split: prod.splits)
    then have "freed o1 = [rid]" using note_free by simp
    moreover have "live ?c1 = requests c" "live c = (rid, r) # requests c" using act by (simp_all add: live_def)
    ultimately show ?thesis using c' by (simp add: balanced_def)
  next
    case 3
    let ?rs = "filter (\<lambda>x. fst x \<noteq> rid) (requests c)"
    obtain r where r: "map_of (requests c) rid = Some r" using 3(1) by blast
    obtain o3 where "cancel_notify True (rid, the (find_req c rid)) = Inr o3" and c': "c' = c\<lparr>requests := ?rs\<rparr>"
      and o1: "o1 = clear_req_body rid (req_body (the (find_req c rid))) UV_ECANCELED @ o3 @ [Req_Free rid]"
      using assms(2) 3 by (auto simp: tlsuv_http_req_cancel_def Let_def ub_bind_Inr split: option.splits)
    then have f: "freed o1 = [rid]" using note_free by simp
    have "distinct (map fst (requests c))" using distinct_live [OF assms(1)] by (auto simp: live_def)
    then have "mset (map fst (requests c)) = add_mset rid (mset (map fst ?rs))"
      by (rule mset_remove_key [OF _ r])
    then have "mset (map fst (live c)) = add_mset rid (mset (map fst (live c')))"
      by (simp add: live_def c' split: option.splits)
    with f c' show ?thesis by (simp add: balanced_def)
  qed
qed

lemma balanced_cancel_all:
  assumes "client_inv c" and "tlsuv_http_cancel_all c = (c', o1)"
  shows "balanced c o1 c'"
proof -
  obtain c1 o2 where f: "fail_active_request c UV_ECANCELED = (c1, o2)" by fastforce
  have "c' = fst (close_connection c1)" "o1 = o2 @ snd (close_connection c1)"
    using assms(2) by (auto simp: tlsuv_http_cancel_all_def f split_beta Let_def)
  with balanced_fail [OF assms(1) f] show ?thesis by (simp add: balanced_def)
qed

lemma balanced_timer:
  assumes "client_inv c" and "client_do env c On_Timer = Inr (c', o1)"
  shows "balanced c o1 c'"
proof -
  have "reqs_inv (c\<lparr>conn_timer := Timer_Stopped\<rparr>)" using assms(1) by (simp add: client_inv_def reqs_inv_def)
  note sc = balanced_src_connect [OF this]
  show ?thesis
  proof (cases "conn_timer c")
    case (Timer_Connect ms)
    then obtain o2 where "src_connect_cb (c\<lparr>conn_timer := Timer_Stopped\<rparr>) UV_ETIMEDOUT = Inr (c', o2)"
      and "o1 = o2 @ [Src_Cancel]"
      using assms(2) by (auto simp: src_connect_timeout_def client_then_def ub_bind_Inr)
    with sc show ?thesis by (simp add: balanced_def)
  next
    case (Timer_Idle ms)
    then have "c' = fst (close_connection (c\<lparr>conn_timer := Timer_Stopped\<rparr>))"
      "o1 = snd (close_connection (c\<lparr>conn_timer := Timer_Stopped\<rparr>))"
      using assms(2) by (simp_all add: idle_timeout_def)
    then show ?thesis by (intro balanced_same) simp_all
  next
    case Timer_Stopped
    with assms(2) show ?thesis by (intro balanced_same) (auto simp: quiet_def)
  qed
qed

lemma balanced_handshake:
  assumes "client_inv c" and "on_tls_handshake c st = (c', o1)"
  shows "balanced c o1 c'"
proof (cases st)
  case TLS_HS_ERROR
  obtain c1 o2 where f: "fail_active_request (fst (close_connection c)) UV_ECONNABORTED = (c1, o2)" by fastforce
  have rs: "\<forall>r \<in> set (live (fst (close_connection c))). has_resp_cb (snd r)"
    using assms(1) by (simp add: client_inv_def reqs_inv_def)
  have "c' = c1" "o1 = snd (close_connection c) @ o2"
    using assms(2) TLS_HS_ERROR f by (auto simp: on_tls_handshake_def split_beta Let_def)
  moreover have "live c1 = [] \<and> freed o2 = map fst (live c) \<and> next_req c1 = next_req c"
    using f fail_active_result [OF rs, of UV_ECONNABORTED] by (auto simp: live_def freed_fail_out close_connection_result)
  ultimately show ?thesis by (simp add: balanced_def)
next
  case TLS_HS_COMPLETE
  with assms(2) show ?thesis
    by (intro balanced_same) (auto simp: on_tls_handshake_def uv_async_send_def)
next
  case TLS_HS_BEFORE
  with assms(2) have "c' = fst (close_connection c)" "o1 = snd (close_connection c)"
    by (simp_all add: on_tls_handshake_def)
  then show ?thesis by (intro balanced_same) simp_all
next
  case TLS_HS_CONTINUE
  with assms(2) have "c' = fst (close_connection c)" "o1 = snd (close_connection c)"
    by (simp_all add: on_tls_handshake_def)
  then show ?thesis by (intro balanced_same) simp_all
qed

lemma balanced_do:
  assumes "client_inv c" and "client_do env c a = Inr (c', o1)"
  shows "balanced c o1 c'"
proof (cases a)
  case (Do_Req m p)
  with assms(2) show ?thesis
    by (auto simp: quiet_def tlsuv_http_req_def Let_def uv_async_send_def balanced_def live_def)
next
  case (Do_Req_Header rid n v)
  then have "\<exists>r. c' = put_req c rid r" "o1 = []"
    using assms(2) by (auto simp: quiet_def ub_bind_Inr tlsuv_http_req_header_def split: option.splits)
  then show ?thesis using live_put_req by (intro balanced_same) auto
next
  case (Do_Req_Data rid b cb)
  then have "c' = c \<or> (\<exists>r. c' = uv_async_send (put_req c rid r))" "o1 = []"
    using assms(2) by (auto simp: quiet_def ub_bind_Inr tlsuv_http_req_data_def split: option.splits if_splits)
  then show ?thesis using live_put_req by (intro balanced_same) (auto simp: uv_async_send_def)
next
  case (Do_Req_End rid)
  then have "c' = c \<or> (\<exists>r. c' = uv_async_send (put_req c rid r))" "o1 = []"
    using assms(2) by (auto simp: quiet_def ub_bind_Inr tlsuv_http_req_end_def split: option.splits if_splits)
  then show ?thesis using live_put_req by (intro balanced_same) (auto simp: uv_async_send_def)
next
  case (Do_Req_Cancel rid)
  with assms show ?thesis by (auto simp: ub_bind_Inr dest: balanced_cancel)
next
  case Do_Cancel_All
  with assms balanced_cancel_all [OF assms(1)] show ?thesis by (cases "tlsuv_http_cancel_all c") simp
next
  case (Do_Set_Url url)
  obtain rc c2 where s: "tlsuv_http_set_url c url = (rc, c2)" by fastforce
  from set_url_fields [OF s] have "live c2 = live c \<and> next_req c2 = next_req c" by auto
  with assms(2) Do_Set_Url s show ?thesis by (intro balanced_same) (auto simp: quiet_def)
next
  case On_Proc
  with assms show ?thesis using balanced_process by (metis client_do.simps(13))
next
  case On_Timer
  with assms show ?thesis using balanced_timer by blast
next
  case (On_Src_Connect st)
  with assms balanced_src_connect [of c st c' o1] show ?thesis by (simp add: client_inv_def)
next
  case (On_Handshake st)
  with assms balanced_handshake [OF assms(1), of st] show ?thesis by (cases "on_tls_handshake c st") simp
next
  case On_Link_Close
  with assms(2) show ?thesis by (intro balanced_same) (auto simp: link_close_cb_def uv_async_send_def split: if_splits)
next
  case (On_Read n buf)
  show ?thesis
  proof (cases "n < 0")
    case True
    with assms On_Read balanced_read_error [OF assms(1), of n] show ?thesis
      by (cases "http_read_error c n") (simp add: http_read_cb_def)
  next
    case False
    with assms On_Read balanced_read_data [OF assms(1)] show ?thesis by (auto simp: http_read_cb_def)
  qed
next
  case (On_Body_Written st)
  with assms(2) show ?thesis by (intro balanced_same) (auto simp: req_write_body_cb_def split: list.splits if_splits)
qed (use assms(2) in \<open>auto simp: quiet_def tlsuv_http_header_def tlsuv_http_set_path_prefix_def http_set_prefix_def
      tlsuv_http_connect_timeout_def tlsuv_http_idle_keepalive_def tlsuv_http_set_ssl_def
      intro!: balanced_same split: option.splits\<close>)

lemma init_empty: 
  fixes c :: "('p, 'z) tlsuv_http"
  assumes "tlsuv_http_init so url = (0, c)" shows "live c = [] \<and> next_req c = 0"
proof -
  obtain rc and c1 :: "('p, 'z) tlsuv_http" where s: "tlsuv_http_set_url http_fields_init url = (rc, c1)"
    by fastforce
  note i = assms [unfolded tlsuv_http_init_def tlsuv_http_init_with_src_def s Let_def prod.case]
  from set_url_fields [OF s] have "live c1 = [] \<and> next_req c1 = 0"
    by (auto simp: http_fields_init_def live_def)
  with i show ?thesis by (auto simp: tlsuv_http_header_def split: if_splits option.splits)
qed

lemma client_run_balance:
  "client_run env c tr \<Longrightarrow> mset (map fst (live c)) + mset (freed tr) = mset [0..<next_req c]"
proof (induction rule: client_run.induct)
  case (start so url c)
  from init_empty [OF start] show ?case by simp
next
  case (step c tr a c' o1)
  have b: "balanced c o1 c'" using balanced_do client_run_inv step by blast
  let ?new = "mset [next_req c..<next_req c']"
  have "next_req c \<le> next_req c'" using b by (simp add: balanced_def)
  then have "[0..<next_req c'] = [0..<next_req c] @ [next_req c..<next_req c']"
    by (metis upt_add_eq_append zero_le le_add_diff_inverse)
  then have n: "mset [0..<next_req c'] = mset [0..<next_req c] + ?new" by (simp only: mset_append)
  have "mset (map fst (live c')) + mset (freed (tr @ o1)) =
      (mset (map fst (live c')) + mset (freed o1)) + mset (freed tr)"
    unfolding freed_append mset_append by (simp only: ac_simps)
  also have "\<dots> = (mset (map fst (live c)) + ?new) + mset (freed tr)"
    using b by (simp only: balanced_def)
  also have "\<dots> = (mset (map fst (live c)) + mset (freed tr)) + ?new" by (simp only: ac_simps)
  also have "\<dots> = mset [0..<next_req c']" unfolding step.IH n ..
  finally show ?case .
qed

end
