(* ===== verification/Http_Client_Props.thy ===== *)
theory Http_Client_Props
  imports Http_Client_Inv
begin

text \<open>
  The properties of the HTTP client that follow from its invariant, the effect of setting the URL, and
  the runs and lemmas that show where the code leaves the defined behaviour.
\<close>

section \<open>Runs of the machine\<close>

text \<open>A sequence of actions as a function: \<open>None\<close> when an action is not enabled.\<close>

fun client_steps :: "('p, 'z) client_env \<Rightarrow> ('p, 'z) tlsuv_http \<Rightarrow> client_action list \<Rightarrow> ('p, 'z) client_result option" where
  "client_steps env c [] = Some (Inr (c, []))"
| "client_steps env c (a # as) =
     (if client_enabled c a
      then (case client_do env c a of
              Inl e \<Rightarrow> Some (Inl e)
            | Inr (c1, o1) \<Rightarrow> map_option (\<lambda>r. ub_bind r (\<lambda>(c2, o2). Inr (c2, o1 @ o2))) (client_steps env c1 as))
      else None)"

lemma client_steps_run:
  "client_run env c tr \<Longrightarrow> client_steps env c as = Some (Inr (c', os)) \<Longrightarrow> client_run env c' (tr @ os)"
proof (induction as arbitrary: c tr os)
  case Nil
  then show ?case by simp
next
  case (Cons a as)
  obtain c1 o1 where d: "client_enabled c a" "client_do env c a = Inr (c1, o1)"
    using Cons.prems(2) by (auto split: if_splits sum.splits)
  then obtain o2 where s: "client_steps env c1 as = Some (Inr (c', o2))" and os: "os = o1 @ o2"
    using Cons.prems(2) by (auto simp: ub_bind_Inr)
  have "client_run env c1 (tr @ o1)" using Cons.prems(1) d by (rule client_run.step)
  from Cons.IH [OF this s] os show ?case by simp
qed

definition demo_cenv :: "(unit, bool) client_env" where
  "demo_cenv = \<lparr>cl_exec = (\<lambda>p buf. (response_calls 200 ''OK'' [] [buf], HPE_OK, length buf, p)),
     cl_resume = (\<lambda>p. p), cl_parser0 = (), cl_http = demo_env, cl_connect = (\<lambda>h p. 0)\<rparr>"

definition demo_client :: "string \<Rightarrow> (unit, bool) tlsuv_http" where
  "demo_client url = snd (tlsuv_http_init (env_so demo_env) url)"

lemma demo_run:
  assumes "fst (tlsuv_http_init (env_so demo_env) url :: int \<times> (unit, bool) tlsuv_http) = 0"
    and "client_steps demo_cenv (demo_client url) as = Some (Inr (c', os))"
  shows "client_run demo_cenv c' os"
proof -
  have "client_run demo_cenv (demo_client url) []"
    using assms(1) by (intro client_run.start [of "env_so demo_env" url]) (simp add: demo_client_def prod_eq_iff)
  from client_steps_run [OF this assms(2)] show ?thesis by simp
qed

lemma demo_run_case:
  assumes "fst (tlsuv_http_init (env_so demo_env) url :: int \<times> (unit, bool) tlsuv_http) = 0"
    and "case client_steps demo_cenv (demo_client url) as of Some (Inr (c, os)) \<Rightarrow> P c os | _ \<Rightarrow> False"
  obtains c os where "client_run demo_cenv c os" and "P c os"
  using assms(2) demo_run [OF assms(1)] by (auto split: option.splits sum.splits, blast)

section \<open>Defects\<close>

text \<open>A response that the parser rejects always ends in undefined behaviour.\<close>

lemma parse_error_is_undefined:
  assumes "active c = Some (rid, req)" and "buf \<noteq> []"
    and "http_req_process (cl_exec env) (cl_resume env) (cl_http env) req buf = Inr (n, req1, ev)" and "n < 0"
  shows "\<exists>e. http_read_data env c buf = Inl e"
  using assms by (auto simp: http_read_data_def client_then_def http_read_parse_error_def Let_def split: prod.splits)

text \<open>So does cancelling the active request before the response headers have come.\<close>

lemma cancel_active_is_undefined:
  assumes "active c = Some (rid, req)" and "map_of (requests c) rid = None" and "req_state req < headers_received"
  shows "tlsuv_http_req_cancel c rid = Inl Null_Deref"
  using assms
  by (simp add: tlsuv_http_req_cancel_def cancel_notify_def find_req_def Let_def split: prod.splits)

text \<open>An https client whose URL is set again before its first connection crashes when it connects.\<close>

lemma set_url_before_connect_crashes:
  "client_steps demo_cenv (demo_client ''https://a'')
     [Do_Set_Url ''https://b'', Do_Req ''GET'' ''/'', On_Proc, On_Src_Connect 0] = Some (Inl Null_Deref)"
  by code_simp

text \<open>A second request stops the connect timer of the attempt that is under way.\<close>

lemma second_request_stops_connect_timer:
  "case client_steps demo_cenv (demo_client ''http://a'')
     [Do_Connect_Timeout 100, Do_Req ''GET'' ''/'', On_Proc, Do_Req ''GET'' ''/''] of
     Some (Inr (c, os)) \<Rightarrow> connected c = Connecting \<and> conn_timer c = Timer_Stopped | _ \<Rightarrow> False"
  by code_simp

text \<open>A prefix of a supported scheme is accepted, and a change from https to http keeps TLS on.\<close>

lemma scheme_prefix_accepted:
  "fst (tlsuv_http_set_url (http_fields_init :: (unit, unit) tlsuv_http) ''ht://x'') = 0"
  by code_simp

lemma ssl_is_never_reset:
  "clt_ssl (snd (tlsuv_http_set_url (demo_client ''https://a'') ''http://a''))"
  by code_simp

section \<open>Setting the URL\<close>

lemma http_scheme_port_render:
  assumes "scheme = ''http'' \<or> scheme = ''https''"
  shows "http_scheme_port (render_url scheme host port pq) (length scheme) =
    Some (if scheme = ''https'' then (443, True) else (80, False))"
  using assms by (auto simp: http_scheme_port_def strncasecmp_eq_def render_url_def)

text \<open>The fields of a parsed URL that the client reads.\<close>

lemma parse_url_render_fields:
  assumes "url_parts_ok scheme host port pq"
  shows "\<exists>u. tlsuv_parse_url (render_url scheme host port pq) = (0, u) \<and>
    url_scheme u = Some (render_url scheme host port pq) \<and> url_scheme_len u = length scheme \<and>
    (\<exists>r. url_hostname u = Some (host @ r)) \<and> url_hostname_len u = length host \<and>
    url_port u = (case port of None \<Rightarrow> 0 | Some n \<Rightarrow> of_nat n) \<and>
    (case pq of None \<Rightarrow> url_path u = None
       | Some x \<Rightarrow> \<exists>r. url_path u = Some (fst x @ r) \<and> url_path_len u = length (fst x))"
  unfolding parse_url_render [OF assms]
  by (auto simp: Let_def url_zero_def render_tail_def split: option.splits)

lemma of_nat_port:
  assumes "0 < n" and "n \<le> 65535"
  shows "(of_nat n :: uint16) \<noteq> 0" and "unat (of_nat n :: uint16) = n"
proof -
  show u: "unat (of_nat n :: uint16) = n" using assms by (simp add: unat_of_nat take_bit_nat_eq_self)
  show "(of_nat n :: uint16) \<noteq> 0" using u assms(1) by (metis less_numeral_extra(3) unat_0)
qed

lemma set_url_result:
  assumes "url_parts_ok scheme host port pq" and "scheme = ''http'' \<or> scheme = ''https''"
    and "CHR 0x00 \<notin> set host"
  shows "tlsuv_http_set_url c (render_url scheme host port pq) =
    (0, c\<lparr>clt_ssl := clt_ssl c \<or> scheme = ''https'', host_change := host_change c \<or> clt_host c \<noteq> None,
         clt_headers := set_http_header (set_http_header (clt_headers c) ''Host'' None) ''Host'' (Some host),
         clt_host := Some host,
         clt_port := show_dec (case port of Some n \<Rightarrow> n | None \<Rightarrow> if scheme = ''https'' then 443 else 80),
         clt_prefix := (case pq of None \<Rightarrow> clt_prefix c | Some x \<Rightarrow> Some (fst x))\<rparr>)"
proof -
  obtain u r where u: "tlsuv_parse_url (render_url scheme host port pq) = (0, u)"
    "url_scheme u = Some (render_url scheme host port pq)" "url_scheme_len u = length scheme"
    "url_hostname u = Some (host @ r)" "url_hostname_len u = length host"
    "url_port u = (case port of None \<Rightarrow> 0 | Some n \<Rightarrow> of_nat n)"
    and path: "case pq of None \<Rightarrow> url_path u = None
       | Some x \<Rightarrow> \<exists>r. url_path u = Some (fst x @ r) \<and> url_path_len u = length (fst x)"
    using parse_url_render_fields [OF assms(1)] by blast
  have host: "c_strndup (host @ r) (length host) = host"
    using assms(3) by (auto simp: c_strndup_def takeWhile_eq_all_conv)
  have port: "unat (if url_port u \<noteq> 0 then url_port u else if scheme = ''https'' then 443 else 80) =
      (case port of Some n \<Rightarrow> n | None \<Rightarrow> if scheme = ''https'' then 443 else 80)"
    using u(6) assms(1) of_nat_port by (auto simp: url_parts_ok_def split: option.splits)
  have "(if url_path u \<noteq> None then map_option (take (url_path_len u)) (url_path u) else clt_prefix c) =
      (case pq of None \<Rightarrow> clt_prefix c | Some x \<Rightarrow> Some (fst x))"
    using path by (auto split: option.splits)
  then show ?thesis
    using u(1-5) host port http_scheme_port_render [OF assms(2)]
    by (cases c) (auto simp: tlsuv_http_set_url_def tlsuv_http_header_def http_set_prefix_def Let_def
        split: option.splits if_splits)
qed

section \<open>Properties\<close>

text \<open>
  C1. No wake-up is lost: in every state a client can reach through API calls and loop events, when a
  request is active or queued, then the client will run again by itself: its async handle is
  pending, a connection attempt, a handshake or the closing of a link will report, or the active
  request has been sent completely and the response is awaited on the open connection.
\<close>

theorem client_no_lost_wakeup:
  assumes "client_run env c tr" and "active c \<noteq> None \<or> requests c \<noteq> []"
  shows "proc_pending c \<or> links_closing c > 0 \<or> connected c = Connecting \<or> connected c = Handshaking \<or>
    connected c = Connected \<and> (\<exists>rid r. active c = Some (rid, r) \<and> req_state r \<noteq> created \<and>
      (req_state r = headers_sent \<longrightarrow> req_body r = []))"
proof -
  have "live c \<noteq> []" using assms(2) by (auto simp: live_def split: option.splits)
  then show ?thesis
    using client_run_inv [OF assms(1)] by (auto simp: client_inv_def wake_inv_def in_flight_def)
qed

theorem client_no_lost_wakeup_witness:
  "\<exists>(c :: (unit, bool) tlsuv_http) tr. client_run demo_cenv c tr \<and> active c \<noteq> None \<and>
     (proc_pending c \<or> links_closing c > 0 \<or> connected c = Connecting \<or> connected c = Handshaking \<or>
      connected c = Connected \<and> (\<exists>rid r. active c = Some (rid, r) \<and> req_state r \<noteq> created \<and>
        (req_state r = headers_sent \<longrightarrow> req_body r = [])))"
proof -
  have "fst (tlsuv_http_init (env_so demo_env) ''http://h'' :: int \<times> (unit, bool) tlsuv_http) = 0" by code_simp
  moreover have "case client_steps demo_cenv (demo_client ''http://h'')
      [Do_Req ''GET'' ''/'', On_Proc, On_Src_Connect 0, On_Proc] of
      Some (Inr (c, os)) \<Rightarrow> active c \<noteq> None | _ \<Rightarrow> False" by code_simp
  ultimately obtain c tr where "client_run demo_cenv c tr" "active c \<noteq> None" by (rule demo_run_case)
  with client_no_lost_wakeup [of demo_cenv c tr] show ?thesis by blast
qed

text \<open>
  C30. The idle timer and the connect timer: in every reachable state an armed idle timer means that
  there is no request, so the idle timeout never closes a connection that is in use, and an
  armed connect timer means that a connection attempt is under way.
\<close>

theorem client_timers_safe:
  assumes "client_run env c tr"
  shows "(\<forall>ms. conn_timer c = Timer_Idle ms \<longrightarrow> active c = None \<and> requests c = [] \<and> connected c = Connected) \<and>
    (\<forall>ms. conn_timer c = Timer_Connect ms \<longrightarrow> connected c = Connecting)"
  using client_run_inv [OF assms]
  by (auto simp: client_inv_def timer_inv_def live_def split: option.splits)

theorem client_timers_safe_witness:
  "\<exists>(c :: (unit, bool) tlsuv_http) tr. client_run demo_cenv c tr \<and> conn_timer c = Timer_Idle 0 \<and>
     active c = None \<and> requests c = []"
proof -
  have "fst (tlsuv_http_init (env_so demo_env) ''http://h'' :: int \<times> (unit, bool) tlsuv_http) = 0" by code_simp
  moreover have "case client_steps demo_cenv (demo_client ''http://h'')
      [Do_Req ''GET'' ''/'', On_Proc, On_Src_Connect 0, On_Proc, On_Read 1 [5], On_Proc] of
      Some (Inr (c, os)) \<Rightarrow> conn_timer c = Timer_Idle 0 | _ \<Rightarrow> False" by code_simp
  ultimately obtain c tr where "client_run demo_cenv c tr" "conn_timer c = Timer_Idle 0" by (rule demo_run_case)
  with client_timers_safe [of demo_cenv c tr] show ?thesis by blast
qed

text \<open>
  C2. Requests are neither lost, leaked nor freed twice: along every run the requests created so far are
  exactly those still active or queued and those freed, each of them once; the requests that wait
  do so in the order of their creation, and a request that is not the active one on an open
  connection has not been sent in part.
\<close>

theorem client_request_lifecycle:
  assumes "client_run env c tr"
  shows "mset (map fst (live c)) + mset (freed tr) = mset [0..<next_req c] \<and>
    sorted_wrt (<) (map fst (live c)) \<and>
    (\<forall>r \<in> set (requests c). req_state (snd r) = created) \<and>
    (connected c \<noteq> Connected \<longrightarrow> (\<forall>r \<in> set (live c). req_state (snd r) = created))"
proof -
  have i: "ids_inv c" "reqs_inv c" using client_run_inv [OF assms] by (simp_all add: client_inv_def)
  have "\<forall>r \<in> set (live c). req_state (snd r) = created" if "connected c \<noteq> Connected"
    using i(2) that by (auto simp: reqs_inv_def live_iff)
  with i client_run_balance [OF assms] show ?thesis by (simp add: ids_inv_def reqs_inv_def)
qed

theorem client_request_lifecycle_witness:
  "\<exists>(c :: (unit, bool) tlsuv_http) tr. client_run demo_cenv c tr \<and> next_req c = 2 \<and>
     mset (map fst (live c)) + mset (freed tr) = {#0, 1#}"
proof -
  have "fst (tlsuv_http_init (env_so demo_env) ''http://h'' :: int \<times> (unit, bool) tlsuv_http) = 0" by code_simp
  moreover have "case client_steps demo_cenv (demo_client ''http://h'')
      [Do_Req ''GET'' ''/'', Do_Req ''GET'' ''/x'', On_Proc, On_Src_Connect 0, On_Proc, On_Read 1 [5]] of
      Some (Inr (c, os)) \<Rightarrow> next_req c = 2 \<and> freed os = [0] | _ \<Rightarrow> False" by code_simp
  ultimately obtain c tr where "client_run demo_cenv c tr" "next_req c = 2 \<and> freed tr = [0]" by (rule demo_run_case)
  moreover from this client_request_lifecycle [of demo_cenv c tr]
  have "mset (map fst (live c)) + mset (freed tr) = mset [0..<2]" by simp
  moreover have "[0..<2] = [0, 1 :: nat]" by (simp add: upt_rec numeral_2_eq_2)
  ultimately show ?thesis by (metis mset.simps)
qed

text \<open>
  C31. TLS is set up for the configured host: when a connection attempt of a client with an https URL
  succeeds, the links are made with an engine for the current host name, also when the URL was
  changed since the last connection.
\<close>

theorem client_tls_host:
  assumes "client_run env c tr" and "connected c = Connecting" and "clt_ssl c"
    and "src_connect_cb c 0 = Inr (c', o1)"
  shows "connected c' = Handshaking \<and> clt_engine c' = clt_host c'"
proof -
  have i: "client_inv (c\<lparr>conn_timer := Timer_Stopped\<rparr>)"
    using client_run_inv [OF assms(1)] by (simp add: client_inv_defs in_flight_def)
  have "make_links (c\<lparr>conn_timer := Timer_Stopped\<rparr>) = Inr (c', o1)"
    using assms(2,4) by (simp add: src_connect_cb_def Let_def)
  with make_links_inv [OF i] assms(2,3) show ?thesis by simp
qed

theorem client_tls_host_witness:
  "\<exists>(c :: (unit, bool) tlsuv_http) c' os. src_connect_cb c 0 = Inr (c', os) \<and>
     clt_host c = Some ''h'' \<and> connected c' = Handshaking \<and> clt_engine c' = clt_host c'"
proof -
  have "fst (tlsuv_http_init (env_so demo_env) ''https://h'' :: int \<times> (unit, bool) tlsuv_http) = 0" by code_simp
  moreover have "case client_steps demo_cenv (demo_client ''https://h'') [Do_Req ''GET'' ''/'', On_Proc] of
      Some (Inr (c, os)) \<Rightarrow> connected c = Connecting \<and> clt_ssl c \<and> clt_host c = Some ''h'' \<and>
        (case src_connect_cb c 0 of Inl e \<Rightarrow> False | Inr x \<Rightarrow> True) | _ \<Rightarrow> False" by code_simp
  ultimately obtain c tr where c: "client_run demo_cenv c tr" "connected c = Connecting \<and> clt_ssl c \<and>
      clt_host c = Some ''h'' \<and> (case src_connect_cb c 0 of Inl e \<Rightarrow> False | Inr x \<Rightarrow> True)" by (rule demo_run_case)
  then obtain c' os where s: "src_connect_cb c 0 = Inr (c', os)" by (auto split: sum.splits)
  with client_tls_host [OF c(1) _ _ s] c(2) show ?thesis by blast
qed



text \<open>
  C34. Setting the URL: a well-formed http or https URL is accepted; the client then has that host, the
  port of the URL or the default of the scheme in decimal, the path as the prefix of all requests,
  TLS on for https, and a single \<open>Host\<close> header with the host name; all other headers are kept.
\<close>

theorem set_url_correct:
  assumes "url_parts_ok scheme host port pq" and "scheme = ''http'' \<or> scheme = ''https''"
    and "CHR 0x00 \<notin> set host" and "hdr_distinct (clt_headers c)"
    and "tlsuv_http_set_url c (render_url scheme host port pq) = (rc, c')"
  shows "rc = 0 \<and> clt_host c' = Some host \<and>
    clt_port c' = show_dec (case port of Some n \<Rightarrow> n | None \<Rightarrow> if scheme = ''https'' then 443 else 80) \<and>
    clt_prefix c' = (case pq of None \<Rightarrow> clt_prefix c | Some x \<Rightarrow> Some (fst x)) \<and>
    clt_ssl c' = (clt_ssl c \<or> scheme = ''https'') \<and> (host_change c' \<longleftrightarrow> host_change c \<or> clt_host c \<noteq> None) \<and>
    hdr_distinct (clt_headers c') \<and> tlsuv_http_resp_header (clt_headers c') ''host'' = Some host \<and>
    (\<forall>k. hdr_key k \<noteq> ''host'' \<longrightarrow>
       tlsuv_http_resp_header (clt_headers c') k = tlsuv_http_resp_header (clt_headers c) k)"
proof -
  have k: "hdr_key ''Host'' = ''host''" "hdr_key ''host'' = ''host''" by code_simp+
  let ?hl = "set_http_header (set_http_header (clt_headers c) ''Host'' None) ''Host'' (Some host)"
  have d: "hdr_distinct (set_http_header (clt_headers c) ''Host'' None)"
    using assms(4) by (rule hdrs.wf_update)
  have h: "tlsuv_http_resp_header ?hl x = (if ''host'' = hdr_key x then Some host else tlsuv_http_resp_header (clt_headers c) x)" for x
    using hdrs.lookup_update [OF d] hdrs.lookup_update [OF assms(4)] k(1) by simp
  show ?thesis
    using assms(5) [unfolded set_url_result [OF assms(1-3)]] h k(2) hdrs.wf_update [OF d] by auto
qed

theorem set_url_correct_witness:
  "let (rc, c) = tlsuv_http_set_url (http_fields_init :: (unit, unit) tlsuv_http) ''https://ziti.dev/api''
   in rc = 0 \<and> clt_host c = Some ''ziti.dev'' \<and> clt_port c = ''443'' \<and> clt_prefix c = Some ''/api'' \<and> clt_ssl c"
proof -
  have ok: "url_parts_ok ''https'' ''ziti.dev'' None (Some (''/api'', None))" by (simp add: url_parts_ok_def)
  have r: "render_url ''https'' ''ziti.dev'' None (Some (''/api'', None)) = ''https://ziti.dev/api''" by code_simp
  have p: "show_dec 443 = ''443''" by code_simp
  obtain rc and c :: "(unit, unit) tlsuv_http" where
    s: "tlsuv_http_set_url http_fields_init (render_url ''https'' ''ziti.dev'' None (Some (''/api'', None))) = (rc, c)"
    by fastforce
  have d: "hdr_distinct (clt_headers (http_fields_init :: (unit, unit) tlsuv_http))"
    by (simp add: http_fields_init_def hdr_distinct_def)
  from set_url_correct [OF ok _ _ d s] s r p show ?thesis by simp
qed

end
