(* ===== verification/Http_Body.thy ===== *)
theory Http_Body
  imports Http_Client
begin

text \<open>
  The request body on the wire: what \<open>send_body\<close> writes for a chunked and for a plain body, against a
  decoder of the chunked transfer coding (RFC 9112, section 7.1).
\<close>

section \<open>A decoder\<close>

definition is_hex :: "byte \<Rightarrow> bool" where
  "is_hex b \<longleftrightarrow> (48 \<le> b \<and> b \<le> 57) \<or> (97 \<le> b \<and> b \<le> 102)"

definition hex_byte_value :: "byte \<Rightarrow> nat" where
  "hex_byte_value b = (if b \<le> 57 then unat b - 48 else unat b - 87)"

definition hex_num :: "byte list \<Rightarrow> nat" where
  "hex_num bs = foldl (\<lambda>a b. a * 16 + hex_byte_value b) 0 bs"

text \<open>\<open>Some (data, rest)\<close> for a well-formed coding; trailers are not part of what the client sends.\<close>

function unchunk :: "byte list \<Rightarrow> (byte list \<times> byte list) option" where
  "unchunk inp =
     (let digits = takeWhile is_hex inp; r = dropWhile is_hex inp
      in if digits = [] \<or> length r < 4 \<or> take 2 r \<noteq> [13, 10] then None
         else
           (let n = hex_num digits; body = drop 2 r
            in if n = 0 then (if take 2 body = [13, 10] then Some ([], drop 2 body) else None)
               else if length body < n + 2 \<or> take 2 (drop n body) \<noteq> [13, 10] then None
               else map_option (\<lambda>(d, rest). (take n body @ d, rest)) (unchunk (drop (n + 2) body))))"
  by pat_completeness auto
termination
proof (relation "measure length", goal_cases)
  case 1
  show ?case by simp
next
  case (2 inp digits r n body)
  have "length r \<le> length inp" using 2 by (simp add: length_dropWhile_le)
  then show ?case using 2 by auto
qed

declare unchunk.simps [simp del]

section \<open>Hexadecimal numbers\<close>

lemma hex_digit_byte:
  assumes "d < 16"
  shows "is_hex (of_char (hex_digit d))" and "hex_byte_value (of_char (hex_digit d)) = d"
proof -
  have "list_all (\<lambda>d. is_hex (of_char (hex_digit d)) \<and> hex_byte_value (of_char (hex_digit d)) = d) [0..<16]"
    by code_simp
  then show "is_hex (of_char (hex_digit d))" and "hex_byte_value (of_char (hex_digit d)) = d"
    using assms by (auto simp: list_all_iff)
qed

lemma show_hex_bytes: "\<forall>b \<in> set (text_bytes (show_hex n)). is_hex b"
proof (induction n rule: show_hex.induct)
  case (1 n)
  then show ?case by (auto simp: show_hex.simps [of n] text_bytes_def hex_digit_byte)
qed

lemma hex_num_show [simp]: "hex_num (text_bytes (show_hex n)) = n"
proof (induction n rule: show_hex.induct)
  case (1 n)
  then show ?case by (auto simp: show_hex.simps [of n] text_bytes_def hex_digit_byte hex_num_def)
qed

lemma show_hex_length: "n < 16 ^ Suc k \<Longrightarrow> length (show_hex n) \<le> Suc k"
proof (induction k arbitrary: n)
  case 0
  then show ?case by (simp add: show_hex.simps [of n])
next
  case (Suc k)
  have "n div 16 < 16 ^ Suc k" using Suc.prems by (simp add: less_mult_imp_div_less)
  with Suc.IH [of "n div 16"] show ?case by (simp add: show_hex.simps [of n])
qed

lemma show_hex_nonempty [simp]: "show_hex n \<noteq> []"
  by (simp add: show_hex.simps [of n])

lemma text_bytes_append [simp]: "text_bytes (a @ b) = text_bytes a @ text_bytes b"
  by (simp add: text_bytes_def)

lemma text_bytes_CRLF [simp]: "text_bytes CRLF = [13, 10]"
  by code_simp

section \<open>One chunk\<close>

lemma chunk_header_ok:
  assumes "n < 2 ^ 28" shows "chunk_header n = Inr (show_hex n @ CRLF)"
proof -
  have "n < 16 ^ Suc 6" using assms by simp
  then have "length (show_hex n) \<le> 7" using show_hex_length [of n 6] by simp
  then show ?thesis by (simp add: chunk_header_def CRLF_def)
qed

text \<open>The 10 bytes of the header do not suffice from 256 MiB on: the line feed is lost.\<close>

lemma chunk_header_truncated: "chunk_header (2 ^ 28) = Inr (''10000000'' @ [CHR 0x0D, CHR 0x00])"
proof -
  have "show_hex (2 ^ 28) = ''10000000''"
    by (simp add: show_hex.simps) code_simp
  then show ?thesis by (simp add: chunk_header_def CRLF_def)
qed

lemma takeWhile_hex_header:
  "takeWhile is_hex (text_bytes (show_hex n) @ 13 # r) = text_bytes (show_hex n)"
  "dropWhile is_hex (text_bytes (show_hex n) @ 13 # r) = 13 # r"
proof -
  have h: "\<not> is_hex 13" by code_simp
  have "\<forall>b \<in> set (text_bytes (show_hex n)). is_hex b" by (rule show_hex_bytes)
  with h show "takeWhile is_hex (text_bytes (show_hex n) @ 13 # r) = text_bytes (show_hex n)"
    and "dropWhile is_hex (text_bytes (show_hex n) @ 13 # r) = 13 # r"
    by (auto simp: takeWhile_append2 dropWhile_append2 takeWhile_eq_all_conv)
qed

lemma unchunk_chunk:
  assumes "d \<noteq> []"
  shows "unchunk (text_bytes (show_hex (length d)) @ [13, 10] @ d @ [13, 10] @ r) =
    map_option (\<lambda>(x, rest). (d @ x, rest)) (unchunk r)"
  using assms
  by (subst unchunk.simps) (simp add: takeWhile_hex_header Let_def, simp add: text_bytes_def)

lemma unchunk_last: "unchunk (text_bytes (''0'' @ CRLF @ CRLF) @ r) = Some ([], r)"
proof -
  have z: "text_bytes (''0'' @ CRLF @ CRLF) = [48, 13, 10, 13, 10]" "is_hex 48" "\<not> is_hex 13" "hex_num [48] = 0"
    by code_simp+
  show ?thesis unfolding z(1) by (subst unchunk.simps) (simp add: Let_def z)
qed

section \<open>A whole body\<close>

definition data_chunk :: "bool \<Rightarrow> byte list \<Rightarrow> body_chunk" where
  "data_chunk cb d = \<lparr>bc_chunk = d, bc_cb = cb\<rparr>"

lemma send_chunk_data:
  assumes "req_chunked r" and "bc_chunk b \<noteq> []" and "length (bc_chunk b) < 2 ^ 28"
  shows "send_chunk r b = Inr (r\<lparr>body_sent_size := body_sent_size r + length (bc_chunk b)\<rparr>,
     [text_bytes (show_hex (length (bc_chunk b)) @ CRLF), bc_chunk b, text_bytes CRLF], [b])"
  using assms by (simp add: send_chunk_def Let_def chunk_header_ok)

lemma send_body_loop_chunked:
  assumes "req_chunked r" and "\<forall>b \<in> set bs. bc_chunk b \<noteq> [] \<and> length (bc_chunk b) < 2 ^ 28"
  shows "\<exists>r' ws. send_body_loop r (bs @ [\<lparr>bc_chunk = [], bc_cb = False\<rparr>]) = Inr (r', ws, bs) \<and>
    req_state r' = body_sent \<and> body_sent_size r' = body_sent_size r + length (concat (map bc_chunk bs)) \<and>
    unchunk (concat ws) = Some (concat (map bc_chunk bs), [])"
  using assms
proof (induction bs arbitrary: r)
  case Nil
  then show ?case
    using unchunk_last [of "[]"] by (simp add: send_chunk_def Let_def)
next
  case (Cons b bs)
  let ?n = "length (bc_chunk b)"
  let ?r1 = "r\<lparr>body_sent_size := body_sent_size r + ?n\<rparr>"
  from Cons.IH [of ?r1] Cons.prems obtain r' ws where
    l: "send_body_loop ?r1 (bs @ [\<lparr>bc_chunk = [], bc_cb = False\<rparr>]) = Inr (r', ws, bs)"
    and r': "req_state r' = body_sent" "body_sent_size r' = body_sent_size ?r1 + length (concat (map bc_chunk bs))"
    and u: "unchunk (concat ws) = Some (concat (map bc_chunk bs), [])"
    by auto
  let ?w = "[text_bytes (show_hex ?n @ CRLF), bc_chunk b, text_bytes CRLF]"
  have s: "send_chunk r b = Inr (?r1, ?w, [b])" using Cons.prems by (intro send_chunk_data) auto
  have "unchunk (concat (?w @ ws)) = Some (bc_chunk b @ concat (map bc_chunk bs), [])"
    using unchunk_chunk [of "bc_chunk b" "concat ws"] Cons.prems(2) u by simp
  with s l r' show ?case by (intro exI [of _ r'] exI [of _ "?w @ ws"]) simp
qed

lemma send_body_loop_plain:
  assumes "\<not> req_chunked r"
  shows "\<exists>r' ws. send_body_loop r bs = Inr (r', ws, bs) \<and> concat ws = concat (map bc_chunk bs) \<and>
    body_sent_size r' = body_sent_size r + length (concat (map bc_chunk bs)) \<and>
    req_body_size r' = req_body_size r \<and>
    req_state r' = (if bs \<noteq> [] \<and> int (body_sent_size r') \<ge> req_body_size r mod 2 ^ 64
                    then body_sent else req_state r)"
  using assms
proof (induction bs arbitrary: r)
  case Nil
  then show ?case by simp
next
  case (Cons b bs)
  let ?n = "length (bc_chunk b)"
  let ?c = "int (body_sent_size r + ?n) \<ge> req_body_size r mod 2 ^ 64"
  define r1 where "r1 = (if ?c then r\<lparr>body_sent_size := body_sent_size r + ?n, req_state := body_sent\<rparr>
      else r\<lparr>body_sent_size := body_sent_size r + ?n\<rparr>)"
  have s: "send_chunk r b = Inr (r1, [bc_chunk b], [b])"
    using Cons.prems by (simp add: send_chunk_def Let_def r1_def)
  have r1: "\<not> req_chunked r1" "body_sent_size r1 = body_sent_size r + ?n" "req_body_size r1 = req_body_size r"
    "req_state r1 = (if ?c then body_sent else req_state r)"
    using Cons.prems by (simp_all add: r1_def)
  from Cons.IH [OF r1(1)] obtain r' ws where l: "send_body_loop r1 bs = Inr (r', ws, bs)"
    and r': "concat ws = concat (map bc_chunk bs)" "body_sent_size r' = body_sent_size r1 + length (concat (map bc_chunk bs))"
      "req_body_size r' = req_body_size r1"
      "req_state r' = (if bs \<noteq> [] \<and> int (body_sent_size r') \<ge> req_body_size r1 mod 2 ^ 64
        then body_sent else req_state r1)"
    by blast
  have mono: "body_sent_size r + ?n \<le> body_sent_size r'" using r'(2) r1(2) by simp
  have "bs = [] \<Longrightarrow> body_sent_size r' = body_sent_size r + ?n" using r'(2) r1(2) by simp
  then have "req_state r' = (if int (body_sent_size r') \<ge> req_body_size r mod 2 ^ 64 then body_sent else req_state r)"
    using r'(4) r1(3,4) mono by auto
  then show ?case
    using s l r' r1 by (intro exI [of _ r'] exI [of _ "[bc_chunk b] @ ws"]) simp
qed

section \<open>Properties\<close>

text \<open>
  C32. A chunked body arrives: for any data chunks below 256 MiB followed by the end of the body, the bytes
  that \<open>send_body\<close> writes are a chunked coding that decodes to exactly the data in order with nothing
  left over, every data chunk is handed to the write callback once, and the request is in the
  state \<open>body_sent\<close>.
\<close>

theorem chunked_body_roundtrip:
  assumes "req_chunked r" and "req_body r = bs @ [\<lparr>bc_chunk = [], bc_cb = False\<rparr>]"
    and "\<forall>b \<in> set bs. bc_chunk b \<noteq> [] \<and> length (bc_chunk b) < 2 ^ 28"
  shows "\<exists>r' ws. send_body r = Inr (r', ws, bs) \<and> req_state r' = body_sent \<and>
    unchunk (concat ws) = Some (concat (map bc_chunk bs), [])"
  using send_body_loop_chunked [OF assms(1,3)] assms(2) by (auto simp: send_body_def)

theorem chunked_body_roundtrip_witness:
  "\<exists>r' ws. send_body ((req_zero () :: (unit, unit) tlsuv_http_req)\<lparr>req_chunked := True,
       req_body := [\<lparr>bc_chunk = [104, 105], bc_cb = True\<rparr>, \<lparr>bc_chunk = [], bc_cb = False\<rparr>]\<rparr>) =
       Inr (r', ws, [\<lparr>bc_chunk = [104, 105], bc_cb = True\<rparr>]) \<and>
     unchunk (concat ws) = Some ([104, 105], [])"
proof -
  let ?r = "(req_zero () :: (unit, unit) tlsuv_http_req)\<lparr>req_chunked := True,
       req_body := [\<lparr>bc_chunk = [104, 105], bc_cb = True\<rparr>, \<lparr>bc_chunk = [], bc_cb = False\<rparr>]\<rparr>"
  show ?thesis
    using chunked_body_roundtrip [of ?r "[\<lparr>bc_chunk = [104, 105], bc_cb = True\<rparr>]"] by auto
qed

text \<open>
  C33. A body of known length arrives: without the chunked coding the bytes written are the chunks in order,
  and the request becomes \<open>body_sent\<close> exactly when as many bytes as \<open>req_body_size\<close> (read as an unsigned
  number) have been sent.
\<close>

theorem plain_body_sent:
  assumes "\<not> req_chunked r" and "req_body r \<noteq> []"
  shows "\<exists>r' ws. send_body r = Inr (r', ws, req_body r) \<and> concat ws = concat (map bc_chunk (req_body r)) \<and>
    req_state r' = (if int (body_sent_size r + length (concat ws)) \<ge> req_body_size r mod 2 ^ 64
                    then body_sent else req_state r)"
proof -
  from send_body_loop_plain [OF assms(1), of "req_body r"] obtain r' ws where
    "send_body_loop r (req_body r) = Inr (r', ws, req_body r)" "concat ws = concat (map bc_chunk (req_body r))"
    "body_sent_size r' = body_sent_size r + length (concat (map bc_chunk (req_body r)))"
    "req_state r' = (if req_body r \<noteq> [] \<and> int (body_sent_size r') \<ge> req_body_size r mod 2 ^ 64
       then body_sent else req_state r)" by blast
  with assms(2) show ?thesis by (intro exI [of _ r'] exI [of _ ws]) (simp add: send_body_def)
qed

theorem plain_body_sent_witness:
  "\<exists>r' ws. send_body ((req_zero () :: (unit, unit) tlsuv_http_req)\<lparr>req_body_size := 3,
       req_body := [\<lparr>bc_chunk = [1, 2], bc_cb = False\<rparr>, \<lparr>bc_chunk = [3], bc_cb = True\<rparr>]\<rparr>) =
       Inr (r', ws, [\<lparr>bc_chunk = [1, 2], bc_cb = False\<rparr>, \<lparr>bc_chunk = [3], bc_cb = True\<rparr>]) \<and>
     concat ws = [1, 2, 3] \<and> req_state r' = body_sent"
proof -
  let ?r = "(req_zero () :: (unit, unit) tlsuv_http_req)\<lparr>req_body_size := 3,
       req_body := [\<lparr>bc_chunk = [1, 2], bc_cb = False\<rparr>, \<lparr>bc_chunk = [3], bc_cb = True\<rparr>]\<rparr>"
  show ?thesis using plain_body_sent [of ?r] by (auto simp: req_zero_def)
qed

end
