(* ===== verification/Websocket.thy ===== *)
theory Websocket
  imports Http_Client
begin

text \<open>
  The WebSocket client of \<open>src/websocket.c\<close>: the upgrade request, the frames it writes and reads, and
  closing. Frames are byte lists; a read beyond the bytes received or a write beyond an allocation
  is an undefined-behaviour value. The reference is the framing of RFC 6455, section 5.2.
\<close>

unbundle bit_operations_syntax

section \<open>Data\<close>

definition WS_FIN :: byte where "WS_FIN = 0x80"
definition WS_OP_BITS :: byte where "WS_OP_BITS = 0xF"
definition WS_MASK :: byte where "WS_MASK = 0x80"

definition OpCode_TXT :: byte where "OpCode_TXT = 0x1"
definition OpCode_BIN :: byte where "OpCode_BIN = 0x2"
definition OpCode_Close :: byte where "OpCode_Close = 0x8"
definition OpCode_Ping :: byte where "OpCode_Ping = 0x9"
definition OpCode_Pong :: byte where "OpCode_Pong = 0xA"

named_theorems ws_codes \<open>the constants of the frame header\<close>

declare WS_FIN_def [ws_codes] WS_OP_BITS_def [ws_codes] WS_MASK_def [ws_codes] OpCode_TXT_def [ws_codes]
  OpCode_BIN_def [ws_codes] OpCode_Close_def [ws_codes] OpCode_Ping_def [ws_codes] OpCode_Pong_def [ws_codes]

text \<open>
  \<open>conn_pending\<close>: \<open>conn_req\<close> is not null; \<open>link_data\<close>: \<open>ws_link.data\<close> is not null; \<open>ws_engine\<close>: the host
  the TLS engine of \<open>tls_link\<close> was made for.
\<close>

record ('p, 'z) tlsuv_websocket =
  ws_req :: "('p, 'z) tlsuv_http_req option"
  ws_host :: "string option"
  conn_pending :: bool
  ws_src :: bool
  ws_tls :: bool
  ws_engine :: "string option"
  link_data :: bool
  ws_closed :: bool
  ws_close_cb :: bool

datatype ws_out =
    Ws_Conn_Cb int
  | Ws_Read_Cb "byte list"
  | Ws_Read_Status int
  | Ws_Write_Cb int
  | Ws_Close_Cb
  | Ws_Write "byte list"
  | Ws_Link_Close
  | Ws_Read_Start
  | Ws_Tls_Start
  | Ws_Src_Connect string string
  | Ws_Src_Cancel
  | Ws_Engine_New string
  | Ws_Engine_Free string

section \<open>Initialisation\<close>

text \<open>The characters of the key from 22 random numbers of six bits.\<close>

definition ws_key_char :: "nat \<Rightarrow> char" where
  "ws_key_char v =
     (if v < 26 then char_of (65 + v)
      else if v < 52 then char_of (97 + v - 26)
      else if v < 62 then char_of (97 + v - 52)
      else if v = 62 then CHR ''+'' else CHR ''/'')"

definition ws_key :: "nat list \<Rightarrow> string" where
  "ws_key rnd = map (\<lambda>r. ws_key_char (r mod 64)) (take 22 rnd) @ ''==''"

text \<open>\<open>p0\<close> is the zeroed parser of the request; the remaining fields are the caller's zeroed memory.\<close>

definition tlsuv_websocket_init_with_src :: "'p \<Rightarrow> nat list \<Rightarrow> ('p, 'z) tlsuv_websocket" where
  "tlsuv_websocket_init_with_src p0 rnd =
     (let r = req_zero p0;
          h1 = set_http_header (req_headers r) ''Upgrade'' (Some ''websocket'');
          h2 = set_http_header h1 ''Connection'' (Some ''Upgrade'');
          h3 = set_http_header h2 ''Sec-WebSocket-Key'' (Some (ws_key rnd));
          h4 = set_http_header h3 ''Sec-WebSocket-Version'' (Some ''13'')
      in \<lparr>ws_req = Some (r\<lparr>req_headers := h4\<rparr>), ws_host = None, conn_pending = False, ws_src = True,
          ws_tls = False, ws_engine = None, link_data = False, ws_closed = False, ws_close_cb = False\<rparr>)"

definition tlsuv_websocket_init :: "'p \<Rightarrow> nat list \<Rightarrow> ('p, 'z) tlsuv_websocket" where
  "tlsuv_websocket_init p0 rnd = tlsuv_websocket_init_with_src p0 rnd"

definition tlsuv_websocket_set_header ::
  "('p, 'z) tlsuv_websocket \<Rightarrow> string \<Rightarrow> string option \<Rightarrow> ub + ('p, 'z) tlsuv_websocket" where
  "tlsuv_websocket_set_header ws name val =
     (case ws_req ws of
        None \<Rightarrow> Inl Null_Deref
      | Some r \<Rightarrow> Inr (ws\<lparr>ws_req := Some (r\<lparr>req_headers := set_http_header (req_headers r) name val\<rparr>)\<rparr>))"

definition tlsuv_websocket_set_tls :: "('p, 'z) tlsuv_websocket \<Rightarrow> bool \<Rightarrow> ('p, 'z) tlsuv_websocket" where
  "tlsuv_websocket_set_tls ws ctx = ws\<lparr>ws_tls := ctx\<rparr>"

section \<open>Connecting\<close>

definition ws_scheme_port :: "string \<Rightarrow> nat \<Rightarrow> (nat \<times> bool) option" where
  "ws_scheme_port scheme len =
     (if strncasecmp_eq ''ws'' scheme len then Some (80, False)
      else if strncasecmp_eq ''wss'' scheme len then Some (443, True)
      else None)"

text \<open>\<open>connect\<close> is the connection source; the result is the return value, the state and the calls made.\<close>

definition tlsuv_websocket_connect ::
  "'p \<Rightarrow> (string \<Rightarrow> string \<Rightarrow> int) \<Rightarrow> ('p, 'z) tlsuv_websocket \<Rightarrow> string \<Rightarrow>
     ub + int \<times> ('p, 'z) tlsuv_websocket \<times> ws_out list" where
  "tlsuv_websocket_connect p0 connect ws url =
     (let (rc, u) = tlsuv_parse_url url
      in if rc \<noteq> 0 then Inr (UV_EINVAL, ws, [])
         else case url_scheme u of None \<Rightarrow> Inr (UV_EINVAL, ws, [])
         | Some scheme \<Rightarrow>
           (case ws_scheme_port scheme (url_scheme_len u) of None \<Rightarrow> Inr (UV_EINVAL, ws, [])
            | Some (dflt, ssl) \<Rightarrow>
                (let ws1 = (if ssl \<and> \<not> ws_tls ws then tlsuv_websocket_set_tls ws True else ws)
                 in case url_hostname u of None \<Rightarrow> Inr (UV_EINVAL, ws1, [])
                    | Some hostname \<Rightarrow>
                        (let host = c_strndup hostname (url_hostname_len u);
                             port = (if url_port u \<noteq> 0 then unat (url_port u) else dflt);
                             (ws2, o2) = (if ws_tls ws1 then (ws1\<lparr>ws_engine := Some host\<rparr>, [Ws_Engine_New host])
                                          else (ws1, []));
                             path = (case url_path u of None \<Rightarrow> ''/'' | Some p \<Rightarrow> c_strndup p (url_path_len u))
                         in case ws_req ws2 of
                              None \<Rightarrow> Inl Null_Deref
                            | Some r \<Rightarrow>
                                (let r1 = http_req_init p0 r ''GET'' path;
                                     r2 = r1\<lparr>req_headers := set_http_header (req_headers r1) ''host'' (Some host)\<rparr>;
                                     ws3 = ws2\<lparr>ws_req := Some r2, ws_host := Some host\<rparr>
                                 in Inr (connect host (show_dec port), ws3,
                                         o2 @ [Ws_Src_Connect host (show_dec port)]))))))"

definition ws_src_connect_cb ::
  "('p, 'z) tlsuv_websocket \<Rightarrow> int \<Rightarrow> ('p, 'z) tlsuv_websocket \<times> ws_out list" where
  "ws_src_connect_cb ws st =
     (if st < 0 then (ws\<lparr>ws_closed := True\<rparr>, [Ws_Conn_Cb st])
      else
        (let ws1 = ws\<lparr>conn_pending := True, link_data := True\<rparr>
         in if ws_tls ws1 then (ws1, [Ws_Tls_Start]) else (ws1, [Ws_Read_Start])))"

definition ws_tls_hs_cb ::
  "('p, 'z) tlsuv_websocket \<Rightarrow> tls_handshake_state \<Rightarrow> ub + ('p, 'z) tlsuv_websocket \<times> ws_out list" where
  "ws_tls_hs_cb ws st =
     (if st = TLS_HS_COMPLETE then Inr (ws, [Ws_Read_Start])
      else if \<not> conn_pending ws then Inl Null_Deref
      else Inr (ws, [Ws_Conn_Cb UV_ECONNABORTED]))"

text \<open>
  \<open>ws_read_start\<close>: the upgrade request, written like any request head. Here and below \<open>wrc\<close> is what the
  write on the link returns, which the caller gets back.
\<close>

definition ws_read_start ::
  "int \<Rightarrow> ('p, 'z) tlsuv_websocket \<Rightarrow> ub + int \<times> ('p, 'z) tlsuv_websocket \<times> ws_out list" where
  "ws_read_start wrc ws =
     (case ws_req ws of
        None \<Rightarrow> Inl Null_Deref
      | Some r \<Rightarrow>
          ub_bind (http_req_write None r HEAD_SIZE) (\<lambda>(len, buf, r1).
            if len > HEAD_SIZE then Inl Out_Of_Bounds_Read
            else Inr (wrc, ws\<lparr>ws_req := Some r1\<rparr>, [Ws_Write (text_bytes buf)])))"

section \<open>Writing frames\<close>

text \<open>The \<open>k\<close> bytes of a number in network order.\<close>

definition be_bytes :: "nat \<Rightarrow> nat \<Rightarrow> byte list" where
  "be_bytes k n = map (\<lambda>i. of_nat (n div 256 ^ (k - 1 - i))) [0..<k]"

definition be_value :: "byte list \<Rightarrow> nat" where
  "be_value bs = foldl (\<lambda>a b. a * 256 + unat b) 0 bs"

definition mask_bytes :: "byte list \<Rightarrow> byte list \<Rightarrow> byte list" where
  "mask_bytes mk data = map (\<lambda>i. (mk ! (i mod 4)) XOR (data ! i)) [0..<length data]"

definition ws_headerlen :: "nat \<Rightarrow> nat" where
  "ws_headerlen len = 6 + (if len > 125 then 2 else 0) + (if len > 0xffff then 6 else 0)"

text \<open>The length field with the mask bit.\<close>

definition ws_len_field :: "nat \<Rightarrow> byte list" where
  "ws_len_field len =
     (if len < 126 then [WS_MASK OR of_nat len]
      else if len \<le> 0xffff then (WS_MASK OR 126) # be_bytes 2 len
      else (WS_MASK OR 127) # be_bytes 8 len)"

text \<open>\<open>mk\<close> is what \<open>rand()\<close> left in the four mask bytes.\<close>

definition ws_frame :: "byte list \<Rightarrow> byte list \<Rightarrow> ub + byte list" where
  "ws_frame mk data =
     (let headerlen = ws_headerlen (length data);
          frame = [WS_FIN OR OpCode_BIN] @ ws_len_field (length data) @ mk @ mask_bytes mk data
      in if length frame \<noteq> headerlen + length data then Inl Out_Of_Bounds_Write else Inr frame)"

definition tlsuv_websocket_write ::
  "int \<Rightarrow> byte list \<Rightarrow> ('p, 'z) tlsuv_websocket \<Rightarrow> byte list \<Rightarrow> ub + int \<times> ws_out list" where
  "tlsuv_websocket_write wrc mk ws buf =
     (if ws_closed ws then Inr (UV_ECONNRESET, [Ws_Write_Cb UV_ECONNRESET])
      else ub_bind (ws_frame mk buf) (\<lambda>frame. Inr (wrc, [Ws_Write frame])))"

text \<open>The completion of a write; \<open>wr\<close> says whether the user's request is attached.\<close>

definition ws_write_cb ::
  "('p, 'z) tlsuv_websocket \<Rightarrow> bool \<Rightarrow> int \<Rightarrow> ('p, 'z) tlsuv_websocket \<times> ws_out list" where
  "ws_write_cb ws wr nwrote =
     (if nwrote < 0 then ws\<lparr>ws_closed := True\<rparr> else ws, if wr then [Ws_Write_Cb nwrote] else [])"

text \<open>
  \<open>send_pong\<close>: the copying loop runs to \<open>buf.len\<close>, which counts the header and the mask, from \<open>ptr\<close>, which
  is behind them: position \<open>6 + i\<close> for every \<open>i < 6 + len\<close>. A negative \<open>len\<close> makes \<open>buf.len\<close> too
  small for the header, or so large that \<open>malloc\<close> fails.
\<close>

definition send_pong :: "byte list \<Rightarrow> byte list \<Rightarrow> int \<Rightarrow> ub + ws_out list" where
  "send_pong mk ping_data len =
     (let buf_len = 2 + 4 + len;
          hdr = [WS_FIN OR OpCode_Pong, WS_MASK OR (0x7f AND of_int len)] @ mk;
          loop_end = 6 + buf_len
      in if buf_len < 0 then Inl Null_Deref
         else if buf_len < 6 then Inl Out_Of_Bounds_Write
         else if len > 0 then
           (if loop_end > buf_len then Inl Out_Of_Bounds_Write
            else Inr [Ws_Write (hdr @ mask_bytes mk (take (nat buf_len) ping_data))])
         else Inr [Ws_Write hdr])"

section \<open>Reading frames\<close>

text \<open>
  The length in the second byte: \<open>frame[1]\<close> is a signed \<open>char\<close> that is widened before the mask bit is
  cleared.
\<close>

definition ws_len7 :: "byte \<Rightarrow> nat" where
  "ws_len7 b = unat ((scast b :: uint32) AND 0xFFFFFF7F)"

text \<open>The header: opcode, length, mask and the position of the data.\<close>

definition ws_frame_header :: "byte list \<Rightarrow> ub + byte \<times> nat \<times> byte list \<times> nat" where
  "ws_frame_header frame =
     (if length frame < 2 then Inl Out_Of_Bounds_Read
      else
        (let op = (frame ! 0) AND WS_OP_BITS;
             masked = (frame ! 1) AND WS_MASK \<noteq> 0;
             len0 = ws_len7 (frame ! 1);
             ext = (if len0 = 126 then 2 else if len0 = 127 then 8 else 0)
         in if length frame < 2 + ext then Inl Out_Of_Bounds_Read
            else
              (let len = (if ext = 0 then len0 else be_value (take ext (drop 2 frame)));
                   dp = 2 + ext
               in if masked then
                    (if length frame < dp + 4 then Inl Out_Of_Bounds_Read
                     else Inr (op, len, take 4 (drop dp frame), dp + 4))
                  else Inr (op, len, [0, 0, 0, 0], dp))))"

definition ws_dispatch ::
  "byte list \<Rightarrow> ('p, 'z) tlsuv_websocket \<Rightarrow> byte list \<Rightarrow> ub + ('p, 'z) tlsuv_websocket \<times> ws_out list" where
  "ws_dispatch rnd ws frame =
     ub_bind (ws_frame_header frame) (\<lambda>(op, len, mk, dp).
       if op = OpCode_TXT \<or> op = OpCode_BIN then
         (if length frame < dp + len then Inl Out_Of_Bounds_Read
          else Inr (ws, [Ws_Read_Cb (mask_bytes mk (take len (drop dp frame)))]))
       else if op = OpCode_Close then Inr (ws, [Ws_Read_Status UV_EOF])
       else if op = OpCode_Ping then
         ub_bind (send_pong rnd (drop dp frame) (sint (of_nat len :: uint32))) (\<lambda>o1. Inr (ws, o1))
       else Inr (ws, []))"

text \<open>
  The upgrade response. The result is the number of bytes processed and whether the attempt failed. On
  a parse error the request is freed but the connect request stays set.
\<close>

definition ws_upgrade ::
  "'p llhttp_exec \<Rightarrow> ('p \<Rightarrow> 'p) \<Rightarrow> 'z http_env \<Rightarrow> ('p, 'z) tlsuv_websocket \<Rightarrow> byte list \<Rightarrow>
     ub + int \<times> bool \<times> ('p, 'z) tlsuv_websocket \<times> ws_out list" where
  "ws_upgrade exec resume env ws buf =
     (if \<not> conn_pending ws then Inr (0, False, ws, [])
      else case ws_req ws of
        None \<Rightarrow> Inl Null_Deref
      | Some r \<Rightarrow>
          ub_bind (http_req_process exec resume env r buf) (\<lambda>(processed, r1, ev).
            if processed < 0 then Inr (processed, True, ws\<lparr>ws_req := None\<rparr>, [Ws_Conn_Cb (-1)])
            else if req_state r1 = completed then
              (if resp_code (req_resp r1) = 101
               then Inr (processed, False, ws\<lparr>conn_pending := False, ws_req := None\<rparr>, [Ws_Conn_Cb 0])
               else Inr (processed, True, ws\<lparr>conn_pending := False, ws_req := None\<rparr>, [Ws_Conn_Cb (-1)]))
            else Inr (processed, False, ws\<lparr>ws_req := Some r1\<rparr>, [])))"

definition ws_read_cb ::
  "'p llhttp_exec \<Rightarrow> ('p \<Rightarrow> 'p) \<Rightarrow> 'z http_env \<Rightarrow> byte list \<Rightarrow> ('p, 'z) tlsuv_websocket \<Rightarrow> int \<Rightarrow> byte list \<Rightarrow>
     ub + ('p, 'z) tlsuv_websocket \<times> ws_out list" where
  "ws_read_cb exec resume env rnd ws nread buf =
     (if nread < 0 then
        Inr (if conn_pending ws
             then (ws\<lparr>ws_closed := True, conn_pending := False\<rparr>, [Ws_Conn_Cb nread])
             else (ws\<lparr>ws_closed := True\<rparr>, [Ws_Read_Status nread]))
      else
        ub_bind (ws_upgrade exec resume env ws (take (nat nread) buf)) (\<lambda>(processed, failed, ws1, o1).
          if failed \<or> processed = nread then Inr (ws1, o1)
          else ub_bind (ws_dispatch rnd ws1 (drop (nat processed) (take (nat nread) buf))) (\<lambda>(ws2, o2).
                 Inr (ws2, o1 @ o2))))"

section \<open>Closing\<close>

definition on_ws_close :: "('p, 'z) tlsuv_websocket \<Rightarrow> ('p, 'z) tlsuv_websocket \<times> ws_out list" where
  "on_ws_close ws =
     (let o1 = (if \<not> ws_closed ws \<and> ws_close_cb ws then [Ws_Close_Cb] else []);
          ws1 = ws\<lparr>ws_req := None, ws_host := None\<rparr>;
          (ws2, o2) = (case (ws_tls ws1, ws_engine ws1) of
                         (True, Some h) \<Rightarrow> (ws1\<lparr>ws_engine := None\<rparr>, [Ws_Engine_Free h])
                       | _ \<Rightarrow> (ws1, []));
          (ws3, o3) = (if ws_src ws2 then (ws2\<lparr>ws_src := False\<rparr>, [Ws_Src_Cancel]) else (ws2, []))
      in (ws3\<lparr>ws_closed := True\<rparr>, o1 @ o2 @ o3))"

definition ws_link_closed :: "('p, 'z) tlsuv_websocket \<Rightarrow> ('p, 'z) tlsuv_websocket \<times> ws_out list" where
  "ws_link_closed ws = (let (ws1, o1) = on_ws_close ws in (ws1\<lparr>link_data := False\<rparr>, o1))"

definition tlsuv_websocket_close :: "('p, 'z) tlsuv_websocket \<Rightarrow> bool \<Rightarrow> ('p, 'z) tlsuv_websocket \<times> ws_out list" where
  "tlsuv_websocket_close ws cb =
     (let ws1 = ws\<lparr>ws_close_cb := cb\<rparr>
      in if link_data ws1 then (ws1, [Ws_Link_Close]) else on_ws_close ws1)"

section \<open>The framing of RFC 6455\<close>

text \<open>A final frame: opcode, optional mask and payload.\<close>

definition rfc_len_field :: "byte \<Rightarrow> nat \<Rightarrow> byte list" where
  "rfc_len_field mbit len =
     (if len \<le> 125 then [mbit OR of_nat len]
      else if len < 2 ^ 16 then (mbit OR 126) # be_bytes 2 len
      else (mbit OR 127) # be_bytes 8 len)"

definition rfc_encode :: "byte \<Rightarrow> byte list option \<Rightarrow> byte list \<Rightarrow> byte list" where
  "rfc_encode op mk data =
     (0x80 OR op) #
     (case mk of
        None \<Rightarrow> rfc_len_field 0 (length data) @ data
      | Some k \<Rightarrow> rfc_len_field 0x80 (length data) @ k @ mask_bytes k data)"

text \<open>The receiver: opcode, payload and the bytes that follow the frame.\<close>

definition rfc_decode :: "byte list \<Rightarrow> (byte \<times> byte list \<times> byte list) option" where
  "rfc_decode inp =
     (case inp of
        b0 # b1 # r \<Rightarrow>
          (let l7 = unat b1 mod 128;
               ext = (if l7 = 126 then 2 else if l7 = 127 then 8 else 0);
               n = (if ext = 0 then l7 else be_value (take ext r));
               r1 = drop ext r;
               mlen = (if unat b1 \<ge> 128 then 4 else 0);
               body = drop mlen r1
           in if length r < ext + mlen + n then None
              else Some (b0 AND 0xF,
                         if mlen = 0 then take n body else mask_bytes (take 4 r1) (take n body),
                         drop n body))
      | _ \<Rightarrow> None)"

section \<open>Lemmas\<close>

lemma be_bytes_Suc: "be_bytes (Suc k) n = be_bytes k (n div 256) @ [of_nat n]"
proof -
  have "n div 256 ^ (k - i) = n div 256 div 256 ^ (k - 1 - i)" if "i < k" for i
  proof -
    have "k - i = Suc (k - 1 - i)" using that by simp
    then show ?thesis by (simp add: div_mult2_eq)
  qed
  then show ?thesis by (simp add: be_bytes_def)
qed

lemma be_bytes_length [simp]: "length (be_bytes k n) = k"
  by (simp add: be_bytes_def)

lemma be_value_snoc: "be_value (bs @ [b]) = be_value bs * 256 + unat b"
  by (simp add: be_value_def)

lemma be_value_be_bytes: "n < 256 ^ k \<Longrightarrow> be_value (be_bytes k n) = n"
proof (induction k arbitrary: n)
  case 0
  then show ?case by (simp add: be_bytes_def be_value_def)
next
  case (Suc k)
  have "n div 256 < 256 ^ k" using Suc.prems by (simp add: less_mult_imp_div_less mult.commute)
  with Suc.IH have "be_value (be_bytes k (n div 256)) = n div 256" by blast
  moreover have "unat (of_nat n :: byte) = n mod 256" by (simp add: unat_of_nat take_bit_eq_mod)
  ultimately show ?case by (simp add: be_bytes_Suc be_value_snoc)
qed

lemma mask_bytes_length [simp]: "length (mask_bytes mk d) = length d"
  by (simp add: mask_bytes_def)

lemma mask_bytes_twice: "mask_bytes mk (mask_bytes mk d) = d"
  by (rule nth_equalityI) (simp_all add: mask_bytes_def bit.xor_left_self)

lemma mask_bytes_zero: "mask_bytes [0, 0, 0, 0] d = d"
proof (rule nth_equalityI)
  show "length (mask_bytes [0, 0, 0, 0] d) = length d" by simp
next
  fix i
  assume "i < length (mask_bytes [0, 0, 0, 0] d)"
  moreover have "[0, 0, 0, 0] ! (i mod 4) = (0 :: byte)"
  proof -
    have "i mod 4 \<in> {0, 1, 2, 3}" by auto
    then show ?thesis by auto
  qed
  ultimately show "mask_bytes [0, 0, 0, 0] d ! i = d ! i" by (simp add: mask_bytes_def)
qed

lemma small_byte_cases:
  assumes "list_all P [0..<126]" and "n < 126" shows "P n"
  using assms by (simp add: list_all_iff)

lemma mask_len_byte:
  assumes "n < 126" shows "unat (0x80 OR of_nat n :: byte) = 128 + n"
  by (rule small_byte_cases [where P = "\<lambda>n. unat (0x80 OR of_nat n :: byte) = 128 + n", OF _ assms]) code_simp

lemma ws_len7_small:
  assumes "n < 126" shows "ws_len7 (of_nat n) = n \<and> of_nat n AND (0x80 :: byte) = 0 \<and> unat (of_nat n :: byte) = n"
  by (rule small_byte_cases [where P = "\<lambda>n. ws_len7 (of_nat n) = n \<and> of_nat n AND (0x80 :: byte) = 0 \<and>
        unat (of_nat n :: byte) = n", OF _ assms]) code_simp

lemma rfc_len_field_lengths:
  "length (rfc_len_field mbit n) = (if n \<le> 125 then 1 else if n < 2 ^ 16 then 3 else 9)"
  by (simp add: rfc_len_field_def)

text \<open>The frame written is the masked frame of the standard, and it fills its allocation exactly.\<close>

lemma ws_frame_rfc:
  assumes "length mk = 4"
  shows "ws_frame mk data = Inr (rfc_encode OpCode_BIN (Some mk) data)"
proof -
  have l: "ws_len_field n = rfc_len_field 0x80 n" for n
    by (auto simp: ws_len_field_def rfc_len_field_def ws_codes)
  have "length (rfc_len_field 0x80 n) + 5 = ws_headerlen n" for n
    by (auto simp: rfc_len_field_lengths ws_headerlen_def)
  from this [of "length data"] show ?thesis
    using assms by (simp add: ws_frame_def l rfc_encode_def ws_codes Let_def)
qed

text \<open>How the length field is read back, by its three forms.\<close>

lemma rfc_decode_masked:
  assumes "length mk = 4" and "length data < 2 ^ 64" and "op < 16"
  shows "rfc_decode (rfc_encode op (Some mk) data @ rest) = Some (op, data, rest)"
proof -
  let ?n = "length data"
  have op: "(0x80 OR op) AND 0xF = op"
  proof -
    have "list_all (\<lambda>k. (0x80 OR (of_nat k :: byte)) AND 0xF = of_nat k) [0..<16]" by code_simp
    moreover have "unat op < 16" using assms(3) by (simp add: word_less_nat_alt)
    ultimately have "(0x80 OR (of_nat (unat op) :: byte)) AND 0xF = of_nat (unat op)"
      unfolding list_all_iff set_upt by (metis atLeastLessThan_iff zero_le)
    then show ?thesis by simp
  qed
  have b: "unat (0x80 OR 126 :: byte) = 254" "unat (0x80 OR 127 :: byte) = 255" by code_simp+
  consider "?n \<le> 125" | "125 < ?n" "?n < 2 ^ 16" | "2 ^ 16 \<le> ?n" by linarith
  then show ?thesis
  proof cases
    case 1
    then have "unat (0x80 OR of_nat ?n :: byte) = 128 + ?n" by (intro mask_len_byte) simp
    with 1 op assms(1) show ?thesis
      by (simp add: rfc_decode_def rfc_encode_def rfc_len_field_def mask_bytes_twice Let_def)
  next
    case 2
    then have "be_value (be_bytes 2 ?n) = ?n" by (intro be_value_be_bytes) simp
    with 2 op b assms(1) show ?thesis
      by (simp add: rfc_decode_def rfc_encode_def rfc_len_field_def mask_bytes_twice Let_def)
  next
    case 3
    then have "be_value (be_bytes 8 ?n) = ?n" using assms(2) by (intro be_value_be_bytes) simp
    with 3 op b assms(1) show ?thesis
      by (simp add: rfc_decode_def rfc_encode_def rfc_len_field_def mask_bytes_twice Let_def)
  qed
qed

text \<open>An unmasked frame, as servers send them.\<close>

lemma ws_frame_header_unmasked:
  assumes "length data < 2 ^ 64" and "op = OpCode_TXT \<or> op = OpCode_BIN \<or> op = OpCode_Close \<or> op = OpCode_Ping \<or> op = OpCode_Pong"
  shows "ws_frame_header (rfc_encode op None data @ rest) =
    Inr (op, length data, [0, 0, 0, 0], 1 + length (rfc_len_field 0 (length data)))"
proof -
  let ?n = "length data"
  have op: "(0x80 OR op) AND WS_OP_BITS = op"
    using assms(2) by (elim disjE) (simp_all add: ws_codes)
  have b: "ws_len7 126 = 126" "ws_len7 127 = 127" "(126 :: byte) AND WS_MASK = 0" "(127 :: byte) AND WS_MASK = 0"
    by code_simp+
  consider "?n \<le> 125" | "125 < ?n" "?n < 2 ^ 16" | "2 ^ 16 \<le> ?n" by linarith
  then show ?thesis
  proof cases
    case 1
    then have "ws_len7 (of_nat ?n) = ?n \<and> (of_nat ?n :: byte) AND WS_MASK = 0"
      using ws_len7_small [of ?n] by (simp add: WS_MASK_def)
    with 1 op show ?thesis
      by (simp add: ws_frame_header_def rfc_encode_def rfc_len_field_def Let_def)
  next
    case 2
    then have "be_value (be_bytes 2 ?n) = ?n" by (intro be_value_be_bytes) simp
    with 2 op b show ?thesis
      by (simp add: ws_frame_header_def rfc_encode_def rfc_len_field_def Let_def)
  next
    case 3
    then have "be_value (be_bytes 8 ?n) = ?n" using assms(1) by (intro be_value_be_bytes) simp
    with 3 op b show ?thesis
      by (simp add: ws_frame_header_def rfc_encode_def rfc_len_field_def Let_def)
  qed
qed

lemma ws_dispatch_data:
  assumes "length data < 2 ^ 64" and "op = OpCode_TXT \<or> op = OpCode_BIN"
  shows "ws_dispatch rnd ws (rfc_encode op None data @ rest) = Inr (ws, [Ws_Read_Cb data])"
proof -
  have h: "ws_frame_header (rfc_encode op None data @ rest) =
      Inr (op, length data, [0, 0, 0, 0], 1 + length (rfc_len_field 0 (length data)))"
    using assms by (intro ws_frame_header_unmasked) auto
  have e: "rfc_encode op None data @ rest = ((0x80 OR op) # rfc_len_field 0 (length data)) @ data @ rest"
    by (simp add: rfc_encode_def)
  show ?thesis
    unfolding ws_dispatch_def h using assms(2) by (simp add: e mask_bytes_zero)
qed

section \<open>Defects\<close>

text \<open>A pong with data writes six bytes past its buffer.\<close>

lemma pong_with_data_overflows: "len > 0 \<Longrightarrow> send_pong mk ping_data len = Inl Out_Of_Bounds_Write"
  by (simp add: send_pong_def)

lemma ping_with_data_overflows:
  assumes "data \<noteq> []" and "length data < 2 ^ 31"
  shows "ws_dispatch rnd ws (rfc_encode OpCode_Ping None data @ rest) = Inl Out_Of_Bounds_Write"
proof -
  have u: "unat (of_nat (length data) :: uint32) = length data"
    using assms(2) by (simp add: unat_of_nat take_bit_nat_eq_self)
  have "sint (of_nat (length data) :: uint32) = int (length data)"
    using assms(2) by (simp add: signed_of_nat signed_take_bit_int_eq_self)
  moreover have "ws_frame_header (rfc_encode OpCode_Ping None data @ rest) =
      Inr (OpCode_Ping, length data, [0, 0, 0, 0], 1 + length (rfc_len_field 0 (length data)))"
    using assms(2) by (intro ws_frame_header_unmasked) auto
  ultimately show ?thesis
    using assms(1) pong_with_data_overflows by (simp add: ws_dispatch_def ws_codes)
qed

text \<open>The length of a masked frame is misread, since the byte is sign-extended.\<close>

lemma masked_length_misread: "ws_len7 (0x80 OR 5) = unat (0xFFFFFF05 :: uint32)"
proof -
  have "(scast (0x80 OR 5 :: byte) :: uint32) AND 0xFFFFFF7F = 0xFFFFFF05" by code_simp
  then show ?thesis by (simp only: ws_len7_def)
qed

text \<open>A frame cut short by the end of the read is read beyond the data received.\<close>

lemma truncated_frame_reads_beyond:
  "ws_dispatch rnd ws [0x82, 5, 1, 2] = Inl Out_Of_Bounds_Read"
  by (simp add: ws_dispatch_def ws_frame_header_def ws_codes ws_len7_def)

text \<open>Two values of the random number give the same character: the key has no digits.\<close>

lemma ws_key_char_not_injective: "ws_key_char 26 = ws_key_char 52"
  by code_simp

text \<open>After a failed write or read the close callback is never called.\<close>

lemma close_callback_lost:
  assumes "ws_closed ws"
  shows "Ws_Close_Cb \<notin> set (snd (on_ws_close ws))"
  using assms by (auto simp: on_ws_close_def Let_def split: bool.splits option.splits)

text \<open>After a rejected upgrade response the next read uses a request that was freed.\<close>

lemma read_after_failed_upgrade:
  assumes "conn_pending ws" and "ws_req ws = Some r" and "http_req_process exec resume env r buf = Inr (n, r1, ev)"
    and "n < 0" and "ws_upgrade exec resume env ws buf = Inr (processed, failed, ws1, o1)"
  shows "failed \<and> ws_upgrade exec resume env ws1 buf2 = Inl Null_Deref"
  using assms by (auto simp: ws_upgrade_def)

section \<open>Properties\<close>



text \<open>
  C35. What a server sends is delivered: on an established WebSocket, when a read holds a whole unmasked
  text or binary frame of any length, the read callback gets exactly its payload.
\<close>

theorem websocket_read_frame:
  assumes "\<not> conn_pending ws" and "length data < 2 ^ 62" and "op = OpCode_TXT \<or> op = OpCode_BIN"
  shows "ws_read_cb exec resume env rnd ws (int (length (rfc_encode op None data))) (rfc_encode op None data) =
    Inr (ws, [Ws_Read_Cb data])"
proof -
  have "length (rfc_encode op None data) > 0" by (simp add: rfc_encode_def)
  moreover have "ws_dispatch rnd ws (rfc_encode op None data) = Inr (ws, [Ws_Read_Cb data])"
    using ws_dispatch_data [of data op rnd ws "[]"] assms(2,3) by simp
  ultimately show ?thesis using assms(1) by (simp add: ws_read_cb_def ws_upgrade_def)
qed

theorem websocket_read_frame_witness:
  "ws_read_cb (\<lambda>p b. ([], HPE_OK, 0, p)) (\<lambda>p. p) demo_env []
     (tlsuv_websocket_init () [] :: (unit, bool) tlsuv_websocket) 4 [0x82, 2, 104, 105] =
   Inr (tlsuv_websocket_init () [], [Ws_Read_Cb [104, 105]])"
proof -
  let ?ws = "tlsuv_websocket_init () [] :: (unit, bool) tlsuv_websocket"
  have "\<not> conn_pending ?ws"
    by (simp add: tlsuv_websocket_init_def tlsuv_websocket_init_with_src_def Let_def)
  moreover have "rfc_encode OpCode_BIN None [104, 105] = [0x82, 2, 104, 105]" by code_simp
  ultimately show ?thesis
    using websocket_read_frame [of ?ws "[104, 105]" OpCode_BIN "\<lambda>p b. ([], HPE_OK, 0, p)" "\<lambda>p. p" demo_env "[]"]
    by simp
qed

end
