(* ===== verification/Tls_Link.thy ===== *)
theory Tls_Link
  imports Tls_Engine
begin

text \<open>
  The link of \<open>src/tls_link.c\<close> that puts a TLS engine between the connection (its parent) and the reader
  (its child). It drives the handshake, decrypts what the parent reads and encrypts what the child
  writes. The state is that of the engine; calls to the parent, the child and the handshake callback
  are outputs, in order. \<open>wrc\<close> stands for what the parent's write returns and \<open>alloc k\<close> for the size of
  the \<open>k\<close>-th buffer the child allocates during one call (0: it allocates none).
\<close>

section \<open>Data\<close>

text \<open>
  The completion that goes with a write: that of the child with its argument, that of a handshake
  message (\<open>tls_write_cb\<close> without a callback) or the one that only frees the buffer.
\<close>

datatype 'c tls_link_write = Wr_Child 'c | Wr_Handshake | Wr_Free

datatype 'c link_out =
    Link_Read "byte list"
  | Link_Read_Status int
  | Link_Alloc nat
  | Link_Write "byte list" "'c tls_link_write"
  | Link_Write_Cb int 'c
  | Link_Read_Start
  | Link_Hs_Cb tls_handshake_state
  | Link_Close_Cb

definition TLS_BUF_SZ :: nat where "TLS_BUF_SZ = 32 * 1024"

section \<open>Operations\<close>

text \<open>Which buffer a read gets: one of the link's own, one of the child's, or none.\<close>

datatype tls_buffer = Own_Buffer nat | Child_Buffer nat | No_Buffer

definition tls_alloc :: "'e tls_engine_api \<Rightarrow> 'e \<Rightarrow> nat \<Rightarrow> tls_buffer" where
  "tls_alloc api e suggested =
     (case handshake_state api e of
        TLS_HS_BEFORE \<Rightarrow> Own_Buffer suggested
      | TLS_HS_CONTINUE \<Rightarrow> Own_Buffer suggested
      | TLS_HS_COMPLETE \<Rightarrow> Child_Buffer suggested
      | _ \<Rightarrow> No_Buffer)"

definition tls_write_cb :: "int \<Rightarrow> 'c tls_link_write \<Rightarrow> 'c link_out list" where
  "tls_write_cb st wr = (case wr of Wr_Child c \<Rightarrow> [Link_Write_Cb st c] | _ \<Rightarrow> [])"

definition tls_write_free_cb :: "int \<Rightarrow> 'c tls_link_write \<Rightarrow> 'c link_out list" where
  "tls_write_free_cb st wr = []"

definition tls_read_start ::
  "'e tls_engine_api \<Rightarrow> int \<Rightarrow> 'e \<Rightarrow> ub + int \<times> 'e \<times> 'c link_out list" where
  "tls_read_start api wrc e =
     (let e1 = (if handshake_state api e = TLS_HS_CONTINUE
                then (case api_reset api of None \<Rightarrow> e | Some reset \<Rightarrow> snd (reset e)) else e)
      in ub_bind (handshake api e1 [] TLS_BUF_SZ) (\<lambda>(st, out, e2).
           Inr (wrc, e2, [Link_Read_Start, Link_Write out Wr_Handshake])))"

text \<open>The branch of \<open>tls_read_cb\<close> for a read error.\<close>

definition tls_read_error ::
  "'e tls_engine_api \<Rightarrow> 'e \<Rightarrow> int \<Rightarrow> ub + 'e \<times> 'c link_out list" where
  "tls_read_error api e nread =
     (if handshake_state api e = TLS_HS_CONTINUE then
        (case api_reset api of
           None \<Rightarrow> Inl Null_Deref
         | Some reset \<Rightarrow> Inr (snd (reset e), [Link_Hs_Cb TLS_HS_ERROR]))
      else Inr (e, [Link_Read_Status nread]))"

text \<open>
  The branch for bytes during the handshake. The parent's write takes the buffer; when it fails the
  completion only frees it.
\<close>

definition tls_read_handshake ::
  "'e tls_engine_api \<Rightarrow> int \<Rightarrow> 'e \<Rightarrow> byte list \<Rightarrow> ub + 'e \<times> 'c link_out list" where
  "tls_read_handshake api wrc e inp =
     (if inp = [] then Inr (e, [])
      else ub_bind (handshake api e inp TLS_BUF_SZ) (\<lambda>(st, out, e1).
        let o1 = (if out \<noteq> []
                  then Link_Write out Wr_Handshake # (if wrc \<noteq> 0 then tls_write_cb wrc Wr_Handshake else [])
                  else []);
            o2 = (if st = TLS_HS_COMPLETE then [Link_Hs_Cb TLS_HS_COMPLETE]
                  else if st = TLS_HS_ERROR then [Link_Hs_Cb st, Link_Read_Status UV_ECONNABORTED]
                  else [])
        in Inr (e1, o1 @ o2)))"

text \<open>
  The loop for application data. \<open>blen\<close> is the size of the current buffer, \<open>bufsize\<close> that of the first.
  The loop goes on for as long as the engine says that there is more, so it is a partial function.
\<close>

partial_function (option) tls_read_loop ::
  "'e tls_engine_api \<Rightarrow> (nat \<Rightarrow> nat) \<Rightarrow> nat \<Rightarrow> nat \<Rightarrow> nat \<Rightarrow> byte list \<Rightarrow> 'e \<Rightarrow> 'c link_out list \<Rightarrow>
     (ub + 'e \<times> 'c link_out list) option" where
  "tls_read_loop api alloc bufsize k blen inp e outs =
     (case api_read api e inp blen of
        Inl u \<Rightarrow> Some (Inl u)
      | Inr (rc, out, e1) \<Rightarrow>
          if rc = TLS_OK then Some (Inr (e1, outs @ [Link_Read out]))
          else if rc = TLS_EOF then
            Some (Inr (e1, outs @ (if out \<noteq> [] then [Link_Read out, Link_Alloc bufsize] else []) @
                           [Link_Read_Status UV_EOF]))
          else if rc = TLS_READ_AGAIN \<or> rc = TLS_MORE_AVAILABLE then
            (if alloc k = 0
             then Some (Inr (e1, outs @ [Link_Read out, Link_Alloc bufsize, Link_Read_Status UV_ENOBUFS]))
             else tls_read_loop api alloc bufsize (Suc k) (alloc k) [] e1
                    (outs @ [Link_Read out, Link_Alloc bufsize]))
          else if rc = TLS_HAS_WRITE then
            Some (ub_bind (api_write api e1 [] TLS_BUF_SZ) (\<lambda>(tls_rc, wout, e2).
              Inr (e2, outs @ [Link_Write wout Wr_Free])))
          else
            Some (Inr (e1, outs @ (if out \<noteq> [] then [Link_Read out, Link_Alloc bufsize] else []) @
                           [Link_Read_Status UV_ECONNABORTED])))"

declare tls_read_loop.simps [code]

definition tls_read_data ::
  "'e tls_engine_api \<Rightarrow> (nat \<Rightarrow> nat) \<Rightarrow> nat \<Rightarrow> 'e \<Rightarrow> byte list \<Rightarrow> ub + 'e \<times> 'c link_out list" where
  "tls_read_data api alloc bufsize e inp =
     (case tls_read_loop api alloc bufsize 0 bufsize inp e [] of
        None \<Rightarrow> Inl Endless_Loop | Some r \<Rightarrow> r)"

text \<open>The whole callback: \<open>nread\<close> bytes at the start of a buffer of size \<open>blen\<close>.\<close>

definition tls_read_cb ::
  "'e tls_engine_api \<Rightarrow> int \<Rightarrow> (nat \<Rightarrow> nat) \<Rightarrow> nat \<Rightarrow> 'e \<Rightarrow> int \<Rightarrow> byte list \<Rightarrow> ub + 'e \<times> 'c link_out list" where
  "tls_read_cb api wrc alloc blen e nread buf =
     (let hs_state = handshake_state api e
      in if nread < 0 then tls_read_error api e nread
         else if hs_state = TLS_HS_CONTINUE then tls_read_handshake api wrc e (take (nat nread) buf)
         else if hs_state = TLS_HS_COMPLETE then tls_read_data api alloc blen e (take (nat nread) buf)
         else Inr (e, []))"

text \<open>
  \<open>tls_write\<close>: all buffers go into the engine, then everything that waits in it is written at once. When
  nothing waits, the completion is called with the child's argument in place of a write request.
\<close>

primrec tls_wrap :: "'e tls_engine_api \<Rightarrow> 'e \<Rightarrow> int \<Rightarrow> byte list list \<Rightarrow> ub + int \<times> 'e" where
  "tls_wrap api e rc [] = Inr (rc, e)"
| "tls_wrap api e rc (b # bs) =
     ub_bind (api_write api e b 0) (\<lambda>(rc1, out, e1).
       if rc1 < 0 then Inr (rc1, e1) else tls_wrap api e1 rc1 bs)"

definition tls_write ::
  "'e tls_engine_api \<Rightarrow> int \<Rightarrow> 'e \<Rightarrow> byte list list \<Rightarrow> 'c \<Rightarrow> ub + int \<times> 'e \<times> 'c link_out list" where
  "tls_write api wrc e bufs arg =
     ub_bind (tls_wrap api e 0 bufs) (\<lambda>(tls_rc, e1).
       if tls_rc < 0 then Inr (tls_rc, e1, [])
       else if tls_rc > 0 then
         ub_bind (api_write api e1 [] (nat tls_rc)) (\<lambda>(rc2, out, e2).
           if rc2 < 0 then Inr (rc2, e2, [])
           else Inr (wrc, e2, [Link_Write out (Wr_Child arg)]))
       else Inl Bad_Pointer)"

definition tls_close :: "'e tls_engine_api \<Rightarrow> 'e \<Rightarrow> 'e \<times> 'c link_out list" where
  "tls_close api e =
     (case api_reset api of None \<Rightarrow> e | Some reset \<Rightarrow> snd (reset e), [Link_Close_Cb])"

section \<open>What the child and the parent see\<close>

text \<open>The bytes that the buffers of a write add to those that wait in the engine.\<close>

primrec wrapped :: "'e tls_engine_api \<Rightarrow> ('e \<Rightarrow> byte list \<Rightarrow> byte list) \<Rightarrow> 'e \<Rightarrow> byte list list \<Rightarrow> byte list" where
  "wrapped api enc e [] = []"
| "wrapped api enc e (b # bs) =
     enc e b @ (case api_write api e b 0 of Inl u \<Rightarrow> [] | Inr (rc, out, e1) \<Rightarrow> wrapped api enc e1 bs)"

definition link_data :: "'c link_out list \<Rightarrow> byte list" where
  "link_data os = concat (map (\<lambda>x. case x of Link_Read d \<Rightarrow> d | _ \<Rightarrow> []) os)"

definition link_statuses :: "'c link_out list \<Rightarrow> int list" where
  "link_statuses os = concat (map (\<lambda>x. case x of Link_Read_Status s \<Rightarrow> [s] | _ \<Rightarrow> []) os)"

definition link_writes :: "'c link_out list \<Rightarrow> byte list list" where
  "link_writes os = concat (map (\<lambda>x. case x of Link_Write d w \<Rightarrow> [d] | _ \<Rightarrow> []) os)"

lemma link_views_simps [simp]:
  "link_data [] = []" "link_data (x # xs) = (case x of Link_Read d \<Rightarrow> d | _ \<Rightarrow> []) @ link_data xs"
  "link_data (xs @ ys) = link_data xs @ link_data ys"
  "link_statuses [] = []" "link_statuses (x # xs) = (case x of Link_Read_Status s \<Rightarrow> [s] | _ \<Rightarrow> []) @ link_statuses xs"
  "link_statuses (xs @ ys) = link_statuses xs @ link_statuses ys"
  "link_writes [] = []" "link_writes (x # xs) = (case x of Link_Write d w \<Rightarrow> [d] | _ \<Rightarrow> []) @ link_writes xs"
  "link_writes (xs @ ys) = link_writes xs @ link_writes ys"
  by (simp_all add: link_data_def link_statuses_def link_writes_def)

text \<open>
  The outcome of a read after the handshake, given the plain text that the engine has for it: the
  child always gets a part of it in order, and all of it unless the engine reported an error, had
  something to send, or the child gave no buffer.
\<close>

definition read_outcome :: "('e \<Rightarrow> bool) \<Rightarrow> ('e \<Rightarrow> byte list) \<Rightarrow> byte list \<Rightarrow> 'e \<Rightarrow> 'c link_out list \<Rightarrow> bool" where
  "read_outcome ready plain expected e' os \<longleftrightarrow>
     (\<exists>rest. expected = link_data os @ rest) \<and>
     set (link_statuses os) \<subseteq> {UV_EOF, UV_ECONNABORTED, UV_ENOBUFS} \<and> length (link_statuses os) \<le> 1 \<and>
     (link_statuses os = [UV_EOF] \<longrightarrow> link_data os = expected) \<and>
     (link_statuses os = [] \<and> link_writes os = [] \<longrightarrow>
        link_data os = expected \<and> ready e' \<and> plain e' = [])"

context tls_transport
begin

lemma read_loop_stops:
  assumes "ready e" and "blen > 0" and "api_read api e inp blen = Inr (rc, out, e1)"
    and "rc \<noteq> TLS_READ_AGAIN" and "rc \<noteq> TLS_MORE_AVAILABLE"
  shows "\<exists>e' new. tls_read_loop api alloc bufsize k blen inp e os = Some (Inr (e', os @ new)) \<and>
    read_outcome ready plain (plain e @ more e inp) e' new"
proof -
  note r = assms(3)
  note laws = read_part [OF assms(1-3)] read_all [OF assms(1-3)] read_more [OF assms(1-3)] read_ready [OF assms(1-3)]
  consider (ok) "rc = TLS_OK" | (eof) "rc = TLS_EOF" | (has_write) "rc = TLS_HAS_WRITE"
    | (other) "rc \<notin> {TLS_OK, TLS_EOF, TLS_READ_AGAIN, TLS_MORE_AVAILABLE, TLS_HAS_WRITE}"
    using assms(4,5) by blast
  then show ?thesis
  proof cases
    case has_write
    then obtain rc2 w e2 where w: "api_write api e1 [] TLS_BUF_SZ = Inr (rc2, w, e2)"
      using laws write_returns by (fastforce simp: tls_codes)
    have "tls_read_loop api alloc bufsize k blen inp e os = Some (Inr (e2, os @ [Link_Write w Wr_Free]))"
      using r has_write w by (subst tls_read_loop.simps) (auto simp: tls_codes)
    then show ?thesis by (auto simp: read_outcome_def)
  next
    case ok
    then have "tls_read_loop api alloc bufsize k blen inp e os = Some (Inr (e1, os @ [Link_Read out]))"
      using r by (subst tls_read_loop.simps) (auto simp: tls_codes)
    moreover have "read_outcome ready plain (plain e @ more e inp) e1 [Link_Read out]"
      using laws ok by (auto simp: read_outcome_def tls_codes)
    ultimately show ?thesis by blast
  next
    case eof
    let ?n = "(if out \<noteq> [] then [Link_Read out, Link_Alloc bufsize] else []) @ [Link_Read_Status UV_EOF]"
    have "tls_read_loop api alloc bufsize k blen inp e os = Some (Inr (e1, os @ ?n))"
      using r eof by (subst tls_read_loop.simps) (auto simp: tls_codes)
    moreover have "read_outcome ready plain (plain e @ more e inp) e1 ?n"
      using laws eof by (auto simp: read_outcome_def tls_codes)
    ultimately show ?thesis by blast
  next
    case other
    let ?n = "(if out \<noteq> [] then [Link_Read out, Link_Alloc bufsize] else []) @ [Link_Read_Status UV_ECONNABORTED]"
    have "tls_read_loop api alloc bufsize k blen inp e os = Some (Inr (e1, os @ ?n))"
      using r other by (subst tls_read_loop.simps) (auto simp: tls_codes)
    moreover have "read_outcome ready plain (plain e @ more e inp) e1 ?n"
      using laws other by (auto simp: read_outcome_def uv_codes)
    ultimately show ?thesis by blast
  qed
qed

lemma read_loop_outcome:
  assumes "ready e" and "blen > 0" and "\<forall>i. alloc i > 0"
  shows "\<exists>e' new. tls_read_loop api alloc bufsize k blen inp e os = Some (Inr (e', os @ new)) \<and>
    read_outcome ready plain (plain e @ more e inp) e' new"
  using assms(1,2)
proof (induction "length (plain e @ more e inp)" arbitrary: e blen inp os k rule: less_induct)
  case less
  obtain rc out e1 where r: "api_read api e inp blen = Inr (rc, out, e1)"
    using read_returns [OF less.prems] by blast
  note laws = read_part [OF less.prems r] read_all [OF less.prems r] read_more [OF less.prems r]
    read_ready [OF less.prems r]
  consider (more) "rc = TLS_READ_AGAIN \<or> rc = TLS_MORE_AVAILABLE" | (stop) "rc \<noteq> TLS_READ_AGAIN" "rc \<noteq> TLS_MORE_AVAILABLE"
    by blast
  then show ?case
  proof cases
    case more
    have l: "length out = blen \<and> out @ plain e1 = plain e @ more e inp" "ready e1"
      using laws more by (auto simp: tls_codes)
    have "length (plain e1 @ more e1 []) < length (plain e @ more e inp)"
    proof -
      have "length out + length (plain e1) = length (plain e @ more e inp)" using l(1) by (metis length_append)
      with l(1) less.prems(2) show ?thesis unfolding more_nothing by simp
    qed
    from less.hyps [OF this l(2) assms(3) [rule_format, of k], of "Suc k" "os @ [Link_Read out, Link_Alloc bufsize]"]
    obtain e' new where n: "tls_read_loop api alloc bufsize (Suc k) (alloc k) [] e1 (os @ [Link_Read out, Link_Alloc bufsize]) =
        Some (Inr (e', (os @ [Link_Read out, Link_Alloc bufsize]) @ new))"
      "read_outcome ready plain (plain e1) e' new"
      by (auto simp: more_nothing)
    have "tls_read_loop api alloc bufsize k blen inp e os = Some (Inr (e', os @ [Link_Read out, Link_Alloc bufsize] @ new))"
      using r more n(1) assms(3) [rule_format, of k] by (subst tls_read_loop.simps) (auto simp: tls_codes)
    moreover have "read_outcome ready plain (plain e @ more e inp) e' ([Link_Read out, Link_Alloc bufsize] @ new)"
      using n(2) l(1) [THEN conjunct2, symmetric] by (auto simp: read_outcome_def)
    ultimately show ?thesis by blast
  next
    case stop
    with read_loop_stops [OF less.prems r] show ?thesis by blast
  qed
qed

lemma read_cb_outcome:
  assumes "ready e" and "blen > 0" and "\<forall>i. alloc i > 0" and "nread \<ge> 0"
  shows "\<exists>e' (new :: 'c link_out list). tls_read_cb api wrc alloc blen e nread buf = Inr (e', new) \<and>
    read_outcome ready plain (plain e @ more e (take (nat nread) buf)) e' new"
  using read_loop_outcome [OF assms(1-3), where bufsize = blen and k = 0 and inp = "take (nat nread) buf" and os = "[] :: 'c link_out list"] assms(4) ready_state [OF assms(1)]
  by (auto simp: tls_read_cb_def tls_read_data_def)

lemma wrap_returns:
  assumes "ready e" and "length (outq e @ wrapped api enc e bufs) < 2 ^ 31"
  shows "\<exists>rc e'. tls_wrap api e rc0 bufs = Inr (rc, e')"
  using assms
proof (induction bufs arbitrary: e rc0)
  case Nil
  then show ?case by simp
next
  case (Cons b bs)
  obtain rc1 out e1 where w: "api_write api e b 0 = Inr (rc1, out, e1)"
    using write_returns [OF Cons.prems(1)] by blast
  show ?case
  proof (cases "rc1 < 0")
    case True
    with w show ?thesis by simp
  next
    case False
    then have "ready e1 \<and> outq e1 = outq e @ enc e b"
      using write_result [OF Cons.prems(1) _ _ w] Cons.prems(2) w by simp
    with Cons.IH [of e1 rc1] Cons.prems(2) w False show ?thesis by simp
  qed
qed

lemma wrap_result:
  assumes "ready e" and "length (outq e @ wrapped api enc e bufs) < 2 ^ 31"
    and "tls_wrap api e rc0 bufs = Inr (rc, e')" and "rc \<ge> 0" and "bufs \<noteq> []"
  shows "ready e' \<and> outq e' = outq e @ wrapped api enc e bufs \<and> rc = int (length (outq e'))"
  using assms
proof (induction bufs arbitrary: e rc0)
  case Nil
  then show ?case by simp
next
  case (Cons b bs)
  obtain rc1 out e1 where w: "api_write api e b 0 = Inr (rc1, out, e1)"
    using write_returns [OF Cons.prems(1)] by blast
  have p: "\<not> rc1 < 0" using Cons.prems(3,4) w by (auto split: if_splits)
  have l: "ready e1 \<and> outq e1 = outq e @ enc e b \<and> rc1 = int (length (outq e1))"
    using write_result [OF Cons.prems(1) _ _ w] Cons.prems(2) w p by simp
  show ?case
  proof (cases "bs = []")
    case True
    with Cons.prems(3) w p l show ?thesis by auto
  next
    case False
    then have "ready e' \<and> outq e' = outq e1 @ wrapped api enc e1 bs \<and> rc = int (length (outq e'))"
      using Cons.prems w p l by (intro Cons.IH [of e1 rc1]) simp_all
    then show ?thesis using l w by simp
  qed
qed


text \<open>A write sends everything that waits, once, with the child's completion, or fails with nothing sent.\<close>

lemma write_outcome:
  assumes "ready e" and "length (outq e @ wrapped api enc e bufs) < 2 ^ 31"
    and "outq e @ wrapped api enc e bufs \<noteq> []" and "bufs \<noteq> []"
  shows "(\<exists>rc e'. tls_write api wrc e bufs arg = Inr (rc, e', []) \<and> rc < 0) \<or>
    (\<exists>e'. tls_write api wrc e bufs arg =
       Inr (wrc, e', [Link_Write (outq e @ wrapped api enc e bufs) (Wr_Child arg)]) \<and> ready e' \<and> outq e' = [])"
proof -
  obtain rc e1 where w: "tls_wrap api e 0 bufs = Inr (rc, e1)"
    using wrap_returns assms(1,2) by blast
  show ?thesis
  proof (cases "rc < 0")
    case True
    with w show ?thesis by (simp add: tls_write_def)
  next
    case False
    then have r: "ready e1 \<and> outq e1 = outq e @ wrapped api enc e bufs \<and> rc = int (length (outq e1))"
      using wrap_result [OF assms(1,2) w _ assms(4)] by simp
    then have p: "rc > 0" using assms(3) by (metis length_greater_0_conv of_nat_0_less_iff)
    obtain rc2 out e2 where f: "api_write api e1 [] (nat rc) = Inr (rc2, out, e2)"
      using write_returns r by blast
    show ?thesis
    proof (cases "rc2 < 0")
      case True
      with w f p show ?thesis by (simp add: tls_write_def)
    next
      case False
      then have "ready e2 \<and> out = outq e1 \<and> outq e2 = []"
        using write_result [OF _ _ _ f] r assms(2) by (simp add: enc_nothing)
      with w f p False r show ?thesis by (simp add: tls_write_def)
    qed
  qed
qed

end

section \<open>The handshake comes first\<close>

text \<open>
  The events on a link whose reading was started: what the parent reads, with the size of the buffer,
  and the close. A run collects the outputs.
\<close>

datatype link_event = Ev_Read int "byte list" nat | Ev_Close

definition link_step ::
  "'e tls_engine_api \<Rightarrow> int \<Rightarrow> (nat \<Rightarrow> nat) \<Rightarrow> 'e \<Rightarrow> link_event \<Rightarrow> ub + 'e \<times> 'c link_out list" where
  "link_step api wrc alloc e ev =
     (case ev of
        Ev_Read nread buf blen \<Rightarrow> tls_read_cb api wrc alloc blen e nread buf
      | Ev_Close \<Rightarrow> Inr (tls_close api e))"

primrec link_run ::
  "'e tls_engine_api \<Rightarrow> int \<Rightarrow> (nat \<Rightarrow> nat) \<Rightarrow> 'e \<Rightarrow> link_event list \<Rightarrow> ub + 'e \<times> 'c link_out list" where
  "link_run api wrc alloc e [] = Inr (e, [])"
| "link_run api wrc alloc e (ev # evs) =
     ub_bind (link_step api wrc alloc e ev) (\<lambda>(e1, o1).
       ub_bind (link_run api wrc alloc e1 evs) (\<lambda>(e2, o2). Inr (e2, o1 @ o2)))"

text \<open>
  Whether the reader may see plain text: after a completed handshake was announced and until an error
  of the handshake or the close.
\<close>

fun hs_done :: "bool \<Rightarrow> 'c link_out \<Rightarrow> bool" where
  "hs_done d (Link_Hs_Cb st) = (st = TLS_HS_COMPLETE)"
| "hs_done d Link_Close_Cb = False"
| "hs_done d _ = d"

fun no_early_data :: "bool \<Rightarrow> 'c link_out list \<Rightarrow> bool" where
  "no_early_data d [] = True"
| "no_early_data d (Link_Read x # os) = (d \<and> no_early_data d os)"
| "no_early_data d (x # os) = no_early_data (hs_done d x) os"

lemma no_early_data_append [simp]:
  "no_early_data d (xs @ ys) \<longleftrightarrow> no_early_data d xs \<and> no_early_data (foldl hs_done d xs) ys"
  by (induction d xs rule: no_early_data.induct) auto

lemma no_early_when_done:
  assumes "\<forall>x \<in> set os. x \<noteq> Link_Close_Cb \<and> (\<forall>st. x \<noteq> Link_Hs_Cb st)"
  shows "no_early_data True os \<and> foldl hs_done True os"
  using assms by (induction "True" os rule: no_early_data.induct) auto

text \<open>The loop for application data makes no handshake callback.\<close>

definition plain_out :: "'c link_out list \<Rightarrow> bool" where
  "plain_out os \<longleftrightarrow> (\<forall>x \<in> set os. x \<noteq> Link_Close_Cb \<and> (\<forall>st. x \<noteq> Link_Hs_Cb st))"

lemma plain_out_simps [simp]:
  "plain_out []" "plain_out (xs @ ys) \<longleftrightarrow> plain_out xs \<and> plain_out ys"
  "plain_out (Link_Read d # os) = plain_out os" "plain_out (Link_Alloc n # os) = plain_out os"
  "plain_out (Link_Read_Status st # os) = plain_out os" "plain_out (Link_Write d w # os) = plain_out os"
  by (auto simp: plain_out_def)

context tls_handshaking
begin

lemma read_loop_good:
  assumes "tls_read_loop api alloc bufsize k blen inp e os = Some (Inr (e', os'))" and "good e" and "plain_out os"
  shows "good e' \<and> plain_out os'"
proof -
  let ?P = "\<lambda>a al bs k bl inp e os r. a = api \<longrightarrow> good e \<longrightarrow> plain_out os \<longrightarrow>
      (\<forall>e' os'. r = Inr (e', os') \<longrightarrow> good e' \<and> plain_out os')"
  have "?P api alloc bufsize k blen inp e os r"
    if "tls_read_loop api alloc bufsize k blen inp e os = Some r" for r
  proof (rule tls_read_loop.raw_induct [where P = ?P, OF _ that], intro impI allI, goal_cases)
    case (1 f a al bs k bl inp e os r e' os')
    note body = 1(2) [unfolded \<open>a = api\<close>, unfolded \<open>r = Inr (e', os')\<close>]
    obtain rc out e1 where rd: "api_read api e inp bl = Inr (rc, out, e1)"
      using body by (cases "api_read api e inp bl") auto
    have g: "good e1" using reads_good [OF \<open>good e\<close> rd] .
    show ?case
    proof (cases "rc = TLS_READ_AGAIN \<or> rc = TLS_MORE_AVAILABLE")
      case True
      show ?thesis
      proof (cases "al k = 0")
        case False
        then have "f api al bs (Suc k) (al k) [] e1 (os @ [Link_Read out, Link_Alloc bs]) = Some (Inr (e', os'))"
          using body rd True by (auto simp: tls_codes)
        from 1(1) [OF this] g \<open>plain_out os\<close> show ?thesis by simp
      qed (use body rd True g \<open>plain_out os\<close> in \<open>auto simp: tls_codes\<close>)
    next
      case False
      show ?thesis
      proof (cases "rc = TLS_HAS_WRITE")
        case True
        then show ?thesis
          using body rd flush_good [OF g] \<open>plain_out os\<close> by (auto simp: tls_codes ub_bind_Inr)
      qed (use body rd False g \<open>plain_out os\<close> in \<open>auto split: if_splits\<close>)
    qed
  qed
  with assms show ?thesis by blast
qed

lemma handshake_step:
  assumes "good e" and "handshake_state api e = TLS_HS_CONTINUE" and "tls_read_handshake api wrc e inp = Inr (e', os)"
  shows "good e' \<and> no_early_data d os \<and> (handshake_state api e' = TLS_HS_COMPLETE \<longrightarrow> foldl hs_done d os)"
proof (cases "inp = []")
  case True
  with assms show ?thesis by (simp add: tls_read_handshake_def)
next
  case False
  then obtain st out where h: "handshake api e inp TLS_BUF_SZ = Inr (st, out, e')"
    using assms(3) by (auto simp: tls_read_handshake_def ub_bind_Inr)
  have "good e' \<and> (handshake_state api e' = TLS_HS_COMPLETE \<longleftrightarrow> st = TLS_HS_COMPLETE)"
    using hs_complete [OF assms(1) _ h] assms(2) by simp
  with assms(3) h False show ?thesis
    by (auto simp: tls_read_handshake_def tls_write_cb_def Let_def split: if_splits)
qed

lemma read_step:
  assumes "good e" and "link_step api wrc alloc e ev = Inr (e', os)"
    and "handshake_state api e = TLS_HS_COMPLETE \<longrightarrow> d"
  shows "good e' \<and> no_early_data d os \<and>
    (handshake_state api e' = TLS_HS_COMPLETE \<longrightarrow> foldl hs_done d os)"
proof (cases ev)
  case Ev_Close
  obtain reset where r: "api_reset api = Some reset" using has_reset by blast
  with reset_state [OF assms(1) r] assms(2) Ev_Close show ?thesis
    by (auto simp: link_step_def tls_close_def)
next
  case (Ev_Read nread buf blen)
  let ?inp = "take (nat nread) buf"
  have s: "tls_read_cb api wrc alloc blen e nread buf = Inr (e', os)"
    using assms(2) Ev_Read by (simp add: link_step_def)
  obtain reset where r: "api_reset api = Some reset" using has_reset by blast
  consider (err) "nread < 0" | (hs) "nread \<ge> 0" "handshake_state api e = TLS_HS_CONTINUE"
    | (app) "nread \<ge> 0" "handshake_state api e = TLS_HS_COMPLETE"
    | (none) "nread \<ge> 0" "handshake_state api e \<notin> {TLS_HS_CONTINUE, TLS_HS_COMPLETE}"
    by force
  then show ?thesis
  proof cases
    case err
    with s r reset_state [OF assms(1) r] assms(1,3) show ?thesis
      by (auto simp: tls_read_cb_def tls_read_error_def split: if_splits)
  next
    case hs
    then have "tls_read_handshake api wrc e ?inp = Inr (e', os)"
      using s by (simp add: tls_read_cb_def)
    with handshake_step [OF assms(1) hs(2)] show ?thesis by blast
  next
    case app
    then have "tls_read_data api alloc blen e ?inp = Inr (e', os)"
      using s by (simp add: tls_read_cb_def)
    then have "good e' \<and> plain_out os"
      using read_loop_good [of alloc blen 0 blen ?inp e "[]"] assms(1)
      by (simp add: tls_read_data_def plain_out_def split: option.splits)
    with app(2) assms(3) show ?thesis
      using no_early_when_done [of os] by (simp add: plain_out_def)
  next
    case none
    then have "e' = e \<and> os = []" using s by (auto simp: tls_read_cb_def)
    with assms(1,3) show ?thesis by simp
  qed
qed

lemma run_no_early:
  assumes "good e" and "link_run api wrc alloc e evs = Inr (e', os)"
    and "handshake_state api e = TLS_HS_COMPLETE \<longrightarrow> d"
  shows "no_early_data d os"
  using assms
proof (induction evs arbitrary: e os d)
  case Nil
  then show ?case by simp
next
  case (Cons ev evs)
  obtain e1 o1 o2 where s: "link_step api wrc alloc e ev = Inr (e1, o1)"
    and t: "link_run api wrc alloc e1 evs = Inr (e', o2)" and o: "os = o1 @ o2"
    using Cons.prems(2) by (auto simp: ub_bind_Inr)
  from read_step [OF Cons.prems(1) s Cons.prems(3)] Cons.IH [OF _ t] show ?case
    by (simp add: o)
qed

end

section \<open>Defects\<close>

text \<open>When the engine has something to send after a read, the plain text of this read is dropped.\<close>

lemma has_write_drops_data:
  assumes "handshake_state api e = TLS_HS_COMPLETE"
    and "api_read api e inp blen = Inr (TLS_HAS_WRITE, out, e1)"
    and "api_write api e1 [] TLS_BUF_SZ = Inr (rc, w, e2)"
  shows "tls_read_cb api wrc alloc blen e (int (length inp)) inp = Inr (e2, [Link_Write w Wr_Free])"
  using assms by (simp add: tls_read_cb_def tls_read_data_def tls_read_loop.simps tls_codes)

text \<open>
  A write that leaves nothing to send (no buffers, or only empty ones) takes the child's argument for
  a write request of the link.
\<close>

lemma empty_write_is_undefined: "tls_write api wrc e [] arg = Inl Bad_Pointer"
  by (simp add: tls_write_def)

text \<open>A failed handshake is reported to the owner of the link and, as a read error, to the child as well.\<close>

lemma handshake_failure_reported_twice:
  assumes "handshake_state api e = TLS_HS_CONTINUE" and "inp \<noteq> []"
    and "handshake api e inp TLS_BUF_SZ = Inr (TLS_HS_ERROR, [], e1)"
  shows "tls_read_cb api wrc alloc blen e (int (length inp)) inp =
    Inr (e1, [Link_Hs_Cb TLS_HS_ERROR, Link_Read_Status UV_ECONNABORTED])"
  using assms by (simp add: tls_read_cb_def tls_read_handshake_def)

end
