(* ===== verification/Mbed_Engine.thy ===== *)
theory Mbed_Engine
  imports Bio Tls_Link
begin

text \<open>
  The mbedTLS engine of \<open>src/mbedtls/engine.c\<close>: how the library is driven through two byte queues. The
  library itself is a parameter. A call of it is a program that receives and sends through the two
  callbacks of the engine and then returns, so that every such call is a tree of callbacks, and
  running the tree against the queues is a function of the model.
\<close>

section \<open>The library\<close>

datatype 'r ssl_run =
    Ssl_Done 'r
  | Ssl_Recv nat "int \<times> byte list \<Rightarrow> 'r ssl_run"
  | Ssl_Send "byte list" "int \<Rightarrow> 'r ssl_run"

datatype mbed_state = SSL_HELLO_REQUEST | SSL_HANDSHAKE_OVER | SSL_STATE nat

text \<open>
  The functions of the library that the engine calls, on a state \<open>'s\<close> with sessions \<open>'n\<close>.
  \<open>session_empty\<close> is a session that is all zero.
\<close>

record ('s, 'n) mbed_lib =
  ssl_state :: "'s \<Rightarrow> mbed_state"
  ssl_handshake :: "'s \<Rightarrow> (int \<times> 's) ssl_run"
  ssl_read :: "'s \<Rightarrow> nat \<Rightarrow> (int \<times> byte list \<times> 's) ssl_run"
  ssl_write :: "'s \<Rightarrow> byte list \<Rightarrow> (int \<times> 's) ssl_run"
  ssl_close_notify :: "'s \<Rightarrow> (int \<times> 's) ssl_run"
  ssl_check_pending :: "'s \<Rightarrow> bool"
  ssl_get_session :: "'s \<Rightarrow> 'n option"
  ssl_set_session :: "'s \<Rightarrow> 'n \<Rightarrow> 's"
  ssl_session_reset :: "'s \<Rightarrow> int \<times> 's"
  ssl_get_alpn :: "'s \<Rightarrow> string option"
  session_empty :: 'n

text \<open>The values the library gives these codes.\<close>

definition MBEDTLS_ERR_SSL_WANT_READ :: int where "MBEDTLS_ERR_SSL_WANT_READ = -0x6900"
definition MBEDTLS_ERR_SSL_WANT_WRITE :: int where "MBEDTLS_ERR_SSL_WANT_WRITE = -0x6880"
definition MBEDTLS_ERR_SSL_PEER_CLOSE_NOTIFY :: int where "MBEDTLS_ERR_SSL_PEER_CLOSE_NOTIFY = -0x7880"

named_theorems mbed_codes \<open>the numeric values of the library's results\<close>

declare MBEDTLS_ERR_SSL_WANT_READ_def [mbed_codes] MBEDTLS_ERR_SSL_WANT_WRITE_def [mbed_codes]
  MBEDTLS_ERR_SSL_PEER_CLOSE_NOTIFY_def [mbed_codes]

section \<open>The engine\<close>

record ('s, 'n) mbedtls_engine =
  eng_ssl :: 's
  eng_session :: "'n option"
  eng_in :: tlsuv_BIO
  eng_out :: tlsuv_BIO
  eng_error :: int

text \<open>
  \<open>fits bio buf\<close> says whether the allocations of a put succeed. The callbacks and the engine ignore
  that a put failed.
\<close>

definition mbed_put :: "(tlsuv_BIO \<Rightarrow> byte list \<Rightarrow> bool) \<Rightarrow> tlsuv_BIO \<Rightarrow> byte list \<Rightarrow> tlsuv_BIO" where
  "mbed_put fits bio buf = snd (tlsuv_BIO_put (fits bio buf) (fits bio buf) bio buf)"

definition mbed_ssl_recv :: "tlsuv_BIO \<Rightarrow> nat \<Rightarrow> (int \<times> byte list) \<times> tlsuv_BIO" where
  "mbed_ssl_recv bio len =
     (if tlsuv_BIO_available bio = 0 then ((MBEDTLS_ERR_SSL_WANT_READ, []), bio)
      else (let (rc, bio1, out) = tlsuv_BIO_read bio (of_nat len) in ((rc, out), bio1)))"

definition mbed_ssl_send ::
  "(tlsuv_BIO \<Rightarrow> byte list \<Rightarrow> bool) \<Rightarrow> tlsuv_BIO \<Rightarrow> byte list \<Rightarrow> int \<times> tlsuv_BIO" where
  "mbed_ssl_send fits bio buf = (to_c_int (of_nat (length buf)), mbed_put fits bio buf)"

text \<open>A call of the library, with the queues that its callbacks use.\<close>

primrec ssl_io ::
  "(tlsuv_BIO \<Rightarrow> byte list \<Rightarrow> bool) \<Rightarrow> 'r ssl_run \<Rightarrow> tlsuv_BIO \<Rightarrow> tlsuv_BIO \<Rightarrow> 'r \<times> tlsuv_BIO \<times> tlsuv_BIO" where
  "ssl_io fits (Ssl_Done r) i out = (r, i, out)"
| "ssl_io fits (Ssl_Recv n k) i out = (let (x, i1) = mbed_ssl_recv i n in ssl_io fits (k x) i1 out)"
| "ssl_io fits (Ssl_Send buf k) i out = (let (rc, out1) = mbed_ssl_send fits out buf in ssl_io fits (k rc) i out1)"

definition new_mbedtls_engine :: "'s \<Rightarrow> ('s, 'n) mbedtls_engine" where
  "new_mbedtls_engine ssl =
     \<lparr>eng_ssl = ssl, eng_session = None, eng_in = tlsuv_BIO_new, eng_out = tlsuv_BIO_new, eng_error = 0\<rparr>"

definition mbedtls_hs_state :: "('s, 'n) mbed_lib \<Rightarrow> ('s, 'n) mbedtls_engine \<Rightarrow> tls_handshake_state" where
  "mbedtls_hs_state lib eng =
     (case ssl_state lib (eng_ssl eng) of
        SSL_HANDSHAKE_OVER \<Rightarrow> TLS_HS_COMPLETE
      | SSL_HELLO_REQUEST \<Rightarrow> TLS_HS_BEFORE
      | _ \<Rightarrow> TLS_HS_CONTINUE)"

definition mbedtls_get_alpn :: "('s, 'n) mbed_lib \<Rightarrow> ('s, 'n) mbedtls_engine \<Rightarrow> string option" where
  "mbedtls_get_alpn lib eng = ssl_get_alpn lib (eng_ssl eng)"

text \<open>The bytes for the peer are taken from the output queue, at most \<open>maxout\<close> of them.\<close>

definition mbed_take_out :: "('s, 'n) mbedtls_engine \<Rightarrow> nat \<Rightarrow> byte list \<times> ('s, 'n) mbedtls_engine" where
  "mbed_take_out eng maxout =
     (let (rc, out1, data) = tlsuv_BIO_read (eng_out eng) (of_nat maxout) in (data, eng\<lparr>eng_out := out1\<rparr>))"

text \<open>
  \<open>mbedtls_continue_hs\<close>. Before the first message a saved session is given to the library and its
  contents are released; the pointer stays, to a session that is all zero.
\<close>

definition mbed_resume :: "('s, 'n) mbed_lib \<Rightarrow> ('s, 'n) mbedtls_engine \<Rightarrow> ('s, 'n) mbedtls_engine" where
  "mbed_resume lib eng =
     (case eng_session eng of
        Some n \<Rightarrow>
          if ssl_state lib (eng_ssl eng) = SSL_HELLO_REQUEST
          then eng\<lparr>eng_ssl := ssl_set_session lib (eng_ssl eng) n, eng_session := Some (session_empty lib)\<rparr>
          else eng
      | None \<Rightarrow> eng)"

definition mbedtls_continue_hs ::
  "(tlsuv_BIO \<Rightarrow> byte list \<Rightarrow> bool) \<Rightarrow> ('s, 'n) mbed_lib \<Rightarrow> ('s, 'n) mbedtls_engine \<Rightarrow> byte list \<Rightarrow> nat \<Rightarrow>
     ub + tls_handshake_state \<times> byte list \<times> ('s, 'n) mbedtls_engine" where
  "mbedtls_continue_hs fits lib eng inp maxout =
     (let eng1 = (if inp \<noteq> [] then eng\<lparr>eng_in := mbed_put fits (eng_in eng) inp\<rparr> else eng);
          eng2 = mbed_resume lib eng1;
          ((st, s), i, o1) = ssl_io fits (ssl_handshake lib (eng_ssl eng2)) (eng_in eng2) (eng_out eng2);
          (data, eng3) = mbed_take_out (eng2\<lparr>eng_ssl := s, eng_in := i, eng_out := o1\<rparr>) maxout
      in if ssl_state lib (eng_ssl eng3) = SSL_HANDSHAKE_OVER then Inr (TLS_HS_COMPLETE, data, eng3)
         else if st = MBEDTLS_ERR_SSL_WANT_READ \<or> st = MBEDTLS_ERR_SSL_WANT_WRITE
         then Inr (TLS_HS_CONTINUE, data, eng3)
         else Inr (TLS_HS_ERROR, data, eng3\<lparr>eng_error := st\<rparr>))"

text \<open>
  The loop of \<open>mbedtls_write\<close>: the library takes a part of the data at a time. It does not end when the
  library keeps taking nothing, so it is a partial function; the first component of the result is the
  error, or 0.
\<close>

partial_function (option) mbed_write_loop ::
  "(tlsuv_BIO \<Rightarrow> byte list \<Rightarrow> bool) \<Rightarrow> ('s, 'n) mbed_lib \<Rightarrow> ('s, 'n) mbedtls_engine \<Rightarrow> byte list \<Rightarrow>
     (int \<times> ('s, 'n) mbedtls_engine) option" where
  "mbed_write_loop fits lib eng data =
     (if data = [] then Some (0, eng)
      else
        (let ((rc, s), i, o1) = ssl_io fits (ssl_write lib (eng_ssl eng) data) (eng_in eng) (eng_out eng);
             eng1 = eng\<lparr>eng_ssl := s, eng_in := i, eng_out := o1\<rparr>
         in if rc < 0 then Some (rc, eng1\<lparr>eng_error := rc\<rparr>)
            else mbed_write_loop fits lib eng1 (drop (nat rc) data)))"

declare mbed_write_loop.simps [code]

definition mbedtls_write ::
  "(tlsuv_BIO \<Rightarrow> byte list \<Rightarrow> bool) \<Rightarrow> ('s, 'n) mbed_lib \<Rightarrow> ('s, 'n) mbedtls_engine \<Rightarrow> byte list \<Rightarrow> nat \<Rightarrow>
     ub + int \<times> byte list \<times> ('s, 'n) mbedtls_engine" where
  "mbedtls_write fits lib eng data maxout =
     (case mbed_write_loop fits lib eng data of
        None \<Rightarrow> Inl Endless_Loop
      | Some (rc, eng1) \<Rightarrow>
          if rc < 0 then Inr (rc, [], eng1)
          else (let (out, eng2) = mbed_take_out eng1 maxout
                in Inr (to_c_int (tlsuv_BIO_available (eng_out eng2)), out, eng2)))"

text \<open>
  The loop of \<open>mbedtls_read\<close>, with \<open>room\<close> bytes left in the caller's buffer. The library may not put more
  into the buffer than it was told.
\<close>

function mbed_read_loop ::
  "(tlsuv_BIO \<Rightarrow> byte list \<Rightarrow> bool) \<Rightarrow> ('s, 'n) mbed_lib \<Rightarrow> ('s, 'n) mbedtls_engine \<Rightarrow> nat \<Rightarrow> byte list \<Rightarrow>
     ub + int \<times> byte list \<times> ('s, 'n) mbedtls_engine" where
  "mbed_read_loop fits lib eng room out =
     (let ((rc, data, s), i, o1) = ssl_io fits (ssl_read lib (eng_ssl eng) room) (eng_in eng) (eng_out eng);
          eng1 = eng\<lparr>eng_ssl := s, eng_in := i, eng_out := o1\<rparr>
      in if rc > 0 then
           (if nat rc > room \<or> length data \<noteq> nat rc then Inl Out_Of_Bounds_Write
            else if room - nat rc > 0 then mbed_read_loop fits lib eng1 (room - nat rc) (out @ data)
            else Inr (rc, out @ data, eng1))
         else Inr (rc, out, eng1))"
  by pat_completeness auto
termination
  by (relation "measure (\<lambda>(fits, lib, eng, room, out). room)") auto

declare mbed_read_loop.simps [simp del]

definition mbedtls_read ::
  "(tlsuv_BIO \<Rightarrow> byte list \<Rightarrow> bool) \<Rightarrow> ('s, 'n) mbed_lib \<Rightarrow> ('s, 'n) mbedtls_engine \<Rightarrow> byte list \<Rightarrow> nat \<Rightarrow>
     ub + int \<times> byte list \<times> ('s, 'n) mbedtls_engine" where
  "mbedtls_read fits lib eng inp maxout =
     (let eng1 = (if inp \<noteq> [] then eng\<lparr>eng_in := mbed_put fits (eng_in eng) inp\<rparr> else eng)
      in ub_bind (mbed_read_loop fits lib eng1 maxout []) (\<lambda>(rc, out, eng2).
           if rc = MBEDTLS_ERR_SSL_WANT_READ then
             Inr (if tlsuv_BIO_available (eng_out eng2) > 0 then TLS_HAS_WRITE else TLS_OK, out, eng2)
           else if rc = MBEDTLS_ERR_SSL_PEER_CLOSE_NOTIFY then Inr (TLS_EOF, out, eng2)
           else if rc < 0 then Inr (TLS_ERR, out, eng2\<lparr>eng_error := rc\<rparr>)
           else if tlsuv_BIO_available (eng_in eng2) > 0 \<or> ssl_check_pending lib (eng_ssl eng2)
           then Inr (TLS_MORE_AVAILABLE, out, eng2)
           else Inr (TLS_OK, out, eng2)))"

definition mbedtls_close ::
  "(tlsuv_BIO \<Rightarrow> byte list \<Rightarrow> bool) \<Rightarrow> ('s, 'n) mbed_lib \<Rightarrow> ('s, 'n) mbedtls_engine \<Rightarrow> nat \<Rightarrow>
     ub + int \<times> byte list \<times> ('s, 'n) mbedtls_engine" where
  "mbedtls_close fits lib eng maxout =
     (let ((rc, s), i, o1) = ssl_io fits (ssl_close_notify lib (eng_ssl eng)) (eng_in eng) (eng_out eng);
          (out, eng1) = mbed_take_out (eng\<lparr>eng_ssl := s, eng_in := i, eng_out := o1\<rparr>) maxout
      in Inr (0, out, eng1))"

text \<open>\<open>mbedtls_reset\<close> keeps the session for a resumption. It does not touch the queues.\<close>

definition mbedtls_reset :: "('s, 'n) mbed_lib \<Rightarrow> ('s, 'n) mbedtls_engine \<Rightarrow> int \<times> ('s, 'n) mbedtls_engine" where
  "mbedtls_reset lib eng =
     (let (rc, s) = ssl_session_reset lib (eng_ssl eng)
      in (rc, eng\<lparr>eng_session := ssl_get_session lib (eng_ssl eng), eng_ssl := s\<rparr>))"

text \<open>What is released with an engine: the messages of both queues, the library's state and the session.\<close>

definition mbedtls_free :: "('s, 'n) mbedtls_engine \<Rightarrow> msg list \<times> msg list \<times> 's \<times> 'n option" where
  "mbedtls_free eng = (tlsuv_BIO_free (eng_in eng), tlsuv_BIO_free (eng_out eng), eng_ssl eng, eng_session eng)"

definition mbedtls_engine_api ::
  "(tlsuv_BIO \<Rightarrow> byte list \<Rightarrow> bool) \<Rightarrow> ('s, 'n) mbed_lib \<Rightarrow> ('s, 'n) mbedtls_engine tls_engine_api" where
  "mbedtls_engine_api fits lib =
     \<lparr>handshake_state = mbedtls_hs_state lib, handshake = mbedtls_continue_hs fits lib,
      api_close = mbedtls_close fits lib, api_write = mbedtls_write fits lib,
      api_read = mbedtls_read fits lib, api_reset = Some (mbedtls_reset lib)\<rparr>"

section \<open>What the engine assumes of the library and of memory\<close>

text \<open>
  An allocation succeeds only while the live buffers of a queue stay addressable.
\<close>

definition memory_ok :: "(tlsuv_BIO \<Rightarrow> byte list \<Rightarrow> bool) \<Rightarrow> bool" where
  "memory_ok fits \<longleftrightarrow> (\<forall>bio buf. fits bio buf \<longrightarrow> bio_room bio buf)"

text \<open>
  The documented behaviour of \<open>mbedtls_ssl_read\<close>, \<open>mbedtls_ssl_write\<close> and \<open>mbedtls_ssl_check_pending\<close> on a
  session whose handshake is over (\<open>good\<close>). \<open>dec s w\<close> is the plain text that the state \<open>s\<close> can still give
  when the transport holds the bytes \<open>w\<close>; more bytes only add to it. A read gives the next part of it, or
  reports that nothing can be given without more bytes, or that the peer has closed; a transport that
  is never at its end never makes it return 0. A write takes some of the data or fails.
\<close>

definition mbed_read_ok ::
  "('s \<Rightarrow> bool) \<Rightarrow> ('s \<Rightarrow> byte list \<Rightarrow> byte list) \<Rightarrow> nat \<Rightarrow> 's \<Rightarrow> byte list \<Rightarrow> int \<times> byte list \<times> 's \<Rightarrow> byte list \<Rightarrow> bool" where
  "mbed_read_ok good dec n s w r w' \<longleftrightarrow>
     (let (rc, data, s') = r
      in rc \<noteq> 0 \<and>
         (rc > 0 \<longrightarrow> length data = nat rc \<and> nat rc \<le> n \<and> good s' \<and> dec s w = data @ dec s' w') \<and>
         (rc = MBEDTLS_ERR_SSL_WANT_READ \<longrightarrow> good s' \<and> dec s w = [] \<and> dec s' w' = []) \<and>
         (rc = MBEDTLS_ERR_SSL_PEER_CLOSE_NOTIFY \<longrightarrow> dec s w = [] \<and> dec s' w' = []))"

definition mbed_contract ::
  "(tlsuv_BIO \<Rightarrow> byte list \<Rightarrow> bool) \<Rightarrow> ('s, 'n) mbed_lib \<Rightarrow> ('s \<Rightarrow> bool) \<Rightarrow> ('s \<Rightarrow> byte list \<Rightarrow> byte list) \<Rightarrow> bool" where
  "mbed_contract fits lib good dec \<longleftrightarrow>
     (\<forall>s. good s \<longrightarrow> ssl_state lib s = SSL_HANDSHAKE_OVER) \<and>
     (\<forall>s w x. good s \<longrightarrow> (\<exists>y. dec s (w @ x) = dec s w @ y)) \<and>
     (\<forall>s. good s \<longrightarrow> \<not> ssl_check_pending lib s \<longrightarrow> dec s [] = []) \<and>
     (\<forall>s n i out r i' out'. good s \<longrightarrow> n > 0 \<longrightarrow> bio_wf i \<longrightarrow> ssl_io fits (ssl_read lib s n) i out = (r, i', out') \<longrightarrow>
        mbed_read_ok good dec n s (bio_pending i) r (bio_pending i')) \<and>
     (\<forall>s data i out rc s' i' out'. good s \<longrightarrow> data \<noteq> [] \<longrightarrow> bio_wf i \<longrightarrow>
        ssl_io fits (ssl_write lib s data) i out = ((rc, s'), i', out') \<longrightarrow> rc \<noteq> 0 \<and> (rc > 0 \<longrightarrow> good s'))"

lemma mbed_contractD:
  assumes "mbed_contract fits lib good dec"
  shows mbed_over: "good s \<Longrightarrow> ssl_state lib s = SSL_HANDSHAKE_OVER"
    and mbed_mono: "good s \<Longrightarrow> \<exists>y. dec s (w @ x) = dec s w @ y"
    and mbed_idle: "good s \<Longrightarrow> \<not> ssl_check_pending lib s \<Longrightarrow> dec s [] = []"
    and mbed_read: "good s \<Longrightarrow> n > 0 \<Longrightarrow> bio_wf i \<Longrightarrow> ssl_io fits (ssl_read lib s n) i out = (r, i', out') \<Longrightarrow>
        mbed_read_ok good dec n s (bio_pending i) r (bio_pending i')"
    and mbed_write: "good s \<Longrightarrow> data \<noteq> [] \<Longrightarrow> bio_wf i \<Longrightarrow>
        ssl_io fits (ssl_write lib s data) i out = ((rc, s'), i', out') \<Longrightarrow> rc \<noteq> 0 \<and> (rc > 0 \<longrightarrow> good s')"
  using assms unfolding mbed_contract_def by (elim conjE; (simp; fail)?; metis)+

section \<open>Lemmas\<close>

lemma mbed_put_wf:
  assumes "memory_ok fits" and "bio_wf bio"
  shows "bio_wf (mbed_put fits bio buf)"
    and "bio_pending (mbed_put fits bio buf) = bio_pending bio @ (if fits bio buf then buf else [])"
proof -
  show "bio_wf (mbed_put fits bio buf)"
  proof (cases "fits bio buf")
    case True
    with assms show ?thesis by (simp add: mbed_put_def bio_put_wf memory_ok_def)
  next
    case False
    with assms show ?thesis by (simp add: mbed_put_def tlsuv_BIO_put_def)
  qed
  show "bio_pending (mbed_put fits bio buf) = bio_pending bio @ (if fits bio buf then buf else [])"
  proof (cases "fits bio buf")
    case True
    with assms show ?thesis by (simp add: mbed_put_def bio_put_pending memory_ok_def)
  next
    case False
    then show ?thesis by (simp add: mbed_put_def tlsuv_BIO_put_def)
  qed
qed

lemma mbed_ssl_recv_wf: "bio_wf bio \<Longrightarrow> bio_wf (snd (mbed_ssl_recv bio n))"
  using bio_read_pending(1) [of bio "of_nat n"]
  by (auto simp: mbed_ssl_recv_def split: prod.splits)

text \<open>The library cannot damage the queues: whatever it receives and sends, they stay well formed.\<close>

lemma ssl_io_wf:
  assumes "memory_ok fits" and "bio_wf i" and "bio_wf out" and "ssl_io fits run i out = (r, i', out')"
  shows "bio_wf i' \<and> bio_wf out'"
  using assms(2-)
proof (induction run arbitrary: i out)
  case (Ssl_Done x)
  then show ?case by simp
next
  case (Ssl_Recv n k)
  obtain x i1 where x: "mbed_ssl_recv i n = (x, i1)" by fastforce
  with mbed_ssl_recv_wf [OF Ssl_Recv.prems(1), of n] have "bio_wf i1" by simp
  with Ssl_Recv.IH [OF rangeI, of i1 out x] Ssl_Recv.prems x show ?case by simp
next
  case (Ssl_Send buf k)
  let ?rc = "to_c_int (of_nat (length buf))"
  have "bio_wf (mbed_put fits out buf)" using mbed_put_wf(1) [OF assms(1) Ssl_Send.prems(2)] .
  with Ssl_Send.IH [OF rangeI, of i "mbed_put fits out buf" ?rc] Ssl_Send.prems show ?case
    by (simp add: mbed_ssl_send_def)
qed

text \<open>The engine in good order, and what it holds.\<close>

definition mbed_ready :: "('s \<Rightarrow> bool) \<Rightarrow> ('s, 'n) mbedtls_engine \<Rightarrow> bool" where
  "mbed_ready good eng \<longleftrightarrow> good (eng_ssl eng) \<and> bio_wf (eng_in eng) \<and> bio_wf (eng_out eng)"

definition mbed_plain :: "('s \<Rightarrow> byte list \<Rightarrow> byte list) \<Rightarrow> ('s, 'n) mbedtls_engine \<Rightarrow> byte list" where
  "mbed_plain dec eng = dec (eng_ssl eng) (bio_pending (eng_in eng))"

definition mbed_more ::
  "(tlsuv_BIO \<Rightarrow> byte list \<Rightarrow> bool) \<Rightarrow> ('s \<Rightarrow> byte list \<Rightarrow> byte list) \<Rightarrow> ('s, 'n) mbedtls_engine \<Rightarrow> byte list \<Rightarrow> byte list" where
  "mbed_more fits dec eng inp =
     drop (length (mbed_plain dec eng))
       (dec (eng_ssl eng) (bio_pending (eng_in eng) @ (if fits (eng_in eng) inp then inp else [])))"

definition mbed_outq :: "('s, 'n) mbedtls_engine \<Rightarrow> byte list" where
  "mbed_outq eng = bio_pending (eng_out eng)"

text \<open>The bytes that a write adds to the output queue.\<close>

definition mbed_enc ::
  "(tlsuv_BIO \<Rightarrow> byte list \<Rightarrow> bool) \<Rightarrow> ('s, 'n) mbed_lib \<Rightarrow> ('s, 'n) mbedtls_engine \<Rightarrow> byte list \<Rightarrow> byte list" where
  "mbed_enc fits lib eng data =
     (case mbed_write_loop fits lib eng data of
        None \<Rightarrow> [] | Some (rc, eng1) \<Rightarrow> drop (length (mbed_outq eng)) (mbed_outq eng1))"

text \<open>The outcome of the read loop, for \<open>room\<close> bytes of buffer.\<close>

definition mbed_loop_ok ::
  "('s \<Rightarrow> bool) \<Rightarrow> ('s \<Rightarrow> byte list \<Rightarrow> byte list) \<Rightarrow> ('s, 'n) mbedtls_engine \<Rightarrow> nat \<Rightarrow> int \<Rightarrow> byte list \<Rightarrow>
     ('s, 'n) mbedtls_engine \<Rightarrow> bool" where
  "mbed_loop_ok good dec eng room rc new eng' \<longleftrightarrow>
     rc \<noteq> 0 \<and> length new \<le> room \<and>
     (rc > 0 \<longrightarrow> mbed_ready good eng' \<and> length new = room \<and> mbed_plain dec eng = new @ mbed_plain dec eng') \<and>
     (\<exists>rest. mbed_plain dec eng = new @ rest) \<and>
     (rc = MBEDTLS_ERR_SSL_WANT_READ \<longrightarrow> mbed_ready good eng' \<and> new = mbed_plain dec eng \<and> mbed_plain dec eng' = []) \<and>
     (rc = MBEDTLS_ERR_SSL_PEER_CLOSE_NOTIFY \<longrightarrow> new = mbed_plain dec eng \<and> mbed_plain dec eng' = [])"

lemma mbed_loop_ok_step:
  assumes "mbed_loop_ok good dec e1 (room - length data) rc new eng'" and "length data \<le> room"
    and "mbed_plain dec eng = data @ mbed_plain dec e1"
  shows "mbed_loop_ok good dec eng room rc (data @ new) eng'"
  using assms by (auto simp: mbed_loop_ok_def)

lemma mbed_read_loop_result:
  assumes "memory_ok fits" and "mbed_contract fits lib good dec" and "mbed_ready good eng" and "room > 0"
  shows "\<exists>rc new eng'. mbed_read_loop fits lib eng room out = Inr (rc, out @ new, eng') \<and>
    mbed_loop_ok good dec eng room rc new eng'"
  using assms(3,4)
proof (induction room arbitrary: eng out rule: less_induct)
  case (less room)
  obtain rc data s i o1 where r: "ssl_io fits (ssl_read lib (eng_ssl eng) room) (eng_in eng) (eng_out eng) =
      ((rc, data, s), i, o1)" by (metis prod.exhaust)
  let ?e = "eng\<lparr>eng_ssl := s, eng_in := i, eng_out := o1\<rparr>"
  have e: "good (eng_ssl eng)" "bio_wf (eng_in eng)" "bio_wf (eng_out eng)"
    using less.prems(1) by (simp_all add: mbed_ready_def)
  have wf: "bio_wf i \<and> bio_wf o1" using ssl_io_wf [OF assms(1) e(2,3) r] .
  have law: "rc \<noteq> 0"
    "rc > 0 \<Longrightarrow> length data = nat rc \<and> nat rc \<le> room \<and> mbed_ready good ?e \<and> mbed_plain dec eng = data @ mbed_plain dec ?e"
    "rc = MBEDTLS_ERR_SSL_WANT_READ \<Longrightarrow> mbed_ready good ?e \<and> mbed_plain dec eng = [] \<and> mbed_plain dec ?e = []"
    "rc = MBEDTLS_ERR_SSL_PEER_CLOSE_NOTIFY \<Longrightarrow> mbed_plain dec eng = [] \<and> mbed_plain dec ?e = []"
    using mbed_read [OF assms(2) e(1) less.prems(2) e(2) r] wf
    by (simp_all add: mbed_ready_def mbed_plain_def mbed_read_ok_def)
  show ?case
  proof (cases "rc > 0 \<and> room - nat rc > 0")
    case False
    then have "mbed_read_loop fits lib eng room out = Inr (rc, out @ (if rc > 0 then data else []), ?e)"
      using r law(2) by (subst mbed_read_loop.simps) (cases "rc > 0"; simp add: Let_def)
    moreover have "mbed_loop_ok good dec eng room rc (if rc > 0 then data else []) ?e"
      using False law by (cases "rc > 0") (auto simp: mbed_loop_ok_def mbed_codes)
    ultimately show ?thesis by blast
  next
    case True
    have eq: "mbed_read_loop fits lib eng room out = mbed_read_loop fits lib ?e (room - nat rc) (out @ data)"
      using r law(2) True by (subst mbed_read_loop.simps) simp
    obtain rc' new e' where n: "mbed_read_loop fits lib ?e (room - nat rc) (out @ data) = Inr (rc', (out @ data) @ new, e')"
      "mbed_loop_ok good dec ?e (room - nat rc) rc' new e'"
      using less.IH [of "room - nat rc" ?e "out @ data"] True law(2) by auto
    have "mbed_loop_ok good dec eng room rc' (data @ new) e'"
      using mbed_loop_ok_step [of good dec ?e room data rc' new e' eng] n(2) law(2) True by simp
    moreover have "mbed_read_loop fits lib eng room out = Inr (rc', out @ (data @ new), e')" using eq n(1) by simp
    ultimately show ?thesis by blast
  qed
qed

text \<open>The write loop, and the output queue it leaves.\<close>

lemma mbed_write_loop_result:
  assumes "memory_ok fits" and "mbed_contract fits lib good dec" and "mbed_ready good eng"
  shows "\<exists>rc eng'. mbed_write_loop fits lib eng data = Some (rc, eng') \<and> rc \<le> 0 \<and> (rc = 0 \<longrightarrow> mbed_ready good eng')"
  using assms(3)
proof (induction "length data" arbitrary: eng data rule: less_induct)
  case less
  show ?case
  proof (cases "data = []")
    case True
    with less.prems show ?thesis by (simp add: mbed_write_loop.simps)
  next
    case False
    obtain rc s i o1 where r: "ssl_io fits (ssl_write lib (eng_ssl eng) data) (eng_in eng) (eng_out eng) =
        ((rc, s), i, o1)" by (metis prod.exhaust)
    let ?e = "eng\<lparr>eng_ssl := s, eng_in := i, eng_out := o1\<rparr>"
    have e: "good (eng_ssl eng)" "bio_wf (eng_in eng)" "bio_wf (eng_out eng)"
      using less.prems by (simp_all add: mbed_ready_def)
    have law: "rc \<noteq> 0" "rc > 0 \<Longrightarrow> mbed_ready good ?e"
      using mbed_write [OF assms(2) e(1) False e(2) r] ssl_io_wf [OF assms(1) e(2,3) r]
      by (simp_all add: mbed_ready_def)
    show ?thesis
    proof (cases "rc < 0")
      case True
      with r False show ?thesis by (simp add: mbed_write_loop.simps)
    next
      case pos: False
      then have "length (drop (nat rc) data) < length data" using law(1) False by simp
      moreover have "mbed_write_loop fits lib eng data = mbed_write_loop fits lib ?e (drop (nat rc) data)"
        using r False pos by (subst mbed_write_loop.simps) simp
      ultimately show ?thesis using less.hyps [of "drop (nat rc) data" ?e] law pos by simp
    qed
  qed
qed

text \<open>What waits for the peer is never taken back or changed by a write: it is only added to.\<close>

lemma ssl_io_out:
  assumes "memory_ok fits" and "bio_wf out" and "ssl_io fits run i out = (r, i', out')"
  shows "bio_wf out' \<and> (\<exists>x. bio_pending out' = bio_pending out @ x)"
  using assms(2-)
proof (induction run arbitrary: i out)
  case (Ssl_Done x)
  then show ?case by simp
next
  case (Ssl_Recv n k)
  obtain x i1 where x: "mbed_ssl_recv i n = (x, i1)" by fastforce
  with Ssl_Recv.IH [OF rangeI, of out x i1] Ssl_Recv.prems show ?case by simp
next
  case (Ssl_Send buf k)
  let ?rc = "to_c_int (of_nat (length buf))"
  note w = mbed_put_wf [OF assms(1) Ssl_Send.prems(1), of buf]
  from Ssl_Send.IH [OF rangeI, OF w(1), of ?rc i] Ssl_Send.prems(2) w(2) show ?case
    by (auto simp: mbed_ssl_send_def)
qed

lemma mbed_write_loop_out:
  assumes "memory_ok fits" and "mbed_write_loop fits lib eng data = Some (rc, eng')" and "bio_wf (eng_out eng)"
  shows "bio_wf (eng_out eng') \<and> (\<exists>x. mbed_outq eng' = mbed_outq eng @ x)"
proof -
  let ?P = "\<lambda>f l e d r. f = fits \<longrightarrow> bio_wf (eng_out e) \<longrightarrow>
      bio_wf (eng_out (snd r)) \<and> (\<exists>x. mbed_outq (snd r) = mbed_outq e @ x)"
  have "?P fits lib eng data (rc, eng')"
  proof (rule mbed_write_loop.raw_induct [where P = ?P, OF _ assms(2)], intro impI, goal_cases)
    case (1 f fs l e d r)
    show ?case
    proof (cases "d = []")
      case True
      with 1(2,4) show ?thesis by (auto simp: mbed_outq_def)
    next
      case False
      obtain rc s i o1 where q: "ssl_io fits (ssl_write l (eng_ssl e) d) (eng_in e) (eng_out e) = ((rc, s), i, o1)"
        by (metis prod.exhaust)
      note w = ssl_io_out [OF assms(1) 1(4) q]
      show ?thesis
      proof (cases "rc < 0")
        case True
        with 1(2,3) False q w show ?thesis by (auto simp: mbed_outq_def)
      next
        case pos: False
        then have "f fs l (e\<lparr>eng_ssl := s, eng_in := i, eng_out := o1\<rparr>) (drop (nat rc) d) = Some r"
          using 1(2,3) False q by simp
        from 1(1) [OF this] 1(3) w show ?thesis by (auto simp: mbed_outq_def)
      qed
    qed
  qed
  with assms(3) show ?thesis by simp
qed

lemma mbed_take_out_result:
  assumes "bio_wf (eng_out eng)" and "n < 2 ^ 31" and "mbed_take_out eng n = (out, eng')"
  shows "out = take n (mbed_outq eng) \<and> mbed_outq eng' = drop n (mbed_outq eng) \<and> bio_wf (eng_out eng') \<and>
    eng_ssl eng' = eng_ssl eng \<and> eng_in eng' = eng_in eng \<and>
    unat (tlsuv_BIO_available (eng_out eng')) = length (mbed_outq eng')"
proof -
  obtain rc o1 where r: "tlsuv_BIO_read (eng_out eng) (of_nat n) = (rc, o1, out)" and e: "eng' = eng\<lparr>eng_out := o1\<rparr>"
    using assms(3) by (auto simp: mbed_take_out_def split: prod.splits)
  have n: "unat (of_nat n :: size_t) = n" using assms(2) by (simp add: unat_of_nat_size_t)
  note l = bio_read_pending [OF assms(1) r, unfolded n]
  then have "unat (available o1) = length (bio_pending o1)" by (simp add: bio_wf_def)
  with l e show ?thesis by (simp add: mbed_outq_def tlsuv_BIO_available_def)
qed

lemma mbed_write_result:
  assumes "memory_ok fits" and "mbed_contract fits lib good dec" and "mbed_ready good eng"
    and "length (mbed_outq eng @ mbed_enc fits lib eng data) < 2 ^ 31" and "n < 2 ^ 31"
    and "mbedtls_write fits lib eng data n = Inr (rc, out, eng')" and "rc \<ge> 0"
  shows "mbed_ready good eng' \<and> out = take n (mbed_outq eng @ mbed_enc fits lib eng data) \<and>
    mbed_outq eng' = drop n (mbed_outq eng @ mbed_enc fits lib eng data) \<and> rc = int (length (mbed_outq eng'))"
proof -
  obtain rc1 e1 where w: "mbed_write_loop fits lib eng data = Some (rc1, e1)" "rc1 \<le> 0" "rc1 = 0 \<longrightarrow> mbed_ready good e1"
    using mbed_write_loop_result [OF assms(1-3)] by blast
  then have z: "rc1 = 0" using assms(6,7) by (auto simp: mbedtls_write_def split: if_splits)
  then obtain t: "mbed_take_out e1 n = (out, eng')" and rc: "rc = to_c_int (tlsuv_BIO_available (eng_out eng'))"
    using assms(6) w(1) by (auto simp: mbedtls_write_def split: prod.splits)
  obtain x where x: "mbed_outq e1 = mbed_outq eng @ x"
    using mbed_write_loop_out [OF assms(1) w(1)] assms(3) by (auto simp: mbed_ready_def)
  then have q: "mbed_outq eng @ mbed_enc fits lib eng data = mbed_outq e1"
    using w(1) by (simp add: mbed_enc_def)
  have r1: "mbed_ready good e1" using w(3) z by simp
  then have "bio_wf (eng_out e1)" by (simp add: mbed_ready_def)
  note l = mbed_take_out_result [OF this assms(5) t]
  moreover have "rc = int (length (mbed_outq eng'))"
    using l rc assms(4) to_c_int_small [of "tlsuv_BIO_available (eng_out eng')"] by (simp add: q)
  ultimately show ?thesis using r1 by (simp add: q mbed_ready_def)
qed

text \<open>What a read gives, by its result code.\<close>

lemma mbed_read_result:
  fixes inp :: "byte list"
  assumes "memory_ok fits" and "mbed_contract fits lib good dec" and "mbed_ready good eng" and "n > 0"
  defines "plaintext \<equiv> mbed_plain dec eng @ mbed_more fits dec eng inp"
  shows "\<exists>rc out eng'. mbedtls_read fits lib eng inp n = Inr (rc, out, eng') \<and> rc \<noteq> TLS_READ_AGAIN \<and>
    length out \<le> n \<and> (\<exists>rest. plaintext = out @ rest) \<and>
    (rc = TLS_OK \<or> rc = TLS_EOF \<longrightarrow> out = plaintext \<and> mbed_plain dec eng' = []) \<and>
    (rc = TLS_MORE_AVAILABLE \<longrightarrow> length out = n \<and> out @ mbed_plain dec eng' = plaintext) \<and>
    (rc \<noteq> TLS_EOF \<longrightarrow> rc \<noteq> TLS_ERR \<longrightarrow> mbed_ready good eng')"
proof -
  let ?e1 = "if inp \<noteq> [] then eng\<lparr>eng_in := mbed_put fits (eng_in eng) inp\<rparr> else eng"
  have e: "good (eng_ssl eng)" "bio_wf (eng_in eng)" "bio_wf (eng_out eng)"
    using assms(3) by (simp_all add: mbed_ready_def)
  note put = mbed_put_wf [OF assms(1) e(2), of inp]
  have r1: "mbed_ready good ?e1" using e put(1) by (simp add: mbed_ready_def)
  have p1: "mbed_plain dec ?e1 = plaintext"
  proof -
    obtain y where "dec (eng_ssl eng) (bio_pending (eng_in eng) @ (if fits (eng_in eng) inp then inp else [])) =
        mbed_plain dec eng @ y"
      using mbed_mono [OF assms(2) e(1)] by (auto simp: mbed_plain_def)
    then have "plaintext = dec (eng_ssl eng) (bio_pending (eng_in eng) @ (if fits (eng_in eng) inp then inp else []))"
      by (simp add: plaintext_def mbed_more_def)
    then show ?thesis using put(2) by (simp add: mbed_plain_def)
  qed
  obtain rc new e2 where l: "mbed_read_loop fits lib ?e1 n [] = Inr (rc, new, e2)"
    and ok: "mbed_loop_ok good dec ?e1 n rc new e2"
    using mbed_read_loop_result [OF assms(1,2) r1 assms(4), of "[]"] by auto
  note ok = ok [unfolded mbed_loop_ok_def p1]
  have idle: "mbed_plain dec e2 = []"
    if "rc > 0" "\<not> tlsuv_BIO_available (eng_in e2) > 0" "\<not> ssl_check_pending lib (eng_ssl e2)"
  proof -
    have g: "good (eng_ssl e2)" "bio_wf (eng_in e2)" using ok that(1) by (simp_all add: mbed_ready_def)
    have "available (eng_in e2) = 0" using that(2) by (simp add: tlsuv_BIO_available_def word_neq_0_conv [symmetric])
    with g(2) have "bio_pending (eng_in e2) = []" by (simp add: bio_wf_def)
    with mbed_idle [OF assms(2) g(1) that(3)] show ?thesis by (simp add: mbed_plain_def)
  qed
  consider "rc = MBEDTLS_ERR_SSL_WANT_READ" | "rc = MBEDTLS_ERR_SSL_PEER_CLOSE_NOTIFY"
    | "rc < 0" "rc \<noteq> MBEDTLS_ERR_SSL_WANT_READ" "rc \<noteq> MBEDTLS_ERR_SSL_PEER_CLOSE_NOTIFY" | "rc > 0"
    using ok by linarith
  then show ?thesis
  proof cases
    case 1
    with l ok show ?thesis by (auto simp: mbedtls_read_def tls_codes)
  next
    case 2
    with l ok show ?thesis by (auto simp: mbedtls_read_def tls_codes mbed_codes)
  next
    case 3
    with l ok show ?thesis by (simp add: mbedtls_read_def tls_codes)
  next
    case 4
    then have "rc \<noteq> MBEDTLS_ERR_SSL_WANT_READ" "rc \<noteq> MBEDTLS_ERR_SSL_PEER_CLOSE_NOTIFY" by (simp_all add: mbed_codes)
    with 4 l ok idle show ?thesis by (simp add: mbedtls_read_def tls_codes)
  qed
qed

section \<open>The engine keeps the contract of the link\<close>

lemma mbed_transport:
  assumes "memory_ok fits" and "mbed_contract fits lib good dec"
  shows "tls_transport (mbedtls_engine_api fits lib) (mbed_ready good) (mbed_plain dec) (mbed_more fits dec)
    mbed_outq (mbed_enc fits lib)"
proof (unfold_locales, goal_cases)
  case (1 e)
  then show ?case
    using mbed_over [OF assms(2)] by (simp add: mbedtls_engine_api_def mbedtls_hs_state_def mbed_ready_def)
next
  case (2 e)
  show ?case by (simp add: mbed_more_def mbed_plain_def)
next
  case (3 e n inp)
  then show ?case using mbed_read_result [OF assms 3, of inp] by (auto simp: mbedtls_engine_api_def)
next
  case (4 e n inp rc out e')
  then show ?case using mbed_read_result [OF assms 4(1,2), of inp] by (auto simp: mbedtls_engine_api_def)
next
  case (5 e n inp rc out e')
  then show ?case using mbed_read_result [OF assms 5(1,2), of inp] by (auto simp: mbedtls_engine_api_def)
next
  case (6 e n inp rc out e')
  then show ?case using mbed_read_result [OF assms 6(1,2), of inp] by (auto simp: mbedtls_engine_api_def)
next
  case (7 e n inp rc out e')
  then show ?case using mbed_read_result [OF assms 7(1,2), of inp] by (auto simp: mbedtls_engine_api_def)
next
  case (8 e data n)
  obtain rc e1 where "mbed_write_loop fits lib e data = Some (rc, e1)"
    using mbed_write_loop_result [OF assms 8] by blast
  then show ?case by (cases "rc < 0") (simp_all add: mbedtls_engine_api_def mbedtls_write_def split: prod.splits)
next
  case (9 e data n rc out e')
  then show ?case
    using mbed_write_result [OF assms 9(1-3) _ 9(5)] by (simp add: mbedtls_engine_api_def)
next
  case (10 e)
  show ?case by (simp add: mbed_enc_def mbed_write_loop.simps)
qed

text \<open>A reset of the library ends its session.\<close>

lemma mbed_handshaking:
  assumes "\<forall>s. ssl_state lib (snd (ssl_session_reset lib s)) \<noteq> SSL_HANDSHAKE_OVER"
  shows "tls_handshaking (mbedtls_engine_api fits lib) (\<lambda>e. True)"
proof (unfold_locales, goal_cases)
  case (1 e inp n st out e')
  then show ?case
    by (auto simp: mbedtls_engine_api_def mbedtls_continue_hs_def mbedtls_hs_state_def Let_def
        split: prod.splits if_splits mbed_state.splits)
next
  case 2
  show ?case by (simp add: mbedtls_engine_api_def)
next
  case (3 e reset)
  then show ?case
    using assms by (auto simp: mbedtls_engine_api_def mbedtls_reset_def mbedtls_hs_state_def split_beta
        split: mbed_state.splits)
qed simp_all

text \<open>
  An implementation of the library that keeps the contract: it sends one byte to open a session, takes
  one for the answer, and then passes the data on unchanged, at most 256 bytes at a time.
\<close>

definition null_lib :: "(mbed_state, unit) mbed_lib" where
  "null_lib =
     \<lparr>ssl_state = (\<lambda>s. s),
      ssl_handshake = (\<lambda>s. case s of
         SSL_HELLO_REQUEST \<Rightarrow> Ssl_Send [22] (\<lambda>_. Ssl_Done (MBEDTLS_ERR_SSL_WANT_READ, SSL_STATE 1))
       | SSL_STATE k \<Rightarrow> Ssl_Recv 1 (\<lambda>(rc, d). Ssl_Done (if rc > 0 then (0, SSL_HANDSHAKE_OVER) else (rc, s)))
       | SSL_HANDSHAKE_OVER \<Rightarrow> Ssl_Done (0, s)),
      ssl_read = (\<lambda>s n. Ssl_Recv (min n 256) (\<lambda>(rc, d). Ssl_Done (rc, d, s))),
      ssl_write = (\<lambda>s d. Ssl_Send (take 256 d) (\<lambda>_. Ssl_Done (int (min (length d) 256), s))),
      ssl_close_notify = (\<lambda>s. Ssl_Done (0, s)),
      ssl_check_pending = (\<lambda>s. False), ssl_get_session = (\<lambda>s. None), ssl_set_session = (\<lambda>s n. s),
      ssl_session_reset = (\<lambda>s. (0, SSL_HELLO_REQUEST)), ssl_get_alpn = (\<lambda>s. None), session_empty = ()\<rparr>"

definition null_good :: "mbed_state \<Rightarrow> bool" where "null_good s \<longleftrightarrow> s = SSL_HANDSHAKE_OVER"

definition null_dec :: "mbed_state \<Rightarrow> byte list \<Rightarrow> byte list" where "null_dec s w = w"

lemma mbed_ssl_recv_result:
  assumes "bio_wf i" and "0 < n" and "n < 2 ^ 31" and "mbed_ssl_recv i n = ((rc, d), i')"
  shows "(rc = MBEDTLS_ERR_SSL_WANT_READ \<and> d = [] \<and> i' = i \<and> bio_pending i = []) \<or>
    (rc = int (length d) \<and> rc > 0 \<and> length d \<le> n \<and> bio_pending i = d @ bio_pending i')"
proof -
  have a: "unat (available i) = length (bio_pending i)" using assms(1) by (simp add: bio_wf_def)
  show ?thesis
  proof (cases "available i = 0")
    case True
    with assms(4) a show ?thesis by (auto simp: mbed_ssl_recv_def tlsuv_BIO_available_def)
  next
    case False
    then have p: "bio_pending i \<noteq> []" using a by (metis list.size(3) unat_eq_zero)
    have r: "tlsuv_BIO_read i (of_nat n) = (rc, i', d)"
      using assms(4) False by (auto simp: mbed_ssl_recv_def tlsuv_BIO_available_def split: prod.splits)
    have n: "unat (of_nat n :: size_t) = n" using assms(3) by (simp add: unat_of_nat_size_t)
    note l = bio_read_pending [OF assms(1) r, unfolded n]
    then show ?thesis using p assms(2,3) by (simp add: append_take_drop_id)
  qed
qed

lemma null_contract: "mbed_contract fits null_lib null_good null_dec"
  unfolding mbed_contract_def
proof (intro conjI allI impI, goal_cases)
  case (4 s n i out r i' out')
  obtain rc d s' where r: "r = (rc, d, s')" by (metis prod.exhaust)
  have "mbed_ssl_recv i (min n 256) = ((rc, d), i')" "s' = s"
    using 4(4) r by (auto simp: null_lib_def split: prod.splits)
  moreover have "min n 256 < (2 ^ 31 :: nat)" by (rule le_less_trans [OF min.cobounded2]) simp
  ultimately show ?case
    using mbed_ssl_recv_result [of i "min n 256" rc d i'] 4(1-3)
    by (auto simp: r mbed_read_ok_def null_dec_def mbed_codes)
next
  case (5 s data i out rc s' i' out')
  then show ?case by (auto simp: null_lib_def mbed_ssl_send_def min_def split: if_splits)
next
  case (6 s data i out rc s' i' out')
  then show ?case by (auto simp: null_lib_def mbed_ssl_send_def)
qed (simp_all add: null_good_def null_dec_def null_lib_def)

text \<open>A memory for small queues.\<close>

definition small_memory :: "tlsuv_BIO \<Rightarrow> byte list \<Rightarrow> bool" where
  "small_memory bio buf \<longleftrightarrow> bio_held bio + length buf \<le> 64"

lemma small_memory_ok: "memory_ok small_memory"
  by (simp add: memory_ok_def small_memory_def bio_room_def bio_held_def)

interpretation mbed: tls_transport "mbedtls_engine_api small_memory null_lib" "mbed_ready null_good" "mbed_plain null_dec"
  "mbed_more small_memory null_dec" mbed_outq "mbed_enc small_memory null_lib"
  by (rule mbed_transport [OF small_memory_ok null_contract])

interpretation mbed_hs: tls_handshaking "mbedtls_engine_api small_memory null_lib" "\<lambda>e. True"
  by (rule mbed_handshaking) (simp add: null_lib_def)

section \<open>Defects\<close>

text \<open>
  A reset leaves what the peer of the last connection sent in the queue, so that the next handshake
  reads it first.
\<close>

lemma reset_keeps_stale_input:
  "bio_pending (eng_in (snd (mbedtls_reset lib eng))) = bio_pending (eng_in eng)"
  by (simp add: mbedtls_reset_def split_beta)

text \<open>When memory for an outgoing record cannot be had, the library is told that the record was sent.\<close>

lemma send_loses_record:
  assumes "\<not> fits out buf" and "length buf < 2 ^ 31"
  shows "mbed_ssl_send fits out buf = (int (length buf), out)"
proof -
  have "unat (of_nat (length buf) :: size_t) = length buf" using assms(2) by (simp add: unat_of_nat_size_t)
  then have "to_c_int (of_nat (length buf)) = int (length buf)"
    using assms(2) to_c_int_small [of "of_nat (length buf)"] by simp
  with assms(1) show ?thesis by (simp add: mbed_ssl_send_def mbed_put_def tlsuv_BIO_put_def)
qed

section \<open>Properties\<close>





text \<open>
  C20. No plain text before the handshake: whatever the peer sends and however the calls interleave, a
  reader of a link with an mbedTLS engine sees data only after the handshake of this connection was
  announced as complete.
\<close>

theorem tls_link_no_early_data:
  assumes "\<forall>s. ssl_state lib (snd (ssl_session_reset lib s)) \<noteq> SSL_HANDSHAKE_OVER"
    and "mbedtls_hs_state lib e \<noteq> TLS_HS_COMPLETE"
    and "link_run (mbedtls_engine_api fits lib) wrc alloc e evs = Inr (e', os)"
  shows "no_early_data False os"
  using tls_handshaking.run_no_early [OF mbed_handshaking [OF assms(1)] _ assms(3), of False] assms(2)
  by (simp add: mbedtls_engine_api_def)

theorem tls_link_no_early_data_witness:
  "\<exists>e' os. link_run (mbedtls_engine_api small_memory null_lib) 0 (\<lambda>k. 8) (new_mbedtls_engine (SSL_STATE 1))
      [Ev_Read 1 [22] 8, Ev_Read 2 [5, 6] 8] = Inr (e', os :: unit link_out list) \<and>
    link_data os = [5, 6] \<and> no_early_data False os"
proof -
  let ?r = "link_run (mbedtls_engine_api small_memory null_lib) 0 (\<lambda>k. 8) (new_mbedtls_engine (SSL_STATE 1))
      [Ev_Read 1 [22] 8, Ev_Read 2 [5, 6] 8] :: ub + (mbed_state, unit) mbedtls_engine \<times> unit link_out list"
  have "case ?r of Inl u \<Rightarrow> False | Inr (e', os) \<Rightarrow> link_data os = [5, 6]" by code_simp
  then obtain e' os where r: "?r = Inr (e', os)" "link_data os = [5, 6]" by (cases ?r) auto
  have "no_early_data False os"
    by (rule tls_link_no_early_data [OF _ _ r(1)])
       (simp_all add: null_lib_def mbedtls_hs_state_def new_mbedtls_engine_def)
  with r show ?thesis by blast
qed

end
