(* ===== verification/Tcp_Src.thy ===== *)
theory Tcp_Src
  imports Prelude
begin

text \<open>
  The TCP connection source of \<open>src/tcp_src.c\<close>: it resolves a name, connects and hands the connection
  to a link. Requests and handles that libuv owns are known by numbers and kept in the state next to
  the fields of \<open>tcp_src_t\<close>: name resolutions and connects under way, each with the flag whether its
  \<open>data\<close> pointer is still set, handles being closed with what their close callback does, and handles
  that are closed but not freed. Closing a handle twice, which libuv refuses with an abort, is an
  undefined-behaviour value.
\<close>

section \<open>Data\<close>

text \<open>
  What a close callback does: free the handle, run \<open>link_close_cb\<close> of this file, or run the callback of
  a client that closed the whole chain of links.
\<close>

datatype close_kind = Free_Handle | Link_Closed | Chain_Closed

record tcp_src =
  src_link :: bool
  src_conn :: "nat option"
  src_conn_req :: "nat option"
  src_resolve_req :: "nat option"
  src_keepalive :: nat
  src_nodelay :: int
  uv_next :: nat
  uv_resolves :: "(nat \<times> bool) list"
  uv_connects :: "(nat \<times> nat \<times> bool) list"
  uv_closing :: "(nat \<times> close_kind) list"
  uv_closed :: "nat list"

datatype src_out =
    Src_Connect_Cb int
  | Src_Set_Nodelay nat int
  | Src_Set_Keepalive nat bool nat
  | Src_Free nat

section \<open>Operations\<close>

definition tcp_src_init :: tcp_src where
  "tcp_src_init =
     \<lparr>src_link = True, src_conn = None, src_conn_req = None, src_resolve_req = None, src_keepalive = 0,
      src_nodelay = 0, uv_next = 0, uv_resolves = [], uv_connects = [], uv_closing = [], uv_closed = []\<rparr>"

definition tcp_src_free :: "tcp_src \<Rightarrow> tcp_src" where
  "tcp_src_free s = s\<lparr>src_link := False\<rparr>"

text \<open>\<open>rc\<close> is what libuv returns for the option of the socket.\<close>

definition tcp_src_nodelay :: "int \<Rightarrow> tcp_src \<Rightarrow> int \<Rightarrow> int \<times> tcp_src \<times> src_out list" where
  "tcp_src_nodelay rc s val =
     (let s1 = s\<lparr>src_nodelay := val\<rparr>
      in case src_conn s1 of None \<Rightarrow> (0, s1, []) | Some h \<Rightarrow> (rc, s1, [Src_Set_Nodelay h val]))"

definition tcp_src_keepalive :: "int \<Rightarrow> tcp_src \<Rightarrow> bool \<Rightarrow> nat \<Rightarrow> int \<times> tcp_src \<times> src_out list" where
  "tcp_src_keepalive rc s on val =
     (let s1 = s\<lparr>src_keepalive := (if on then val else 0)\<rparr>
      in case src_conn s1 of None \<Rightarrow> (0, s1, []) | Some h \<Rightarrow> (rc, s1, [Src_Set_Keepalive h on val]))"

definition uv_is_closing :: "tcp_src \<Rightarrow> nat \<Rightarrow> bool" where
  "uv_is_closing s h \<longleftrightarrow> h \<in> fst ` set (uv_closing s) \<or> h \<in> set (uv_closed s)"

definition uv_close :: "tcp_src \<Rightarrow> nat \<Rightarrow> close_kind \<Rightarrow> ub + tcp_src" where
  "uv_close s h k =
     (if uv_is_closing s h then Inl Bad_Pointer else Inr (s\<lparr>uv_closing := uv_closing s @ [(h, k)]\<rparr>))"

text \<open>\<open>rc\<close> is the result of \<open>uv_getaddrinfo\<close>. A connection that is left from before is closed first.\<close>

definition tcp_src_connect :: "int \<Rightarrow> tcp_src \<Rightarrow> ub + int \<times> tcp_src \<times> src_out list" where
  "tcp_src_connect rc s =
     ub_bind (case src_conn s of
                None \<Rightarrow> Inr s
              | Some h \<Rightarrow> if \<not> uv_is_closing s h then uv_close s h Link_Closed else Inr (s\<lparr>src_conn := None\<rparr>))
       (\<lambda>s1.
          if rc \<noteq> 0 then Inr (rc, s1\<lparr>src_resolve_req := None\<rparr>, [])
          else Inr (rc, s1\<lparr>src_resolve_req := Some (uv_next s1), uv_next := uv_next s1 + 1,
                           uv_resolves := uv_resolves s1 @ [(uv_next s1, True)]\<rparr>, []))"

text \<open>
  The end of a resolution with \<open>st\<close>; \<open>irc\<close> and \<open>crc\<close> are the results of \<open>uv_tcp_init_ex\<close> and
  \<open>uv_tcp_connect\<close>. A request whose \<open>data\<close> is null was cancelled.
\<close>

definition resolve_live :: "int \<Rightarrow> int \<Rightarrow> int \<Rightarrow> tcp_src \<Rightarrow> ub + tcp_src \<times> src_out list" where
  "resolve_live st irc crc s =
     (if st \<noteq> 0 then Inr (s\<lparr>src_conn_req := None, src_resolve_req := None\<rparr>, [Src_Connect_Cb st])
      else
        (let h = uv_next s; s1 = s\<lparr>uv_next := h + 1\<rparr>
         in if irc \<noteq> 0 then
              (case src_conn_req s1 of
                 None \<Rightarrow> Inr (s1\<lparr>src_resolve_req := None\<rparr>, [Src_Connect_Cb irc])
               | Some c \<Rightarrow> ub_bind (uv_close s1 h Free_Handle) (\<lambda>s2.
                   Inr (s2\<lparr>src_conn_req := None, src_resolve_req := None\<rparr>, [Src_Connect_Cb irc])))
            else
              (let c = uv_next s1; s2 = s1\<lparr>uv_next := c + 1\<rparr>
               in if crc \<noteq> 0 then
                    ub_bind (uv_close s2 h Free_Handle) (\<lambda>s3.
                      Inr (s3\<lparr>src_conn_req := None, src_resolve_req := None\<rparr>, [Src_Connect_Cb crc]))
                  else Inr (s2\<lparr>src_conn_req := Some c, uv_connects := uv_connects s2 @ [(c, h, True)],
                               src_resolve_req := None\<rparr>, []))))"

definition resolve_cb :: "nat \<Rightarrow> int \<Rightarrow> int \<Rightarrow> int \<Rightarrow> tcp_src \<Rightarrow> ub + tcp_src \<times> src_out list" where
  "resolve_cb r st irc crc s =
     (let live = (r, True) \<in> set (uv_resolves s);
          s1 = s\<lparr>uv_resolves := filter (\<lambda>(x, d). x \<noteq> r) (uv_resolves s)\<rparr>
      in if live then resolve_live st irc crc s1 else Inr (s1, []))"

text \<open>The end of a connect with \<open>st\<close> on the handle \<open>h\<close>.\<close>

definition tcp_connect_cb :: "nat \<Rightarrow> nat \<Rightarrow> int \<Rightarrow> tcp_src \<Rightarrow> ub + tcp_src \<times> src_out list" where
  "tcp_connect_cb c h st s =
     (let live = (c, h, True) \<in> set (uv_connects s);
          s1 = s\<lparr>uv_connects := filter (\<lambda>(x, y, d). x \<noteq> c) (uv_connects s)\<rparr>
      in if \<not> live then
           (if \<not> uv_is_closing s1 h then ub_bind (uv_close s1 h Free_Handle) (\<lambda>s2. Inr (s2, [])) else Inr (s1, []))
         else
           (let s2 = s1\<lparr>src_conn_req := None\<rparr>
            in if st = UV_ECANCELED then ub_bind (uv_close s2 h Free_Handle) (\<lambda>s3. Inr (s3, []))
               else if st = 0 then
                 (if \<not> src_link s2 then Inl Null_Deref
                  else Inr (s2\<lparr>src_conn := Some h\<rparr>,
                       [Src_Set_Nodelay h 1, Src_Set_Keepalive h (src_keepalive s2 > 0) (src_keepalive s2),
                       Src_Connect_Cb st]))
               else ub_bind (uv_close (s2\<lparr>src_conn := None\<rparr>) h Free_Handle) (\<lambda>s3. Inr (s3, [Src_Connect_Cb st]))))"

text \<open>The close callback of a handle.\<close>

definition src_link_close_cb :: "tcp_src \<Rightarrow> tcp_src \<times> src_out list" where
  "src_link_close_cb s =
     (case src_conn s of None \<Rightarrow> (s, []) | Some h \<Rightarrow> (s\<lparr>src_conn := None\<rparr>, [Src_Free h]))"

definition uv_closed_cb :: "nat \<Rightarrow> close_kind \<Rightarrow> tcp_src \<Rightarrow> tcp_src \<times> src_out list" where
  "uv_closed_cb h k s =
     (let s1 = s\<lparr>uv_closing := filter (\<lambda>(x, y). x \<noteq> h) (uv_closing s)\<rparr>
      in case k of
           Free_Handle \<Rightarrow> (s1, [Src_Free h])
         | Link_Closed \<Rightarrow> src_link_close_cb s1
         | Chain_Closed \<Rightarrow> (s1\<lparr>uv_closed := h # uv_closed s1\<rparr>, []))"

text \<open>Cancelling: the callbacks of what is under way find a null \<open>data\<close> pointer, the handle is closed.\<close>

definition tcp_src_cancel :: "tcp_src \<Rightarrow> ub + tcp_src" where
  "tcp_src_cancel s =
     (let s1 = (case src_resolve_req s of
                  None \<Rightarrow> s
                | Some r \<Rightarrow> s\<lparr>uv_resolves := map (\<lambda>(x, d). (x, d \<and> x \<noteq> r)) (uv_resolves s), src_resolve_req := None\<rparr>)
      in ub_bind
           (case src_conn_req s1 of
              None \<Rightarrow> Inr s1
            | Some c \<Rightarrow>
                (case find (\<lambda>(x, y, d). x = c) (uv_connects s1) of
                   None \<Rightarrow> Inl Bad_Pointer
                 | Some (x, h, d) \<Rightarrow>
                     ub_bind (uv_close s1 h Free_Handle) (\<lambda>s2.
                       Inr (s2\<lparr>uv_connects := map (\<lambda>(x, y, d). (x, y, d \<and> x \<noteq> c)) (uv_connects s2),
                               src_conn_req := None\<rparr>))))
           (\<lambda>s3. case src_conn s3 of
                    None \<Rightarrow> Inr s3
                  | Some h \<Rightarrow> if \<not> uv_is_closing s3 h then uv_close s3 h Link_Closed else Inr s3))"

text \<open>Releasing frees the memory of the connection.\<close>

definition tcp_src_release :: "tcp_src \<Rightarrow> tcp_src \<times> src_out list" where
  "tcp_src_release s =
     (case src_conn s of
        None \<Rightarrow> (s, [])
      | Some h \<Rightarrow> (s\<lparr>src_conn := None, uv_closed := filter (\<lambda>x. x \<noteq> h) (uv_closed s)\<rparr>, [Src_Free h]))"

section \<open>Runs\<close>

text \<open>
  What happens to a source: calls of its client, the close of the whole chain by a client, and the
  callbacks of libuv.
\<close>

datatype src_action =
    Src_Connect int
  | Src_Cancel
  | Src_Release
  | Src_Chain_Close
  | Uv_Resolved nat int int int
  | Uv_Connected nat nat int
  | Uv_Closed nat close_kind

definition src_step :: "tcp_src \<Rightarrow> src_action \<Rightarrow> ub + tcp_src \<times> src_out list" where
  "src_step s a =
     (case a of
        Src_Connect rc \<Rightarrow> ub_bind (tcp_src_connect rc s) (\<lambda>(r, s1, os). Inr (s1, os))
      | Src_Cancel \<Rightarrow> ub_bind (tcp_src_cancel s) (\<lambda>s1. Inr (s1, []))
      | Src_Release \<Rightarrow> Inr (tcp_src_release s)
      | Src_Chain_Close \<Rightarrow>
          (case src_conn s of
             None \<Rightarrow> Inr (s, []) | Some h \<Rightarrow> ub_bind (uv_close s h Chain_Closed) (\<lambda>s1. Inr (s1, [])))
      | Uv_Resolved r st irc crc \<Rightarrow> resolve_cb r st irc crc s
      | Uv_Connected c h st \<Rightarrow> tcp_connect_cb c h st s
      | Uv_Closed h k \<Rightarrow> Inr (uv_closed_cb h k s))"

definition src_pending :: "tcp_src \<Rightarrow> bool" where
  "src_pending s \<longleftrightarrow> src_resolve_req s \<noteq> None \<or> src_conn_req s \<noteq> None"

text \<open>
  When an action can happen. The client starts an attempt when none is under way and releases a
  connection after its chain was closed. libuv calls back what it holds; it runs the close callbacks
  before it polls again, reports a cancelled connect only for a handle that is being closed, and does
  so before the close callback of that handle.
\<close>

definition src_enabled :: "tcp_src \<Rightarrow> src_action \<Rightarrow> bool" where
  "src_enabled s a =
     (case a of
        Src_Connect rc \<Rightarrow> \<not> src_pending s
      | Src_Cancel \<Rightarrow> True
      | Src_Release \<Rightarrow> (case src_conn s of None \<Rightarrow> True | Some h \<Rightarrow> h \<in> set (uv_closed s))
      | Src_Chain_Close \<Rightarrow> (case src_conn s of None \<Rightarrow> True | Some h \<Rightarrow> \<not> uv_is_closing s h)
      | Uv_Resolved r st irc crc \<Rightarrow> r \<in> fst ` set (uv_resolves s) \<and> uv_closing s = []
      | Uv_Connected c h st \<Rightarrow>
          ((c, h, True) \<in> set (uv_connects s) \<and> uv_closing s = [] \<and> st \<noteq> UV_ECANCELED) \<or>
          (c, h, False) \<in> set (uv_connects s)
      | Uv_Closed h k \<Rightarrow> (h, k) \<in> set (uv_closing s) \<and> (\<forall>(c, h', d) \<in> set (uv_connects s). h' \<noteq> h))"

inductive src_trace :: "tcp_src \<Rightarrow> (src_action \<times> src_out list) list \<Rightarrow> tcp_src \<Rightarrow> bool" where
  src_nil: "src_trace s [] s"
| src_snoc: "src_trace s tr s1 \<Longrightarrow> src_enabled s1 a \<Longrightarrow> src_step s1 a = Inr (s2, os) \<Longrightarrow>
    src_trace s (tr @ [(a, os)]) s2"

section \<open>Invariant\<close>

text \<open>
  Numbers are fresh; at most one attempt is under way, and its request is the only one with a \<open>data\<close>
  pointer; a cancelled connect has its handle in closing; the handle of a connection is freed by
  nobody else.
\<close>

definition src_fresh :: "tcp_src \<Rightarrow> bool" where
  "src_fresh s \<longleftrightarrow>
     (\<forall>r d. (r, d) \<in> set (uv_resolves s) \<longrightarrow> r < uv_next s) \<and>
     (\<forall>c h d. (c, h, d) \<in> set (uv_connects s) \<longrightarrow> c < uv_next s \<and> h < uv_next s) \<and>
     (\<forall>h k. (h, k) \<in> set (uv_closing s) \<longrightarrow> h < uv_next s) \<and>
     (\<forall>h. h \<in> set (uv_closed s) \<longrightarrow> h < uv_next s) \<and> (\<forall>h. src_conn s = Some h \<longrightarrow> h < uv_next s)"

definition src_unique :: "tcp_src \<Rightarrow> bool" where
  "src_unique s \<longleftrightarrow>
     (\<forall>c h d c' d'. (c, h, d) \<in> set (uv_connects s) \<longrightarrow> (c', h, d') \<in> set (uv_connects s) \<longrightarrow> c = c' \<and> d = d') \<and>
     (\<forall>c h d h' d'. (c, h, d) \<in> set (uv_connects s) \<longrightarrow> (c, h', d') \<in> set (uv_connects s) \<longrightarrow> h = h' \<and> d = d') \<and>
     (\<forall>h k k'. (h, k) \<in> set (uv_closing s) \<longrightarrow> (h, k') \<in> set (uv_closing s) \<longrightarrow> k = k') \<and>
     (\<forall>h k. (h, k) \<in> set (uv_closing s) \<longrightarrow> h \<notin> set (uv_closed s))"

definition src_live :: "tcp_src \<Rightarrow> bool" where
  "src_live s \<longleftrightarrow>
     (\<forall>r. (r, True) \<in> set (uv_resolves s) \<longleftrightarrow> src_resolve_req s = Some r) \<and>
     (\<forall>c. (\<exists>h. (c, h, True) \<in> set (uv_connects s)) \<longleftrightarrow> src_conn_req s = Some c) \<and>
     (src_resolve_req s = None \<or> src_conn_req s = None)"

definition src_handles :: "tcp_src \<Rightarrow> bool" where
  "src_handles s \<longleftrightarrow>
     (\<forall>c h. (c, h, True) \<in> set (uv_connects s) \<longrightarrow> \<not> uv_is_closing s h) \<and>
     (\<forall>c h. (c, h, False) \<in> set (uv_connects s) \<longrightarrow> (h, Free_Handle) \<in> set (uv_closing s)) \<and>
     (\<forall>h k. (h, k) \<in> set (uv_closing s) \<longrightarrow> k \<noteq> Free_Handle \<longrightarrow> src_conn s = None \<or> src_conn s = Some h) \<and>
     (\<forall>h. src_conn s = Some h \<longrightarrow> (h, Free_Handle) \<notin> set (uv_closing s) \<and>
        (\<forall>c d. (c, h, d) \<notin> set (uv_connects s)))"

definition src_inv :: "tcp_src \<Rightarrow> bool" where
  "src_inv s \<longleftrightarrow> src_link s \<and> src_fresh s \<and> src_unique s \<and> src_live s \<and> src_handles s"

lemma uv_is_closing_iff: "uv_is_closing s h \<longleftrightarrow> (\<exists>k. (h, k) \<in> set (uv_closing s)) \<or> h \<in> set (uv_closed s)"
  by (force simp: uv_is_closing_def)

lemmas src_parts = src_fresh_def src_unique_def src_live_def src_handles_def uv_is_closing_iff

lemma src_unique_frame [simp]:
  "src_unique (s\<lparr>src_conn := x\<rparr>) = src_unique s" "src_unique (s\<lparr>src_conn_req := x\<rparr>) = src_unique s"
  "src_unique (s\<lparr>src_resolve_req := x\<rparr>) = src_unique s" "src_unique (s\<lparr>uv_next := n\<rparr>) = src_unique s"
  "src_unique (s\<lparr>uv_resolves := rs\<rparr>) = src_unique s"
  by (simp_all add: src_unique_def)

lemma src_live_frame [simp]:
  "src_live (s\<lparr>src_conn := x\<rparr>) = src_live s" "src_live (s\<lparr>uv_next := n\<rparr>) = src_live s"
  "src_live (s\<lparr>uv_closing := cs\<rparr>) = src_live s" "src_live (s\<lparr>uv_closed := hs\<rparr>) = src_live s"
  by (simp_all add: src_live_def)

lemma src_inv_init: "src_inv tcp_src_init"
  by (simp add: src_inv_def src_parts tcp_src_init_def)

lemma src_inv_close:
  assumes "src_inv s" and "\<not> uv_is_closing s h" and "h < uv_next s" and "src_conn s \<noteq> Some h \<or> k \<noteq> Free_Handle"
    and "k \<noteq> Free_Handle \<Longrightarrow> src_conn s = Some h" and "\<forall>c d. (c, h, d) \<notin> set (uv_connects s)"
  shows "src_inv (s\<lparr>uv_closing := uv_closing s @ [(h, k)]\<rparr>)"
proof -
  let ?s = "s\<lparr>uv_closing := uv_closing s @ [(h, k)]\<rparr>"
  note i = assms(1) [unfolded src_inv_def]
  have "src_fresh ?s" using i assms(3) by (auto simp: src_fresh_def)
  moreover have "src_unique ?s"
    using i assms(2) unfolding src_unique_def uv_is_closing_iff by (auto; blast)
  moreover have "src_live ?s" using i by (simp add: src_live_def)
  moreover have "src_handles ?s"
    using i assms(4-) unfolding src_handles_def uv_is_closing_iff by auto
  ultimately show ?thesis using i by (simp add: src_inv_def)
qed

lemma src_inv_conn_none: "src_inv s \<Longrightarrow> src_inv (s\<lparr>src_conn := None\<rparr>)"
  unfolding src_inv_def by (auto simp: src_parts)

lemma src_inv_add_connect:
  assumes "src_inv s" and "uv_next s \<le> h" and "h < c" and "src_resolve_req s = None" and "src_conn_req s = None"
    and "uv_closing s = []"
  shows "src_inv (s\<lparr>uv_next := c + 1, src_conn_req := Some c, uv_connects := uv_connects s @ [(c, h, True)]\<rparr>)"
proof -
  let ?s = "s\<lparr>uv_next := c + 1, src_conn_req := Some c, uv_connects := uv_connects s @ [(c, h, True)]\<rparr>"
  note i = assms(1) [unfolded src_inv_def]
  have lt: "(c', h', d') \<in> set (uv_connects s) \<Longrightarrow> c' < uv_next s \<and> h' < uv_next s" for c' h' d'
    using i unfolding src_fresh_def by blast
  have old: "(c', h, d') \<notin> set (uv_connects s)" "(c, h', d') \<notin> set (uv_connects s)" for c' d' h'
    using lt [of c' h d'] lt [of c h' d'] assms(2,3) by auto
  have le: "x < uv_next s \<Longrightarrow> x < c + 1" for x using assms(2,3) by simp
  have "src_fresh ?s" using i assms(3) le unfolding src_fresh_def by simp
  moreover have "src_unique ?s" using i old unfolding src_unique_def by simp
  moreover have "src_live ?s"
    using i assms(4,5) unfolding src_live_def by auto
  moreover have "src_handles ?s"
  proof -
    have f: "h' \<noteq> h" if "h' \<in> set (uv_closed s) \<or> src_conn s = Some h'" for h'
      using i that assms(2) unfolding src_fresh_def by (metis not_le)
    have "\<not> uv_is_closing s h" using f assms(6) by (auto simp: uv_is_closing_iff)
    with i f show ?thesis unfolding src_handles_def uv_is_closing_iff by simp
  qed
  ultimately show ?thesis using i by (simp add: src_inv_def)
qed

lemma src_start_inv:
  assumes "src_inv s" and "\<not> src_pending s" and "tcp_src_connect rc s = Inr (r, s', os)"
  shows "src_inv s'"
proof -
  have p: "src_resolve_req s = None" "src_conn_req s = None" using assms(2) by (simp_all add: src_pending_def)
  obtain s1 where s1: "src_inv s1" "src_resolve_req s1 = None" "src_conn_req s1 = None"
    and s': "s' = (if rc \<noteq> 0 then s1\<lparr>src_resolve_req := None\<rparr>
      else s1\<lparr>src_resolve_req := Some (uv_next s1), uv_next := uv_next s1 + 1,
                           uv_resolves := uv_resolves s1 @ [(uv_next s1, True)]\<rparr>)"
  proof (cases "src_conn s")
    case None
    then show ?thesis using that [of s] assms(1,3) p by (simp add: tcp_src_connect_def split: if_splits)
  next
    case (Some h)
    show ?thesis
    proof (cases "uv_is_closing s h")
      case True
      let ?s = "s\<lparr>src_conn := None\<rparr>"
      have "src_inv ?s" using assms(1) unfolding src_inv_def by (intro conjI) (auto simp: src_parts)
      then show ?thesis using that [of ?s] assms(3) p Some True by (simp add: tcp_src_connect_def split: if_splits)
    next
      case False
      let ?s = "s\<lparr>uv_closing := uv_closing s @ [(h, Link_Closed)]\<rparr>"
      note i = assms(1) [unfolded src_inv_def]
      have "src_fresh ?s" using i Some by (auto simp: src_fresh_def)
      moreover have "src_unique ?s"
        using i False unfolding src_unique_def uv_is_closing_iff by (auto; blast)
      moreover have "src_live ?s" using i by (simp add: src_live_def)
      moreover have "src_handles ?s"
        using i Some unfolding src_handles_def uv_is_closing_iff by auto
      ultimately have "src_inv ?s" using i by (simp add: src_inv_def)
      then show ?thesis
        using that [of ?s] assms(3) p Some False by (simp add: tcp_src_connect_def uv_close_def split: if_splits)
    qed
  qed
  show ?thesis
  proof (cases "rc = 0")
    case True
    note i = s1(1) [unfolded src_inv_def]
    have "src_fresh s'" using i s' True by (auto simp: src_fresh_def less_Suc_eq)
    moreover have "src_unique s'" using i s' True by (simp add: src_unique_def)
    moreover have "src_live s'" using i s1(2,3) s' True by (auto simp: src_live_def)
    moreover have "src_handles s'" using i s' True by (simp add: src_handles_def uv_is_closing_def)
    ultimately show ?thesis using i s' True by (simp add: src_inv_def)
  next
    case False
    with s1 s' show ?thesis by (simp add: src_inv_def src_parts)
  qed
qed

text \<open>A resolution that ends: the request is gone, and an attempt goes on or has been answered.\<close>

lemma resolved_inv:
  assumes "src_inv s" and "(r, True) \<in> set (uv_resolves s)"
  shows "src_resolve_req s = Some r" and "src_conn_req s = None"
    and "src_inv (s\<lparr>uv_resolves := filter (\<lambda>(x, d). x \<noteq> r) (uv_resolves s), src_resolve_req := None\<rparr>)"
proof -
  note i = assms(1) [unfolded src_inv_def]
  show req: "src_resolve_req s = Some r" "src_conn_req s = None" using i assms(2) by (auto simp: src_live_def)
  show "src_inv (s\<lparr>uv_resolves := filter (\<lambda>(x, d). x \<noteq> r) (uv_resolves s), src_resolve_req := None\<rparr>)"
    using i req unfolding src_inv_def by (intro conjI) (auto simp: src_parts)
qed

lemma resolve_live_inv:
  assumes "src_inv s" and "(r, True) \<in> set (uv_resolves s)" and "uv_closing s = []"
  shows "\<exists>s' os. resolve_cb r st irc crc s = Inr (s', os) \<and> src_inv s'"
proof -
  let ?s = "s\<lparr>uv_resolves := filter (\<lambda>(x, d). x \<noteq> r) (uv_resolves s), src_resolve_req := None\<rparr>"
  let ?h = "uv_next s"
  note i = assms(1) [unfolded src_inv_def]
  note req = resolved_inv(1,2) [OF assms(1,2)] and inv = resolved_inv(3) [OF assms(1,2)]
  have up: "src_inv (?s\<lparr>uv_next := ?h + 1\<rparr>)" "src_inv (?s\<lparr>uv_next := ?h + 2\<rparr>)"
    using inv unfolding src_inv_def by (auto simp: src_parts less_SucI)
  have new: "\<not> uv_is_closing s ?h" using i by (auto simp: src_fresh_def uv_is_closing_iff)
  consider (failed) "st \<noteq> 0" | (no_handle) "st = 0" "irc \<noteq> 0" | (refused) "st = 0" "irc = 0" "crc \<noteq> 0"
    | (connecting) "st = 0" "irc = 0" "crc = 0" by blast
  then show ?thesis
  proof cases
    case failed
    have "src_inv (s\<lparr>uv_resolves := filter (\<lambda>(x, d). x \<noteq> r) (uv_resolves s), src_conn_req := None, src_resolve_req := None\<rparr>)"
      using inv req(2) by (cases s) simp
    with failed assms(2) req show ?thesis by (simp add: resolve_cb_def resolve_live_def Let_def)
  next
    case no_handle
    have "src_inv (s\<lparr>uv_resolves := filter (\<lambda>(x, d). x \<noteq> r) (uv_resolves s), uv_next := Suc ?h, src_resolve_req := None\<rparr>)"
      using up(1) by (cases s) simp
    with no_handle assms(2) req show ?thesis by (simp add: resolve_cb_def resolve_live_def Let_def)
  next
    case refused
    have "\<forall>c d. (c, ?h, d) \<notin> set (uv_connects s)" "src_conn s \<noteq> Some ?h" using i unfolding src_fresh_def by blast+
    with src_inv_close [OF up(2), of ?h Free_Handle] new
    have "src_inv (?s\<lparr>uv_next := ?h + 2, uv_closing := uv_closing s @ [(?h, Free_Handle)]\<rparr>)" (is "src_inv ?t")
      by (simp add: uv_is_closing_iff)
    moreover have "resolve_cb r st irc crc s = Inr (?t, [Src_Connect_Cb crc])"
      using refused assms(2) req new by (simp add: resolve_cb_def resolve_live_def Let_def uv_close_def uv_is_closing_def)
    ultimately show ?thesis by blast
  next
    case connecting
    let ?t = "?s\<lparr>uv_next := ?h + 2, src_conn_req := Some (?h + 1), uv_connects := uv_connects s @ [(?h + 1, ?h, True)]\<rparr>"
    have "src_inv ?t" using src_inv_add_connect [OF inv, of ?h "?h + 1"] req assms(3) by simp
    moreover have "resolve_cb r st irc crc s = Inr (?t, [])"
      using connecting assms(2) req by (simp add: resolve_cb_def resolve_live_def Let_def)
    ultimately show ?thesis by blast
  qed
qed

lemma resolve_cb_inv:
  assumes "src_inv s" and "r \<in> fst ` set (uv_resolves s)" and "uv_closing s = []"
  shows "\<exists>s' os. resolve_cb r st irc crc s = Inr (s', os) \<and> src_inv s'"
proof (cases "(r, True) \<in> set (uv_resolves s)")
  case False
  have "src_inv (s\<lparr>uv_resolves := filter (\<lambda>(x, d). x \<noteq> r) (uv_resolves s)\<rparr>)"
    using assms(1) [unfolded src_inv_def] False unfolding src_inv_def by (intro conjI) (auto simp: src_parts)
  with False show ?thesis by (simp add: resolve_cb_def)
next
  case True
  with assms(1,3) show ?thesis by (intro resolve_live_inv)
qed

text \<open>A connect that ends.\<close>

lemma src_inv_drop_connect:
  assumes "src_inv s" and "(c, h, d) \<in> set (uv_connects s)"
  shows "src_inv (s\<lparr>uv_connects := filter (\<lambda>(x, y, d). x \<noteq> c) (uv_connects s),
    src_conn_req := (if d then None else src_conn_req s)\<rparr>)"
proof -
  let ?s = "s\<lparr>uv_connects := filter (\<lambda>(x, y, d). x \<noteq> c) (uv_connects s),
      src_conn_req := (if d then None else src_conn_req s)\<rparr>"
  note i = assms(1) [unfolded src_inv_def]
  have "src_fresh ?s" using i unfolding src_fresh_def by simp blast
  moreover have "src_unique ?s" using i unfolding src_unique_def by simp blast
  moreover have "src_live ?s"
  proof -
    have l: "(\<exists>h. (c', h, True) \<in> set (uv_connects s)) \<longleftrightarrow> src_conn_req s = Some c'" for c'
      using i by (auto simp: src_live_def)
    have u: "d' = d" if "(c, h', d') \<in> set (uv_connects s)" for h' d'
      using i assms(2) that unfolding src_unique_def by blast
    show ?thesis
    proof (cases d)
      case True
      with assms(2) have "\<exists>h. (c, h, True) \<in> set (uv_connects s)" by (cases d) auto
      then have rq: "src_conn_req s = Some c" using l [of c] by simp
      have "c' = c" if "(c', h', True) \<in> set (uv_connects s)" for c' h'
      proof -
        have "src_conn_req s = Some c'" using l [of c'] that by blast
        with rq show ?thesis by simp
      qed
      then have "(c', h', True) \<notin> set (uv_connects ?s)" for c' h' by auto
      moreover have "\<forall>r. (r, True) \<in> set (uv_resolves s) \<longleftrightarrow> src_resolve_req s = Some r"
        using i unfolding src_live_def by blast
      ultimately show ?thesis using True unfolding src_live_def by auto
    next
      case False
      then have "\<not> (\<exists>h. (c, h, True) \<in> set (uv_connects s))" using u by blast
      then have "src_conn_req s \<noteq> Some c" using l [of c] by simp
      then have "(\<exists>h. (c', h, True) \<in> set (uv_connects ?s)) \<longleftrightarrow> src_conn_req s = Some c'" for c'
        using l [of c'] by auto
      then show ?thesis using i False unfolding src_live_def by simp
    qed
  qed
  moreover have "src_handles ?s" using i unfolding src_handles_def uv_is_closing_iff by simp blast
  ultimately show ?thesis using i by (simp add: src_inv_def)
qed

lemma connect_cb_inv:
  assumes "src_inv s" and "src_enabled s (Uv_Connected c h st)"
  shows "\<exists>s' os. tcp_connect_cb c h st s = Inr (s', os) \<and> src_inv s'"
proof (cases "(c, h, True) \<in> set (uv_connects s)")
  case False
  then have d: "(c, h, False) \<in> set (uv_connects s)" using assms(2) by (simp add: src_enabled_def)
  let ?s = "s\<lparr>uv_connects := filter (\<lambda>(x, y, d). x \<noteq> c) (uv_connects s)\<rparr>"
  have "(h, Free_Handle) \<in> set (uv_closing s)" using assms(1) d unfolding src_inv_def src_handles_def by blast
  then have "uv_is_closing ?s h" by (auto simp: uv_is_closing_iff)
  moreover have "src_inv ?s" using src_inv_drop_connect [OF assms(1) d] by (cases s) simp
  ultimately show ?thesis using False by (simp add: tcp_connect_cb_def)
next
  case True
  let ?s = "s\<lparr>uv_connects := filter (\<lambda>(x, y, d). x \<noteq> c) (uv_connects s), src_conn_req := None\<rparr>"
  note i = assms(1) [unfolded src_inv_def]
  have inv: "src_inv ?s" using src_inv_drop_connect [OF assms(1) True] by simp
  have nc: "\<not> uv_is_closing s h" using i True unfolding src_handles_def by blast
  have nf: "(c', h, False) \<notin> set (uv_connects s)" for c' using i True unfolding src_unique_def by blast
  have gone: "\<forall>c' d. (c', h, d) \<notin> set (uv_connects ?s)"
    using i True unfolding src_unique_def by auto
  have lt: "h < uv_next s" using i True unfolding src_fresh_def by blast
  have conn: "src_conn s \<noteq> Some h" using i True unfolding src_handles_def by blast
  show ?thesis
  proof (cases "(c, h, False) \<in> set (uv_connects s)")
    case True
    then show ?thesis using nf by blast
  next
    case False
    then have e: "uv_closing s = []" "st \<noteq> UV_ECANCELED" using assms(2) by (simp_all add: src_enabled_def)
    show ?thesis
    proof (cases "st = 0")
      case st: True
      let ?t = "?s\<lparr>src_conn := Some h\<rparr>"
      note j = inv [unfolded src_inv_def]
      have "src_fresh ?t" using j lt unfolding src_fresh_def by simp blast
      moreover have "src_unique ?t" "src_live ?t" using j by simp_all
      moreover have "src_handles ?t" using j e(1) gone unfolding src_handles_def uv_is_closing_iff by simp
      ultimately have "src_inv ?t" using j by (simp add: src_inv_def)
      moreover have "src_link s" using i by simp
      ultimately show ?thesis using True st by (simp add: tcp_connect_cb_def UV_ECANCELED_def)
    next
      case st: False
      let ?t = "?s\<lparr>src_conn := None, uv_closing := uv_closing s @ [(h, Free_Handle)]\<rparr>"
      have "src_inv (?s\<lparr>src_conn := None\<rparr>)" using src_inv_conn_none [OF inv] .
      from src_inv_close [OF this, of h Free_Handle] nc lt gone
      have "src_inv ?t" by (simp add: uv_is_closing_iff)
      moreover have "tcp_connect_cb c h st s = Inr (?t, [Src_Connect_Cb st])"
        using True st e(2) nc by (simp add: tcp_connect_cb_def uv_close_def uv_is_closing_iff)
      ultimately show ?thesis by blast
    qed
  qed
qed

text \<open>Cancelling.\<close>

lemma src_inv_cancel_resolve:
  assumes "src_inv s" and "src_resolve_req s = Some r"
  shows "src_inv (s\<lparr>uv_resolves := map (\<lambda>(x, d). (x, d \<and> x \<noteq> r)) (uv_resolves s), src_resolve_req := None\<rparr>)"
    (is "src_inv ?s")
proof -
  note i = assms(1) [unfolded src_inv_def]
  have l: "(x, True) \<in> set (uv_resolves s) \<longleftrightarrow> x = r" for x
    using i assms(2) unfolding src_live_def by auto
  have m: "\<exists>d'. (x, d') \<in> set (uv_resolves s)" if "(x, d) \<in> set (uv_resolves ?s)" for x d
    using that by auto
  have "src_fresh ?s" using i m unfolding src_fresh_def by simp
  moreover have "src_live ?s"
  proof -
    have "(x, True) \<notin> set (uv_resolves ?s)" for x using l [of x] by auto
    with i show ?thesis unfolding src_live_def by simp
  qed
  moreover have "src_handles ?s" using i unfolding src_handles_def uv_is_closing_iff by simp
  ultimately show ?thesis using i by (simp add: src_inv_def)
qed

lemma cancelled_connects:
  assumes "src_inv s" and "(c, h, True) \<in> set (uv_connects s)"
  shows "(x, y, True) \<in> set (uv_connects s) \<Longrightarrow> x = c \<and> y = h"
    and "(x, y, d) \<in> set (map (\<lambda>(x, y, d). (x, y, d \<and> x \<noteq> c)) (uv_connects s)) \<longleftrightarrow>
      \<not> d \<and> (\<exists>d'. (x, y, d') \<in> set (uv_connects s))"
proof -
  note i = assms(1) [unfolded src_inv_def]
  show one: "x = c \<and> y = h" if "(x, y, True) \<in> set (uv_connects s)" for x y
  proof -
    have "src_conn_req s = Some x" "src_conn_req s = Some c" using i that assms(2) unfolding src_live_def by blast+
    then have "x = c" by simp
    with i that assms(2) show ?thesis unfolding src_unique_def by blast
  qed
  have "(x, y, d) \<in> set (map (\<lambda>(x, y, d). (x, y, d \<and> x \<noteq> c)) (uv_connects s)) \<longleftrightarrow>
      (\<exists>d'. (x, y, d') \<in> set (uv_connects s) \<and> d = (d' \<and> x \<noteq> c))"
    by force
  with one show "(x, y, d) \<in> set (map (\<lambda>(x, y, d). (x, y, d \<and> x \<noteq> c)) (uv_connects s)) \<longleftrightarrow>
      \<not> d \<and> (\<exists>d'. (x, y, d') \<in> set (uv_connects s))" by (cases d) auto
qed

lemma cancelled_handles:
  fixes s c h
  defines "s' \<equiv> s\<lparr>uv_closing := uv_closing s @ [(h, Free_Handle)],
    uv_connects := map (\<lambda>(x, y, d). (x, y, d \<and> x \<noteq> c)) (uv_connects s), src_conn_req := None\<rparr>"
  assumes "src_inv s" and "(c, h, True) \<in> set (uv_connects s)"
  shows "src_handles s'"
proof -
  note i = assms(2) [unfolded src_inv_def]
  have one: "x = c \<and> y = h" if "(x, y, True) \<in> set (uv_connects s)" for x y
    using cancelled_connects(1) [OF assms(2,3) that] .
  have map: "(x, y, d) \<in> set (uv_connects s') \<longleftrightarrow> \<not> d \<and> (\<exists>d'. (x, y, d') \<in> set (uv_connects s))" for x y d
    using cancelled_connects(2) [OF assms(2,3)] by (simp add: s'_def)
  have cl: "uv_closing s' = uv_closing s @ [(h, Free_Handle)]" "src_conn s' = src_conn s" by (simp_all add: s'_def)
  have cn: "src_conn s \<noteq> Some h" using i assms(3) unfolding src_handles_def by blast
  have dead: "(y, Free_Handle) \<in> set (uv_closing s')" if "(x, y, False) \<in> set (uv_connects s')" for x y
  proof -
    from that map obtain d where d: "(x, y, d) \<in> set (uv_connects s)" by blast
    then have "d \<longrightarrow> y = h" "\<not> d \<longrightarrow> (y, Free_Handle) \<in> set (uv_closing s)"
      using one i unfolding src_handles_def by auto
    then show ?thesis by (cases d) (auto simp: cl)
  qed
  have conn: "(y, Free_Handle) \<notin> set (uv_closing s') \<and> (\<forall>x d. (x, y, d) \<notin> set (uv_connects s'))"
    if "src_conn s = Some y" for y
  proof -
    have "(y, Free_Handle) \<notin> set (uv_closing s)" "\<forall>x d. (x, y, d) \<notin> set (uv_connects s)"
      using i that unfolding src_handles_def by blast+
    then show ?thesis using that cn map by (auto simp: cl)
  qed
  have kinds: "\<forall>y k. (y, k) \<in> set (uv_closing s) \<longrightarrow> k \<noteq> Free_Handle \<longrightarrow> src_conn s = None \<or> src_conn s = Some y"
    using i unfolding src_handles_def by blast
  have none: "(x, y, True) \<notin> set (uv_connects s')" for x y unfolding map by simp
  show ?thesis
    unfolding src_handles_def
  proof (intro conjI allI impI)
    fix y k
    assume "(y, k) \<in> set (uv_closing s')" and "k \<noteq> Free_Handle"
    with kinds show "src_conn s' = None \<or> src_conn s' = Some y" by (auto simp: cl)
  qed (use dead conn none in \<open>auto simp: cl\<close>)
qed

lemma src_inv_cancel_connect:
  assumes "src_inv s" and "(c, h, True) \<in> set (uv_connects s)"
  shows "src_inv (s\<lparr>uv_closing := uv_closing s @ [(h, Free_Handle)],
    uv_connects := map (\<lambda>(x, y, d). (x, y, d \<and> x \<noteq> c)) (uv_connects s), src_conn_req := None\<rparr>)" (is "src_inv ?s")
proof -
  note i = assms(1) [unfolded src_inv_def]
  have map: "(x, y, d) \<in> set (uv_connects ?s) \<longleftrightarrow> \<not> d \<and> (\<exists>d'. (x, y, d') \<in> set (uv_connects s))" for x y d
    using cancelled_connects(2) [OF assms] by simp
  have nc: "\<not> uv_is_closing s h" and lt: "h < uv_next s"
    using i assms(2) unfolding src_handles_def src_fresh_def by blast+
  have "src_fresh ?s" using i lt map unfolding src_fresh_def by (simp, blast?)
  moreover have "src_unique ?s"
  proof -
    have "src_unique (s\<lparr>uv_closing := uv_closing s @ [(h, Free_Handle)]\<rparr>)"
      using i nc unfolding src_unique_def uv_is_closing_iff by simp
    then show ?thesis unfolding src_unique_def map by (simp, metis)
  qed
  moreover have "src_live ?s" using i map unfolding src_live_def by simp
  moreover have "src_handles ?s" by (rule cancelled_handles [OF assms])
  ultimately show ?thesis using i by (simp add: src_inv_def)
qed

lemma find_connect:
  assumes "src_inv s" and "src_conn_req s = Some c"
  shows "\<exists>h. (c, h, True) \<in> set (uv_connects s) \<and> find (\<lambda>(x, y, d). x = c) (uv_connects s) = Some (c, h, True) \<and>
    \<not> uv_is_closing s h"
proof -
  obtain h where h: "(c, h, True) \<in> set (uv_connects s)"
    using assms unfolding src_inv_def src_live_def by blast
  have u: "y = h \<and> d = True" if "(c, y, d) \<in> set (uv_connects s)" for y d
    using assms(1) h that unfolding src_inv_def src_unique_def by blast
  have "find (\<lambda>(x, y, d). x = c) (uv_connects s) = Some (c, h, True)"
  proof (cases "find (\<lambda>(x, y, d). x = c) (uv_connects s)")
    case None
    with h show ?thesis by (auto simp: find_None_iff)
  next
    case (Some t)
    then have "t \<in> set (uv_connects s) \<and> fst t = c" by (auto simp: find_Some_iff) (metis nth_mem)
    with u Some show ?thesis by (cases t) auto
  qed
  moreover have "\<not> uv_is_closing s h" using assms(1) h unfolding src_inv_def src_handles_def by blast
  ultimately show ?thesis using h by blast
qed

lemma src_cancel_inv:
  assumes "src_inv s"
  shows "\<exists>s'. tcp_src_cancel s = Inr s' \<and> src_inv s' \<and> \<not> src_pending s'"
proof -
  define s1 where "s1 = (case src_resolve_req s of
      None \<Rightarrow> s
    | Some r \<Rightarrow> s\<lparr>uv_resolves := map (\<lambda>(x, d). (x, d \<and> x \<noteq> r)) (uv_resolves s), src_resolve_req := None\<rparr>)"
  have i1: "src_inv s1 \<and> src_resolve_req s1 = None"
    using assms src_inv_cancel_resolve unfolding s1_def by (cases "src_resolve_req s") auto
  define x where "x = (case src_conn_req s1 of
      None \<Rightarrow> Inr s1
    | Some c \<Rightarrow>
        (case find (\<lambda>(x, y, d). x = c) (uv_connects s1) of
           None \<Rightarrow> Inl Bad_Pointer
         | Some (x, h, d) \<Rightarrow>
             ub_bind (uv_close s1 h Free_Handle) (\<lambda>s2.
               Inr (s2\<lparr>uv_connects := map (\<lambda>(x, y, d). (x, y, d \<and> x \<noteq> c)) (uv_connects s2),
                       src_conn_req := None\<rparr>))))"
  obtain s3 where s3: "x = Inr s3" "src_inv s3" "src_resolve_req s3 = None" "src_conn_req s3 = None"
  proof (cases "src_conn_req s1")
    case None
    then show ?thesis using that [of s1] i1 by (simp add: x_def)
  next
    case (Some c)
    then obtain h where h: "(c, h, True) \<in> set (uv_connects s1)" "\<not> uv_is_closing s1 h"
      and f: "find (\<lambda>(x, y, d). x = c) (uv_connects s1) = Some (c, h, True)"
      using find_connect i1 by blast
    from h(2) have "x = Inr (s1\<lparr>uv_closing := uv_closing s1 @ [(h, Free_Handle)],
        uv_connects := map (\<lambda>(x, y, d). (x, y, d \<and> x \<noteq> c)) (uv_connects s1), src_conn_req := None\<rparr>)"
      using Some f by (simp add: x_def uv_close_def)
    with src_inv_cancel_connect [OF _ h(1)] i1 show ?thesis by (intro that) auto
  qed
  have c: "tcp_src_cancel s = (case src_conn s3 of
      None \<Rightarrow> Inr s3
    | Some h \<Rightarrow> if \<not> uv_is_closing s3 h then uv_close s3 h Link_Closed else Inr s3)"
    using s3(1) by (simp add: tcp_src_cancel_def s1_def [symmetric] x_def [symmetric])
  show ?thesis
  proof (cases "\<exists>h. src_conn s3 = Some h \<and> \<not> uv_is_closing s3 h")
    case True
    then obtain h where h: "src_conn s3 = Some h" "\<not> uv_is_closing s3 h" by blast
    have "src_inv (s3\<lparr>uv_closing := uv_closing s3 @ [(h, Link_Closed)]\<rparr>)"
      using src_inv_close [OF s3(2) h(2), of Link_Closed] h(1) s3(2)
      unfolding src_inv_def src_fresh_def src_handles_def by simp
    with c h s3 show ?thesis by (simp add: uv_close_def src_pending_def)
  next
    case False
    then have "tcp_src_cancel s = Inr s3" using c by (auto split: option.splits)
    with s3 show ?thesis by (simp add: src_pending_def)
  qed
qed

text \<open>The close callbacks and the release.\<close>

lemma closed_cb_inv:
  assumes "src_inv s" and "(h, k) \<in> set (uv_closing s)" and "\<forall>(c, h', d) \<in> set (uv_connects s). h' \<noteq> h"
  shows "src_inv (fst (uv_closed_cb h k s))"
proof -
  let ?s = "s\<lparr>uv_closing := filter (\<lambda>(x, y). x \<noteq> h) (uv_closing s)\<rparr>"
  note i = assms(1) [unfolded src_inv_def]
  have lt: "h < uv_next s" using i assms(2) unfolding src_fresh_def by blast
  have "src_fresh ?s" using i unfolding src_fresh_def by (simp, blast?)
  moreover have "src_unique ?s" using i unfolding src_unique_def by (simp, blast?)
  moreover have "src_live ?s" using i by simp
  moreover have "src_handles ?s"
    using i assms(3) unfolding src_handles_def uv_is_closing_iff by auto
  ultimately have inv: "src_inv ?s" using i by (simp add: src_inv_def)
  have chain: "src_inv (?s\<lparr>uv_closed := h # uv_closed s\<rparr>)"
  proof -
    note j = inv [unfolded src_inv_def]
    have "src_fresh (?s\<lparr>uv_closed := h # uv_closed s\<rparr>)" using j lt unfolding src_fresh_def by (simp, blast?)
    moreover have "src_unique (?s\<lparr>uv_closed := h # uv_closed s\<rparr>)" using j unfolding src_unique_def by (simp, blast?)
    moreover have "src_live (?s\<lparr>uv_closed := h # uv_closed s\<rparr>)" using j by simp
    moreover have "src_handles (?s\<lparr>uv_closed := h # uv_closed s\<rparr>)"
      using j assms(3) unfolding src_handles_def uv_is_closing_iff by auto
    ultimately show ?thesis using j by (simp add: src_inv_def)
  qed
  show ?thesis
    using inv chain src_inv_conn_none [OF inv]
    by (cases k) (simp_all add: uv_closed_cb_def src_link_close_cb_def Let_def split: option.split)
qed

lemma release_inv:
  assumes "src_inv s" shows "src_inv (fst (tcp_src_release s))"
proof (cases "src_conn s")
  case None
  with assms show ?thesis by (simp add: tcp_src_release_def)
next
  case (Some h)
  let ?s = "s\<lparr>src_conn := None\<rparr>"
  let ?t = "?s\<lparr>uv_closed := filter (\<lambda>x. x \<noteq> h) (uv_closed s)\<rparr>"
  note j = src_inv_conn_none [OF assms, unfolded src_inv_def]
  have "src_fresh ?t" using j unfolding src_fresh_def by (simp, blast?)
  moreover have "src_unique ?t" using j unfolding src_unique_def by (simp, blast?)
  moreover have "src_live ?t" using j by simp
  moreover have "src_handles ?t" using j unfolding src_handles_def uv_is_closing_iff by (simp, blast?)
  ultimately have "src_inv ?t" using j by (simp add: src_inv_def)
  with Some show ?thesis by (simp add: tcp_src_release_def)
qed

text \<open>Every action that can happen has a defined result and keeps the invariant.\<close>

lemma src_step_inv:
  assumes "src_inv s" and "src_enabled s a"
  shows "\<exists>s' os. src_step s a = Inr (s', os) \<and> src_inv s'"
proof (cases a)
  case (Src_Connect rc)
  have "\<exists>r s' os. tcp_src_connect rc s = Inr (r, s', os)"
    by (auto simp: tcp_src_connect_def uv_close_def split: option.splits)
  with src_start_inv [OF assms(1)] assms(2) Src_Connect show ?thesis
    by (auto simp: src_step_def src_enabled_def)
next
  case Src_Cancel
  with src_cancel_inv [OF assms(1)] show ?thesis by (auto simp: src_step_def)
next
  case Src_Release
  with release_inv [OF assms(1)] show ?thesis by (cases "tcp_src_release s") (simp add: src_step_def)
next
  case Src_Chain_Close
  show ?thesis
  proof (cases "src_conn s")
    case None
    with Src_Chain_Close assms(1) show ?thesis by (simp add: src_step_def)
  next
    case (Some h)
    then have nc: "\<not> uv_is_closing s h" using assms(2) Src_Chain_Close by (simp add: src_enabled_def)
    have "src_inv (s\<lparr>uv_closing := uv_closing s @ [(h, Chain_Closed)]\<rparr>)"
      using src_inv_close [OF assms(1) nc, of Chain_Closed] Some assms(1)
      unfolding src_inv_def src_fresh_def src_handles_def by simp
    with Some nc Src_Chain_Close show ?thesis by (simp add: src_step_def uv_close_def)
  qed
next
  case (Uv_Resolved r st irc crc)
  with resolve_cb_inv [OF assms(1)] assms(2) show ?thesis by (simp add: src_step_def src_enabled_def)
next
  case (Uv_Connected c h st)
  with connect_cb_inv [OF assms(1)] assms(2) show ?thesis by (simp add: src_step_def)
next
  case (Uv_Closed h k)
  with closed_cb_inv [OF assms(1), of h k] assms(2) show ?thesis
    by (cases "uv_closed_cb h k s") (simp add: src_step_def src_enabled_def)
qed

section \<open>Every attempt is answered once\<close>

definition src_answers :: "src_out list \<Rightarrow> nat" where
  "src_answers os = length (filter (\<lambda>x. case x of Src_Connect_Cb st \<Rightarrow> True | _ \<Rightarrow> False) os)"

text \<open>
  The reference: an attempt is open from a connect that returned 0 until its callback or a cancel; no
  callback comes when none is open. The result is whether an attempt is open at the end.
\<close>

fun attempt_step :: "bool option \<Rightarrow> src_action \<times> src_out list \<Rightarrow> bool option" where
  "attempt_step None x = None"
| "attempt_step (Some open_attempt) (a, os) =
     (case a of
        Src_Connect rc \<Rightarrow> if open_attempt \<or> src_answers os > 0 then None else Some (rc = 0)
      | Src_Cancel \<Rightarrow> if src_answers os > 0 then None else Some False
      | _ \<Rightarrow> if src_answers os = 0 then Some open_attempt
             else if open_attempt \<and> src_answers os = 1 then Some False else None)"

definition attempts :: "(src_action \<times> src_out list) list \<Rightarrow> bool option" where
  "attempts tr = foldl attempt_step (Some False) tr"

lemma resolved_attempt:
  assumes "src_inv s" and "src_step s (Uv_Resolved r st irc crc) = Inr (s', os)"
  shows "attempt_step (Some (src_pending s)) (Uv_Resolved r st irc crc, os) = Some (src_pending s')"
proof (cases "(r, True) \<in> set (uv_resolves s)")
  case False
  with assms(2) show ?thesis by (auto simp: src_step_def resolve_cb_def src_pending_def src_answers_def)
next
  case True
  note q = resolved_inv(1,2) [OF assms(1) True]
  then have "src_pending s" by (simp add: src_pending_def)
  with assms(2) True q show ?thesis
    by (auto simp: src_step_def resolve_cb_def resolve_live_def Let_def uv_close_def src_pending_def src_answers_def
        split: if_splits)
qed

lemma connected_attempt:
  assumes "src_inv s" and "src_enabled s (Uv_Connected c h st)" and "src_step s (Uv_Connected c h st) = Inr (s', os)"
  shows "attempt_step (Some (src_pending s)) (Uv_Connected c h st, os) = Some (src_pending s')"
proof (cases "(c, h, True) \<in> set (uv_connects s)")
  case False
  with assms(3) have "os = [] \<and> src_pending s' = src_pending s"
    by (auto simp: src_step_def tcp_connect_cb_def uv_close_def src_pending_def Let_def split: if_splits)
  then show ?thesis by (simp add: src_answers_def)
next
  case True
  then have q: "src_conn_req s = Some c \<and> src_resolve_req s = None"
    using assms(1) unfolding src_inv_def src_live_def by auto
  have "(c, h, False) \<notin> set (uv_connects s)"
    using True assms(1) unfolding src_inv_def src_unique_def by blast
  then have "st \<noteq> UV_ECANCELED" using assms(2) by (simp add: src_enabled_def)
  with assms(3) True q show ?thesis
    by (auto simp: src_step_def tcp_connect_cb_def uv_close_def src_pending_def src_answers_def Let_def split: if_splits)
qed

lemma src_step_attempt:
  assumes "src_inv s" and "src_enabled s a" and "src_step s a = Inr (s', os)"
  shows "attempt_step (Some (src_pending s)) (a, os) = Some (src_pending s')"
proof (cases a)
  case (Src_Connect rc)
  with assms(2) have "\<not> src_pending s" by (simp add: src_enabled_def)
  with assms(3) Src_Connect show ?thesis
    by (auto simp: src_step_def tcp_src_connect_def uv_close_def src_pending_def src_answers_def ub_bind_Inr
        split: option.splits if_splits)
next
  case Src_Cancel
  then have "\<not> src_pending s' \<and> os = []" using src_cancel_inv [OF assms(1)] assms(3) by (auto simp: src_step_def)
  with Src_Cancel show ?thesis by (simp add: src_answers_def)
next
  case Src_Release
  with assms(3) show ?thesis
    by (auto simp: src_step_def tcp_src_release_def src_pending_def src_answers_def split: option.splits)
next
  case Src_Chain_Close
  with assms(3) show ?thesis
    by (auto simp: src_step_def uv_close_def src_pending_def src_answers_def ub_bind_Inr split: option.splits if_splits)
next
  case (Uv_Resolved r st irc crc)
  with assms resolved_attempt [OF assms(1)] show ?thesis by simp
next
  case (Uv_Connected c h st)
  with assms connected_attempt [OF assms(1)] show ?thesis by simp
next
  case (Uv_Closed h k)
  with assms(3) show ?thesis
    by (auto simp: src_step_def uv_closed_cb_def src_link_close_cb_def src_pending_def src_answers_def Let_def
        split: close_kind.splits option.splits)
qed

lemma src_trace_inv:
  assumes "src_trace s tr s'" and "src_inv s" and "\<not> src_pending s"
  shows "src_inv s' \<and> attempts tr = Some (src_pending s')"
  using assms
proof (induction rule: src_trace.induct)
  case (src_nil s)
  then show ?case by (simp add: attempts_def)
next
  case (src_snoc s tr s1 a s2 os)
  then have i: "src_inv s1" "attempts tr = Some (src_pending s1)" by simp_all
  from src_step_inv [OF i(1) src_snoc.hyps(2)] src_snoc.hyps(3) have "src_inv s2" by simp
  moreover have "attempts (tr @ [(a, os)]) = Some (src_pending s2)"
    using src_step_attempt [OF i(1) src_snoc.hyps(2,3)] i(2) by (simp add: attempts_def)
  ultimately show ?case by simp
qed

section \<open>Handles are freed once\<close>

definition src_owned :: "tcp_src \<Rightarrow> nat set" where
  "src_owned s = {h. src_conn s = Some h \<or> (\<exists>c d. (c, h, d) \<in> set (uv_connects s)) \<or>
     (\<exists>k. (h, k) \<in> set (uv_closing s)) \<or> h \<in> set (uv_closed s)}"

definition src_freed :: "src_out list \<Rightarrow> nat list" where
  "src_freed os = concat (map (\<lambda>x. case x of Src_Free h \<Rightarrow> [h] | _ \<Rightarrow> []) os)"

lemma src_owned_fresh: "src_inv s \<Longrightarrow> h \<in> src_owned s \<Longrightarrow> h < uv_next s"
  unfolding src_inv_def src_fresh_def src_owned_def by blast

lemma src_step_next:
  assumes "src_step s a = Inr (s', os)" and "src_enabled s a"
  shows "uv_next s \<le> uv_next s' \<and> src_owned s' \<subseteq> src_owned s \<union> {uv_next s..}"
proof (cases a)
  case (Src_Connect rc)
  with assms(1) show ?thesis
    by (auto simp: src_step_def tcp_src_connect_def uv_close_def src_owned_def ub_bind_Inr split: option.splits if_splits)
next
  case Src_Cancel
  then have c: "tcp_src_cancel s = Inr s'" using assms(1) by (auto simp: src_step_def ub_bind_Inr)
  have f: "\<exists>c d. (c, h, d) \<in> set xs" if "find P xs = Some (x, h, d)" for P x h d and xs :: "(nat \<times> nat \<times> bool) list"
    using that by (auto simp: find_Some_iff) (metis nth_mem)
  from c show ?thesis
    by (auto simp: tcp_src_cancel_def uv_close_def src_owned_def ub_bind_Inr Let_def
        split: option.splits if_splits) (blast dest: f)+
next
  case Src_Release
  with assms(1) show ?thesis
    by (auto simp: src_step_def tcp_src_release_def src_owned_def split: option.splits)
next
  case Src_Chain_Close
  with assms(1) show ?thesis
    by (auto simp: src_step_def uv_close_def src_owned_def ub_bind_Inr split: option.splits if_splits)
next
  case (Uv_Resolved r st irc crc)
  with assms(1) show ?thesis
    by (auto simp: src_step_def resolve_cb_def resolve_live_def uv_close_def src_owned_def ub_bind_Inr Let_def
        split: option.splits if_splits)
next
  case (Uv_Connected c h st)
  then obtain d where "(c, h, d) \<in> set (uv_connects s)" using assms(2) by (auto simp: src_enabled_def)
  with assms(1) Uv_Connected show ?thesis
    by (auto simp: src_step_def tcp_connect_cb_def uv_close_def src_owned_def ub_bind_Inr Let_def
        split: option.splits if_splits)
next
  case (Uv_Closed h k)
  then have "(h, k) \<in> set (uv_closing s)" using assms(2) by (simp add: src_enabled_def)
  with assms(1) Uv_Closed show ?thesis
    by (auto simp: src_step_def uv_closed_cb_def src_link_close_cb_def src_owned_def Let_def
        split: option.splits close_kind.splits)
qed


lemma src_step_freed:
  assumes "src_inv s" and "src_enabled s a" and "src_step s a = Inr (s', os)"
  shows "distinct (src_freed os) \<and> (\<forall>h \<in> set (src_freed os). h \<in> src_owned s \<and> h \<notin> src_owned s')"
proof (cases a)
  case (Src_Connect rc)
  with assms(3) show ?thesis by (auto simp: src_step_def tcp_src_connect_def src_freed_def ub_bind_Inr split: if_splits)
next
  case Src_Cancel
  with assms(3) show ?thesis by (auto simp: src_step_def src_freed_def ub_bind_Inr)
next
  case Src_Release
  show ?thesis
  proof (cases "src_conn s")
    case None
    with assms(3) Src_Release show ?thesis by (auto simp: src_step_def tcp_src_release_def src_freed_def)
  next
    case (Some h)
    then have c: "h \<in> set (uv_closed s)" using assms(2) Src_Release by (simp add: src_enabled_def)
    have "(h, k) \<notin> set (uv_closing s)" "(x, h, d) \<notin> set (uv_connects s)" for k x d
      using assms(1) c Some unfolding src_inv_def src_unique_def src_handles_def by blast+
    with assms(3) Src_Release Some show ?thesis
      by (auto simp: src_step_def tcp_src_release_def src_freed_def src_owned_def)
  qed
next
  case Src_Chain_Close
  with assms(3) show ?thesis by (auto simp: src_step_def src_freed_def ub_bind_Inr split: option.splits)
next
  case (Uv_Resolved r st irc crc)
  with assms(3) show ?thesis
    by (auto simp: src_step_def resolve_cb_def resolve_live_def uv_close_def src_freed_def ub_bind_Inr Let_def
        split: option.splits if_splits)
next
  case (Uv_Connected c h st)
  with assms(3) show ?thesis
    by (auto simp: src_step_def tcp_connect_cb_def uv_close_def src_freed_def ub_bind_Inr Let_def split: if_splits)
next
  case (Uv_Closed h k)
  then have e: "(h, k) \<in> set (uv_closing s)" "\<forall>(c, h', d) \<in> set (uv_connects s). h' \<noteq> h"
    using assms(2) by (simp_all add: src_enabled_def)
  have nc: "h \<notin> set (uv_closed s)" using assms(1) e(1) unfolding src_inv_def src_unique_def by blast
  have kc: "if k = Free_Handle then src_conn s \<noteq> Some h else src_conn s = None \<or> src_conn s = Some h"
    using assms(1) e(1) unfolding src_inv_def src_handles_def by auto
  have cc: "(x, h, d) \<notin> set (uv_connects s)" for x d using e(2) by auto
  from assms(3) Uv_Closed e(1) nc kc cc show ?thesis
    by (cases k) (auto simp: src_step_def uv_closed_cb_def src_link_close_cb_def src_freed_def src_owned_def Let_def
        split: option.splits)
qed

lemma src_trace_freed:
  assumes "src_trace s tr s'" and "src_inv s" and "\<not> src_pending s"
  shows "distinct (src_freed (concat (map snd tr))) \<and>
    (\<forall>h \<in> set (src_freed (concat (map snd tr))). h < uv_next s' \<and> h \<notin> src_owned s')"
  using assms
proof (induction rule: src_trace.induct)
  case (src_nil s)
  then show ?case by (simp add: src_freed_def)
next
  case (src_snoc s tr s1 a s2 os)
  let ?old = "src_freed (concat (map snd tr))"
  have i: "src_inv s1" using src_trace_inv [OF src_snoc.hyps(1) src_snoc.prems] by simp
  have f: "src_freed (concat (map snd (tr @ [(a, os)]))) = ?old @ src_freed os"
    by (simp add: src_freed_def)
  have IH: "distinct ?old" "\<forall>h \<in> set ?old. h < uv_next s1 \<and> h \<notin> src_owned s1" using src_snoc by auto
  note st = src_step_freed [OF i src_snoc.hyps(2,3)] src_step_next [OF src_snoc.hyps(3,2)]
  have "set ?old \<inter> set (src_freed os) = {}" using IH(2) st(1) by auto
  moreover have "\<forall>h \<in> set (src_freed os). h < uv_next s2 \<and> h \<notin> src_owned s2"
    using st src_owned_fresh [OF i] by fastforce
  moreover have "\<forall>h \<in> set ?old. h < uv_next s2 \<and> h \<notin> src_owned s2"
    using IH(2) st(2) by fastforce
  ultimately show ?case unfolding f using IH(1) st(1) by auto
qed

section \<open>Defects\<close>

text \<open>The option set before the connection is made is ignored: every connection gets \<open>TCP_NODELAY\<close>.\<close>

lemma nodelay_setting_ignored:
  assumes "(c, h, True) \<in> set (uv_connects s)" and "src_link s"
  shows "\<exists>s' os. tcp_connect_cb c h 0 (s\<lparr>src_nodelay := v\<rparr>) = Inr (s', os) \<and> Src_Set_Nodelay h 1 \<in> set os"
  using assms by (simp add: tcp_connect_cb_def UV_ECANCELED_def)

text \<open>When the socket cannot be created, the memory of its handle is lost.\<close>

lemma init_failure_leaks:
  assumes "(r, True) \<in> set (uv_resolves s)" and "src_conn_req s = None" and "irc \<noteq> 0"
    and "resolve_cb r 0 irc crc s = Inr (s', os)"
  shows "uv_next s < uv_next s' \<and> src_owned s' \<subseteq> src_owned s \<and> src_freed os = []"
  using assms by (auto simp: resolve_cb_def resolve_live_def Let_def src_owned_def src_freed_def)

section \<open>Properties\<close>



end
