(* ===== verification/Tls_Stream.thy ===== *)
theory Tls_Stream
  imports Tcp_Src Tls_Engine
begin

text \<open>
  The TLS stream of \<open>src/tlsuv.c\<close> on top of the TCP connection source: connecting, the handshake, and
  closing. The stream and its source are one state here, so that what libuv reports to the source
  reaches the stream as in the code. A connect request is known by a number.
\<close>

section \<open>Data\<close>

text \<open>\<open>st_chained\<close>: the stream is at the end of a chain of links, below it the TLS link and the source's link.\<close>

record tlsuv_stream =
  st_socket :: "tcp_src option"
  st_engine :: "string option"
  st_host :: "string option"
  st_conn_req :: "nat option"
  st_close_cb :: bool
  st_chained :: bool
  st_alloc_cb :: "nat option"
  st_read_cb :: "nat option"

datatype stream_out =
    Stream_Connect_Cb nat int
  | Stream_Close_Cb
  | Stream_Write_Cb nat int
  | Stream_Write "byte list" nat
  | Stream_Link_Close
  | Stream_Read_Start
  | Stream_Engine_New string
  | Stream_Engine_Free string
  | Stream_Src src_out

section \<open>Operations\<close>

definition tlsuv_stream_init :: tlsuv_stream where
  "tlsuv_stream_init =
     \<lparr>st_socket = Some tcp_src_init, st_engine = None, st_host = None, st_conn_req = None, st_close_cb = False,
      st_chained = False, st_alloc_cb = None, st_read_cb = None\<rparr>"

text \<open>
  \<open>on_mbed_close\<close> runs when all links of the chain are closed. The source is cancelled, its connection
  released and the source freed. Releasing frees the memory of the connection's handle, which is
  undefined while libuv still uses it.
\<close>

definition on_mbed_close :: "tlsuv_stream \<Rightarrow> ub + tlsuv_stream \<times> stream_out list" where
  "on_mbed_close clt =
     (let (clt1, o1) = (case st_conn_req clt of
                          None \<Rightarrow> (clt, [])
                        | Some cr \<Rightarrow> (clt\<lparr>st_conn_req := None\<rparr>, [Stream_Connect_Cb cr UV_ECANCELED]));
          o3 = (if st_close_cb clt1 then [Stream_Close_Cb] else [])
      in case st_socket clt1 of
           None \<Rightarrow> Inr (clt1, o1 @ o3)
         | Some sock \<Rightarrow>
             ub_bind (tcp_src_cancel sock) (\<lambda>sock1.
               if \<not> src_enabled sock1 Src_Release then Inl Bad_Pointer
               else
                 (let (sock2, o2) = tcp_src_release sock1
                  in Inr (clt1\<lparr>st_socket := None\<rparr>, o1 @ map Stream_Src o2 @ o3))))"

text \<open>
  Closing: a stream that is not chained is closed at once; otherwise the whole chain is closed and
  \<open>on_mbed_close\<close> runs when the last link is.
\<close>

definition tlsuv_stream_close :: "tlsuv_stream \<Rightarrow> bool \<Rightarrow> ub + tlsuv_stream \<times> stream_out list" where
  "tlsuv_stream_close clt cb =
     (let clt1 = clt\<lparr>st_close_cb := cb\<rparr>
      in if st_chained clt1 then Inr (clt1, [Stream_Link_Close]) else on_mbed_close clt1)"

definition tlsuv_stream_keepalive ::
  "int \<Rightarrow> tlsuv_stream \<Rightarrow> bool \<Rightarrow> nat \<Rightarrow> ub + int \<times> tlsuv_stream \<times> stream_out list" where
  "tlsuv_stream_keepalive rc clt on delay =
     (case st_socket clt of
        None \<Rightarrow> Inl Null_Deref
      | Some sock \<Rightarrow>
          (let (r, sock1, os) = tcp_src_keepalive rc sock on delay
           in Inr (r, clt\<lparr>st_socket := Some sock1\<rparr>, map Stream_Src os)))"

definition tlsuv_stream_nodelay ::
  "int \<Rightarrow> tlsuv_stream \<Rightarrow> int \<Rightarrow> ub + int \<times> tlsuv_stream \<times> stream_out list" where
  "tlsuv_stream_nodelay rc clt val =
     (case st_socket clt of
        None \<Rightarrow> Inl Null_Deref
      | Some sock \<Rightarrow>
          (let (r, sock1, os) = tcp_src_nodelay rc sock val
           in Inr (r, clt\<lparr>st_socket := Some sock1\<rparr>, map Stream_Src os)))"

definition on_tls_hs :: "tlsuv_stream \<Rightarrow> tls_handshake_state \<Rightarrow> tlsuv_stream \<times> stream_out list" where
  "on_tls_hs clt st =
     (case st_conn_req clt of
        None \<Rightarrow> (clt, [])
      | Some req \<Rightarrow>
          (clt\<lparr>st_conn_req := None\<rparr>,
           [Stream_Connect_Cb req
              (if st = TLS_HS_COMPLETE then 0 else if st = TLS_HS_ERROR then UV_ECONNABORTED else UV_EINVAL)]))"

text \<open>The callback of the source. \<open>clt->host\<close> is set by every connect.\<close>

definition on_src_connect :: "tlsuv_stream \<Rightarrow> int \<Rightarrow> ub + tlsuv_stream \<times> stream_out list" where
  "on_src_connect clt st =
     (if st = 0 then
        (let o1 = (case st_engine clt of None \<Rightarrow> [] | Some h \<Rightarrow> [Stream_Engine_Free h])
         in case st_host clt of
              None \<Rightarrow> Inl Null_Deref
            | Some host \<Rightarrow>
                Inr (clt\<lparr>st_engine := Some host, st_chained := True\<rparr>,
                     o1 @ [Stream_Engine_New host, Stream_Read_Start]))
      else
        (case st_conn_req clt of
           None \<Rightarrow> Inl Null_Deref
         | Some req \<Rightarrow> Inr (clt\<lparr>st_conn_req := None\<rparr>, [Stream_Connect_Cb req st])))"

text \<open>\<open>rc\<close> is the result of the source's name resolution; \<open>req\<close> may be a null pointer.\<close>

definition tlsuv_stream_connect ::
  "int \<Rightarrow> tlsuv_stream \<Rightarrow> nat option \<Rightarrow> string \<Rightarrow> int \<Rightarrow> ub + int \<times> tlsuv_stream \<times> stream_out list" where
  "tlsuv_stream_connect rc clt req host port =
     (case req of
        None \<Rightarrow> Inr (UV_EINVAL, clt, [])
      | Some r \<Rightarrow>
          if port \<le> 0 \<or> port > 65535 then Inr (UV_EINVAL, clt, [])
          else if st_conn_req clt \<noteq> None then Inr (UV_EALREADY, clt, [])
          else
            (let clt1 = clt\<lparr>st_host := Some host, st_conn_req := Some r\<rparr>;
                 sock = (case st_socket clt1 of None \<Rightarrow> tcp_src_init | Some s \<Rightarrow> s)
             in ub_bind (tcp_src_connect rc sock) (\<lambda>(ret, sock1, os).
                  Inr (ret, clt1\<lparr>st_socket := Some sock1\<rparr>, map Stream_Src os))))"

text \<open>The two callbacks of the user, known by numbers.\<close>

definition tlsuv_stream_read :: "tlsuv_stream \<Rightarrow> nat option \<Rightarrow> nat option \<Rightarrow> int \<times> tlsuv_stream" where
  "tlsuv_stream_read clt acb rcb = (0, clt\<lparr>st_alloc_cb := acb, st_read_cb := rcb\<rparr>)"

definition tlsuv_stream_write ::
  "int \<Rightarrow> tlsuv_stream \<Rightarrow> nat \<Rightarrow> byte list \<Rightarrow> int \<times> stream_out list" where
  "tlsuv_stream_write rc clt req buf = (rc, [Stream_Write buf req])"

definition on_mbed_link_write :: "int \<Rightarrow> nat \<Rightarrow> stream_out list" where
  "on_mbed_link_write st req = [Stream_Write_Cb req st]"

definition tlsuv_stream_free :: "tlsuv_stream \<Rightarrow> tlsuv_stream \<times> stream_out list" where
  "tlsuv_stream_free clt =
     (clt\<lparr>st_host := None, st_engine := None, st_socket := None\<rparr>,
      case st_engine clt of None \<Rightarrow> [] | Some h \<Rightarrow> [Stream_Engine_Free h])"

section \<open>Runs\<close>

datatype stream_action =
    St_Connect int "nat option" string int
  | St_Close bool
  | St_Uv src_action
  | St_Handshake tls_handshake_state
  | St_Chain_Closed

text \<open>What the source reports while it handles a callback of libuv.\<close>

primrec stream_src_outs :: "tlsuv_stream \<Rightarrow> src_out list \<Rightarrow> ub + tlsuv_stream \<times> stream_out list" where
  "stream_src_outs clt [] = Inr (clt, [])"
| "stream_src_outs clt (x # xs) =
     ub_bind (case x of Src_Connect_Cb st \<Rightarrow> on_src_connect clt st | _ \<Rightarrow> Inr (clt, [Stream_Src x]))
       (\<lambda>(c1, o1). ub_bind (stream_src_outs c1 xs) (\<lambda>(c2, o2). Inr (c2, o1 @ o2)))"

definition stream_step :: "tlsuv_stream \<Rightarrow> stream_action \<Rightarrow> ub + tlsuv_stream \<times> stream_out list" where
  "stream_step clt a =
     (case a of
        St_Connect rc req host port \<Rightarrow>
          ub_bind (tlsuv_stream_connect rc clt req host port) (\<lambda>(ret, c, os). Inr (c, os))
      | St_Close cb \<Rightarrow> tlsuv_stream_close clt cb
      | St_Uv sa \<Rightarrow>
          (case st_socket clt of
             None \<Rightarrow> Inr (clt, [])
           | Some sock \<Rightarrow>
               ub_bind (src_step sock sa) (\<lambda>(sock1, os).
                 stream_src_outs (clt\<lparr>st_socket := Some sock1\<rparr>) os))
      | St_Handshake st \<Rightarrow> Inr (on_tls_hs clt st)
      | St_Chain_Closed \<Rightarrow> on_mbed_close (clt\<lparr>st_chained := False\<rparr>))"

text \<open>
  When an action can happen: a connect while the stream has no chain, with a name resolution that
  starts; the handshake callback and the end of a close only with a chain, the latter after libuv has
  closed the handle at its bottom.
\<close>

definition stream_enabled :: "tlsuv_stream \<Rightarrow> stream_action \<Rightarrow> bool" where
  "stream_enabled clt a =
     (case a of
        St_Connect rc req host port \<Rightarrow> \<not> st_chained clt \<and> rc = 0
      | St_Close cb \<Rightarrow> True
      | St_Uv sa \<Rightarrow>
          (case st_socket clt of None \<Rightarrow> False
           | Some sock \<Rightarrow> src_enabled sock sa \<and> (\<exists>r st irc crc c h k. sa = Uv_Resolved r st irc crc \<or>
               sa = Uv_Connected c h st \<or> sa = Uv_Closed h k \<or> (sa = Src_Chain_Close \<and> st_chained clt)))
      | St_Handshake st \<Rightarrow> st_chained clt
      | St_Chain_Closed \<Rightarrow> st_chained clt \<and>
          (case st_socket clt of None \<Rightarrow> True | Some sock \<Rightarrow> src_enabled sock Src_Release))"

text \<open>The request that a call accepts.\<close>

definition accepted :: "tlsuv_stream \<Rightarrow> stream_action \<Rightarrow> nat list" where
  "accepted clt a =
     (case a of
        St_Connect rc (Some r) host port \<Rightarrow>
          if port \<le> 0 \<or> port > 65535 \<or> st_conn_req clt \<noteq> None then [] else [r]
      | _ \<Rightarrow> [])"

text \<open>A run, with the requests accepted and what the stream did.\<close>

inductive stream_trace :: "tlsuv_stream \<Rightarrow> nat list \<Rightarrow> stream_out list \<Rightarrow> tlsuv_stream \<Rightarrow> bool" where
  stream_nil: "stream_trace s [] [] s"
| stream_snoc: "stream_trace s rs tr s1 \<Longrightarrow> stream_enabled s1 a \<Longrightarrow> stream_step s1 a = Inr (s2, os) \<Longrightarrow>
    stream_trace s (rs @ accepted s1 a) (tr @ os) s2"

section \<open>Every request is answered once\<close>

definition stream_inv :: "tlsuv_stream \<Rightarrow> bool" where
  "stream_inv clt \<longleftrightarrow>
     (case st_socket clt of
        None \<Rightarrow> st_conn_req clt = None \<and> \<not> st_chained clt
      | Some sock \<Rightarrow> src_inv sock \<and> (src_conn sock \<noteq> None \<longrightarrow> st_chained clt) \<and>
          (src_pending sock \<longrightarrow> st_conn_req clt \<noteq> None \<and> st_host clt \<noteq> None \<and> \<not> st_chained clt) \<and>
          (st_conn_req clt \<noteq> None \<longrightarrow> src_pending sock \<or> st_chained clt))"

text \<open>The requests answered, and the one that waits.\<close>

definition answered :: "stream_out list \<Rightarrow> nat list" where
  "answered os = concat (map (\<lambda>x. case x of Stream_Connect_Cb r st \<Rightarrow> [r] | _ \<Rightarrow> []) os)"

abbreviation waiting :: "tlsuv_stream \<Rightarrow> nat list" where
  "waiting clt \<equiv> (case st_conn_req clt of None \<Rightarrow> [] | Some r \<Rightarrow> [r])"

lemma answered_simps [simp]:
  "answered [] = []" "answered (xs @ ys) = answered xs @ answered ys"
  "answered (x # xs) = (case x of Stream_Connect_Cb r st \<Rightarrow> [r] | _ \<Rightarrow> []) @ answered xs"
  by (simp_all add: answered_def)

lemma answered_src [simp]: "answered (map Stream_Src os) = []"
  by (induction os) simp_all

lemma cancel_keeps_conn:
  "tcp_src_cancel s = Inr s1 \<Longrightarrow> src_conn s1 = src_conn s \<and> uv_closed s1 = uv_closed s"
  by (auto simp: tcp_src_cancel_def uv_close_def Let_def ub_bind_Inr split: option.splits if_splits)

lemma on_mbed_close_result:
  assumes "stream_inv clt"
    and "case st_socket clt of None \<Rightarrow> True | Some sock \<Rightarrow> st_chained clt \<longrightarrow> src_enabled sock Src_Release"
  shows "\<exists>c os. on_mbed_close (clt\<lparr>st_chained := False, st_close_cb := cb\<rparr>) = Inr (c, os) \<and> stream_inv c \<and>
    answered os @ waiting c = waiting clt"
proof (cases "st_socket clt")
  case None
  with assms show ?thesis by (simp add: on_mbed_close_def stream_inv_def)
next
  case (Some sock)
  then have "src_inv sock" and c: "src_conn sock = None \<or> st_chained clt" using assms(1) by (auto simp: stream_inv_def)
  with src_cancel_inv obtain sock1 where s1: "tcp_src_cancel sock = Inr sock1" by blast
  have "src_enabled sock1 Src_Release"
    using cancel_keeps_conn [OF s1] c assms(2) Some by (auto simp: src_enabled_def split: option.splits)
  with Some s1 show ?thesis
    by (auto simp: on_mbed_close_def stream_inv_def Let_def split: option.splits prod.splits)
qed

lemma stream_src_outs_quiet:
  "src_answers os = 0 \<Longrightarrow> stream_src_outs clt os = Inr (clt, map Stream_Src os)"
proof (induction os)
  case (Cons x xs)
  then show ?case by (cases x) (simp_all add: src_answers_def)
qed simp

lemma stream_src_outs_one:
  assumes "src_answers os = 1"
  shows "\<exists>st xs ys. Src_Connect_Cb st \<in> set os \<and> (\<forall>st'. Src_Connect_Cb st' \<in> set os \<longrightarrow> st' = st) \<and>
    (\<forall>clt. stream_src_outs clt os =
       ub_bind (on_src_connect clt st) (\<lambda>(c, o1). Inr (c, map Stream_Src xs @ o1 @ map Stream_Src ys)))"
  using assms
proof (induction os)
  case (Cons x os)
  show ?case
  proof (cases "\<exists>st. x = Src_Connect_Cb st")
    case True
    then obtain st where x: "x = Src_Connect_Cb st" by blast
    with Cons.prems have q: "src_answers os = 0" by (simp add: src_answers_def)
    then have "Src_Connect_Cb st' \<notin> set os" for st' by (auto simp: src_answers_def filter_empty_conv)
    with x q show ?thesis
      by (intro exI [of _ st] exI [of _ "[]"] exI [of _ os]) (auto simp: stream_src_outs_quiet ub_bind_def)
  next
    case False
    then have q: "src_answers os = 1" using Cons.prems by (cases x) (simp_all add: src_answers_def)
    from Cons.IH [OF this] obtain st xs ys where i: "Src_Connect_Cb st \<in> set os"
      "\<forall>st'. Src_Connect_Cb st' \<in> set os \<longrightarrow> st' = st"
      "\<forall>clt. stream_src_outs clt os =
         ub_bind (on_src_connect clt st) (\<lambda>(c, o1). Inr (c, map Stream_Src xs @ o1 @ map Stream_Src ys))"
      by blast
    have "stream_src_outs clt (x # os) =
         ub_bind (on_src_connect clt st) (\<lambda>(c, o1). Inr (c, map Stream_Src (x # xs) @ o1 @ map Stream_Src ys))" for clt
      using False i(3) by (cases x) (auto simp: ub_bind_def split: sum.splits)
    then have f: "\<forall>clt. stream_src_outs clt (x # os) =
         ub_bind (on_src_connect clt st) (\<lambda>(c, o1). Inr (c, map Stream_Src (x # xs) @ o1 @ map Stream_Src ys))" ..
    have m: "Src_Connect_Cb st \<in> set (x # os)" using i(1) by simp
    have m': "\<forall>st'. Src_Connect_Cb st' \<in> set (x # os) \<longrightarrow> st' = st" using i(2) False by (metis set_ConsD)
    show ?thesis by (intro exI [of _ st] exI [of _ "x # xs"] exI [of _ ys] conjI m m' f)
  qed
qed (simp add: src_answers_def)

lemma src_conn_of_step:
  assumes "src_step s a = Inr (s', os)" and "\<forall>rc. a \<noteq> Src_Connect rc"
  shows "src_conn s' = None \<or> src_conn s' = src_conn s \<or> Src_Connect_Cb 0 \<in> set os"
  using assms
  by (cases a) (auto simp: src_step_def tcp_src_cancel_def tcp_src_release_def resolve_cb_def resolve_live_def
      tcp_connect_cb_def uv_closed_cb_def src_link_close_cb_def uv_close_def Let_def ub_bind_Inr
      split: option.splits if_splits close_kind.splits)

lemma stream_step_uv:
  assumes "stream_inv clt" and "stream_enabled clt (St_Uv sa)"
  shows "\<exists>c os. stream_step clt (St_Uv sa) = Inr (c, os) \<and> stream_inv c \<and> answered os @ waiting c = waiting clt"
proof -
  from assms(2) obtain sock where k: "st_socket clt = Some sock" "src_enabled sock sa"
      and ch: "sa = Src_Chain_Close \<longrightarrow> st_chained clt"
      and n: "(\<forall>rc. sa \<noteq> Src_Connect rc) \<and> sa \<noteq> Src_Cancel"
    by (auto simp: stream_enabled_def split: option.splits)
  then have i: "src_inv sock" using assms(1) by (simp add: stream_inv_def)
  from src_step_inv [OF i k(2)] obtain sock1 os where st: "src_step sock sa = Inr (sock1, os)" "src_inv sock1"
    by blast
  let ?c = "clt\<lparr>st_socket := Some sock1\<rparr>"
  have u: "stream_step clt (St_Uv sa) = stream_src_outs ?c os"
    using k(1) st(1) by (simp add: stream_step_def)
  have at: "src_answers os = 0 \<and> src_pending sock1 = src_pending sock \<or>
      src_answers os = 1 \<and> src_pending sock \<and> \<not> src_pending sock1"
    using src_step_attempt [OF i k(2) st(1)] n by (auto split: src_action.splits if_splits)
  note cn = src_conn_of_step [OF st(1)] n
  show ?thesis
  proof (cases "src_answers os = 0")
    case True
    then have "Src_Connect_Cb 0 \<notin> set os" by (auto simp: src_answers_def filter_empty_conv)
    with True at cn assms(1) k(1) st(2) show ?thesis
      unfolding u by (auto simp: stream_src_outs_quiet stream_inv_def)
  next
    case False
    with at have p: "src_answers os = 1" "src_pending sock" "\<not> src_pending sock1" by auto
    with assms(1) k(1) obtain r h where r: "st_conn_req clt = Some r" "st_host clt = Some h" "\<not> st_chained clt"
      by (auto simp: stream_inv_def)
    then have "src_conn sock = None" using assms(1) k(1) by (auto simp: stream_inv_def)
    obtain s xs ys where o: "\<forall>s'. Src_Connect_Cb s' \<in> set os \<longrightarrow> s' = s"
      "stream_src_outs ?c os =
         ub_bind (on_src_connect ?c s) (\<lambda>(c, o1). Inr (c, map Stream_Src xs @ o1 @ map Stream_Src ys))"
      using stream_src_outs_one [OF p(1)] by blast
    have cs: "s = 0 \<or> src_conn sock1 = None"
      using cn o(1) \<open>src_conn sock = None\<close> by auto
    show ?thesis
    proof (cases "s = 0")
      case True
      with o(2) r p(3) st(2) show ?thesis
        unfolding u by (simp add: on_src_connect_def stream_inv_def split: option.splits)
    next
      case False
      with cs o(2) r p(3) st(2) show ?thesis
        unfolding u by (simp add: on_src_connect_def stream_inv_def)
    qed
  qed
qed

lemma stream_connect_accepted:
  assumes "stream_inv clt" and "stream_enabled clt (St_Connect rc req host port)" and "accepted clt (St_Connect rc req host port) \<noteq> []"
  shows "\<exists>c os. stream_step clt (St_Connect rc req host port) = Inr (c, os) \<and> stream_inv c \<and>
    answered os @ waiting c = waiting clt @ accepted clt (St_Connect rc req host port)"
proof -
  define sock where "sock = (case st_socket clt of None \<Rightarrow> tcp_src_init | Some s \<Rightarrow> s)"
  from assms(3) obtain r where r: "req = Some r" "\<not> (port \<le> 0 \<or> port > 65535)" "st_conn_req clt = None"
    by (auto simp: accepted_def split: option.splits if_splits)
  have e: "rc = 0" "\<not> st_chained clt" using assms(2) by (simp_all add: stream_enabled_def)
  then have i: "src_inv sock" "\<not> src_pending sock" "src_conn sock = None"
    using assms(1) r(3) src_inv_init by (auto simp: sock_def stream_inv_def src_pending_def tcp_src_init_def split: option.splits)
  then have "src_enabled sock (Src_Connect 0)" by (simp add: src_enabled_def)
  from src_step_inv [OF i(1) this] obtain s1 os where
      s1: "src_step sock (Src_Connect 0) = Inr (s1, os)" "src_inv s1" by blast
  then have c: "tcp_src_connect rc sock = Inr (0, s1, [])" "src_pending s1" "src_conn s1 = None" "os = []"
    using i(3) e(1) by (auto simp: src_step_def tcp_src_connect_def src_pending_def)
  have "tlsuv_stream_connect rc clt req host port =
      Inr (0, clt\<lparr>st_host := Some host, st_conn_req := Some r, st_socket := Some s1\<rparr>, [])"
    using r c(1) by (auto simp: tlsuv_stream_connect_def sock_def split: option.splits)
  with r e c(2,3) s1(2) show ?thesis
    by (simp add: stream_step_def accepted_def stream_inv_def)
qed

lemma stream_step_inv:
  assumes "stream_inv clt" and "stream_enabled clt a"
  shows "\<exists>c os. stream_step clt a = Inr (c, os) \<and> stream_inv c \<and>
    answered os @ waiting c = waiting clt @ accepted clt a"
proof (cases a)
  case (St_Connect rc req host port)
  show ?thesis
  proof (cases "accepted clt a = []")
    case True
    with St_Connect assms(1) show ?thesis
      by (auto simp: stream_step_def tlsuv_stream_connect_def accepted_def split: option.splits if_splits)
  next
    case False
    with St_Connect assms stream_connect_accepted [OF assms(1)] show ?thesis by simp
  qed
next
  case (St_Close cb)
  show ?thesis
  proof (cases "st_chained clt")
    case True
    with St_Close assms(1) show ?thesis
      by (simp add: stream_step_def tlsuv_stream_close_def accepted_def stream_inv_def split: option.splits)
  next
    case False
    then have r: "clt\<lparr>st_chained := False, st_close_cb := cb\<rparr> = clt\<lparr>st_close_cb := cb\<rparr>" by (cases clt) simp
    have "case st_socket clt of None \<Rightarrow> True | Some sock \<Rightarrow> st_chained clt \<longrightarrow> src_enabled sock Src_Release"
      using False by (simp split: option.splits)
    then show ?thesis using on_mbed_close_result [OF assms(1), of cb, unfolded r] False St_Close
      by (simp add: stream_step_def tlsuv_stream_close_def accepted_def)
  qed
next
  case (St_Uv sa)
  with stream_step_uv [OF assms(1)] assms(2) show ?thesis by (simp add: accepted_def)
next
  case (St_Handshake st)
  with assms show ?thesis
    by (auto simp: stream_step_def on_tls_hs_def accepted_def stream_enabled_def stream_inv_def split: option.splits)
next
  case St_Chain_Closed
  have "clt\<lparr>st_chained := False, st_close_cb := st_close_cb clt\<rparr> = clt\<lparr>st_chained := False\<rparr>" by (cases clt) simp
  moreover have "case st_socket clt of None \<Rightarrow> True | Some sock \<Rightarrow> st_chained clt \<longrightarrow> src_enabled sock Src_Release"
    using assms(2) St_Chain_Closed by (simp add: stream_enabled_def split: option.splits)
  ultimately show ?thesis using on_mbed_close_result [OF assms(1), of "st_close_cb clt"] St_Chain_Closed
    by (simp add: stream_step_def accepted_def)
qed

lemma stream_inv_init: "stream_inv tlsuv_stream_init"
  by (simp add: stream_inv_def tlsuv_stream_init_def src_inv_init) (simp add: tcp_src_init_def src_pending_def)

lemma stream_trace_inv:
  assumes "stream_trace s rs tr s'" and "stream_inv s" and "st_conn_req s = None"
  shows "stream_inv s' \<and> answered tr @ waiting s' = rs"
  using assms
proof (induction rule: stream_trace.induct)
  case (stream_nil s)
  then show ?case by simp
next
  case (stream_snoc s rs tr s1 a s2 os)
  then have i: "stream_inv s1" "answered tr @ waiting s1 = rs" by simp_all
  from stream_step_inv [OF i(1) stream_snoc.hyps(2)] stream_snoc.hyps(3)
  have "stream_inv s2" "answered os @ waiting s2 = waiting s1 @ accepted s1 a" by simp_all
  then show ?case using i(2) by (metis answered_simps(2) append_assoc)
qed

section \<open>Defects\<close>

text \<open>
  A connect whose name resolution cannot be started returns the error and keeps the request: every
  later connect is refused, as long as the stream is not closed.
\<close>

lemma failed_connect_blocks_stream:
  assumes "st_conn_req clt = None" and "0 < port \<and> port \<le> 65535" and "rc \<noteq> 0" and "st_socket clt = Some tcp_src_init"
  shows "\<exists>c. tlsuv_stream_connect rc clt (Some r) host port = Inr (rc, c, []) \<and>
    (\<forall>rc' r' host' port'. 0 < port' \<and> port' \<le> 65535 \<longrightarrow>
       tlsuv_stream_connect rc' c (Some r') host' port' = Inr (UV_EALREADY, c, []))"
  using assms by (simp add: tlsuv_stream_connect_def tcp_src_connect_def tcp_src_init_def)

section \<open>Properties\<close>



end
