(* ===== verification/Ossl_Engine.thy ===== *)
theory Ossl_Engine
  imports Tls_Link
begin

text \<open>
  The OpenSSL engine of \<open>src/openssl/engine.c\<close>: how the library is driven through two memory BIOs, which
  are queues of bytes. The library is a parameter: a call of it reads from the front of the input
  queue and appends to the output queue, so it is given the input and returns what is left of it and
  the bytes it sends. Memory for the queues is assumed.
\<close>

section \<open>The library\<close>

datatype ossl_state = TLS_ST_BEFORE | TLS_ST_OK | TLS_ST_OTHER nat

record 's ossl_lib =
  SSL_get_state :: "'s \<Rightarrow> ossl_state"
  SSL_do_handshake :: "'s \<Rightarrow> byte list \<Rightarrow> int \<times> 's \<times> byte list \<times> byte list"
  SSL_read_ex :: "'s \<Rightarrow> byte list \<Rightarrow> nat \<Rightarrow> bool \<times> byte list \<times> 's \<times> byte list \<times> byte list"
  SSL_write_ex :: "'s \<Rightarrow> byte list \<Rightarrow> byte list \<Rightarrow> bool \<times> nat \<times> 's \<times> byte list \<times> byte list"
  SSL_shutdown :: "'s \<Rightarrow> byte list \<Rightarrow> int \<times> 's \<times> byte list \<times> byte list"
  SSL_get_error :: "'s \<Rightarrow> int \<Rightarrow> int"
  SSL_get_shutdown :: "'s \<Rightarrow> int"
  SSL_pending :: "'s \<Rightarrow> nat"
  SSL_clear :: "'s \<Rightarrow> bool \<times> 's"
  SSL_get0_alpn_selected :: "'s \<Rightarrow> string"
  ERR_get_error :: "'s \<Rightarrow> nat"

definition SSL_ERROR_NONE :: int where "SSL_ERROR_NONE = 0"
definition SSL_ERROR_WANT_READ :: int where "SSL_ERROR_WANT_READ = 2"
definition SSL_ERROR_WANT_WRITE :: int where "SSL_ERROR_WANT_WRITE = 3"

named_theorems ossl_codes \<open>the numeric values of the library's errors\<close>

declare SSL_ERROR_NONE_def [ossl_codes] SSL_ERROR_WANT_READ_def [ossl_codes] SSL_ERROR_WANT_WRITE_def [ossl_codes]

section \<open>The engine\<close>

record 's openssl_engine =
  oe_ssl :: 's
  oe_alpn :: "string option"
  oe_in :: "byte list"
  oe_out :: "byte list"
  oe_error :: nat

text \<open>A length passed as a C \<open>int\<close>; the BIO functions do nothing for a negative one.\<close>

definition int_len :: "nat \<Rightarrow> nat" where
  "int_len n = nat (to_c_int (of_nat n))"

definition ossl_put :: "byte list \<Rightarrow> byte list \<Rightarrow> byte list" where
  "ossl_put bio buf = bio @ take (int_len (length buf)) buf"

definition new_openssl_engine :: "'s \<Rightarrow> 's openssl_engine" where
  "new_openssl_engine ssl = \<lparr>oe_ssl = ssl, oe_alpn = None, oe_in = [], oe_out = [], oe_error = 0\<rparr>"

definition ossl_hs_state :: "'s ossl_lib \<Rightarrow> 's openssl_engine \<Rightarrow> tls_handshake_state" where
  "ossl_hs_state lib eng =
     (case SSL_get_state lib (oe_ssl eng) of
        TLS_ST_OK \<Rightarrow> TLS_HS_COMPLETE
      | TLS_ST_BEFORE \<Rightarrow> TLS_HS_BEFORE
      | TLS_ST_OTHER n \<Rightarrow> TLS_HS_CONTINUE)"

text \<open>The bytes for the peer are taken from the output queue, at most \<open>maxout\<close> of them.\<close>

definition ossl_take_out :: "'s openssl_engine \<Rightarrow> nat \<Rightarrow> byte list \<times> 's openssl_engine" where
  "ossl_take_out eng maxout =
     (if oe_out eng \<noteq> [] then (take (int_len maxout) (oe_out eng), eng\<lparr>oe_out := drop (int_len maxout) (oe_out eng)\<rparr>)
      else ([], eng))"

definition ossl_continue_hs ::
  "'s ossl_lib \<Rightarrow> 's openssl_engine \<Rightarrow> byte list \<Rightarrow> nat \<Rightarrow> ub + tls_handshake_state \<times> byte list \<times> 's openssl_engine" where
  "ossl_continue_hs lib eng inp maxout =
     (let eng1 = (if inp \<noteq> [] then eng\<lparr>oe_in := ossl_put (oe_in eng) inp\<rparr> else eng);
          (rc, s, w, sent) = SSL_do_handshake lib (oe_ssl eng1) (oe_in eng1);
          (out, eng2) = ossl_take_out (eng1\<lparr>oe_ssl := s, oe_in := w, oe_out := oe_out eng1 @ sent\<rparr>) maxout
      in if rc = 1 then Inr (TLS_HS_COMPLETE, out, eng2)
         else
           (let err = SSL_get_error lib s rc
            in if rc = 0 then Inr (TLS_HS_ERROR, out, eng2\<lparr>oe_error := ERR_get_error lib s\<rparr>)
               else if err = SSL_ERROR_WANT_READ \<or> err = SSL_ERROR_WANT_WRITE then Inr (TLS_HS_CONTINUE, out, eng2)
               else Inr (TLS_HS_ERROR, out, eng2\<lparr>oe_error := ERR_get_error lib s\<rparr>)))"

text \<open>The name is copied up to a zero byte.\<close>

definition ossl_get_alpn :: "'s ossl_lib \<Rightarrow> 's openssl_engine \<Rightarrow> string option \<times> 's openssl_engine" where
  "ossl_get_alpn lib eng =
     (let a = takeWhile (\<lambda>c. c \<noteq> CHR 0x00) (SSL_get0_alpn_selected lib (oe_ssl eng))
      in (Some a, eng\<lparr>oe_alpn := Some a\<rparr>))"

text \<open>
  The loop of \<open>tls_write\<close>; the first component of the result tells whether all data were taken. It does
  not end when the library reports success without taking anything.
\<close>

partial_function (option) ossl_write_loop ::
  "'s ossl_lib \<Rightarrow> 's openssl_engine \<Rightarrow> byte list \<Rightarrow> (bool \<times> 's openssl_engine) option" where
  "ossl_write_loop lib eng data =
     (if data = [] then Some (True, eng)
      else
        (let (ok, n, s, w, sent) = SSL_write_ex lib (oe_ssl eng) (oe_in eng) data;
             eng1 = eng\<lparr>oe_ssl := s, oe_in := w, oe_out := oe_out eng @ sent\<rparr>
         in if \<not> ok then Some (False, eng1\<lparr>oe_error := ERR_get_error lib s\<rparr>)
            else ossl_write_loop lib eng1 (drop n data)))"

declare ossl_write_loop.simps [code]

definition ossl_write ::
  "'s ossl_lib \<Rightarrow> 's openssl_engine \<Rightarrow> byte list \<Rightarrow> nat \<Rightarrow> ub + int \<times> byte list \<times> 's openssl_engine" where
  "ossl_write lib eng data maxout =
     (case ossl_write_loop lib eng data of
        None \<Rightarrow> Inl Endless_Loop
      | Some (ok, eng1) \<Rightarrow>
          if \<not> ok then Inr (-1, [], eng1)
          else (let (out, eng2) = ossl_take_out eng1 maxout
                in Inr (to_c_int (of_nat (length (oe_out eng2))), out, eng2)))"

text \<open>
  The loop of \<open>tls_read\<close> with \<open>room\<close> bytes left in the caller's buffer; the result has the library's error.
\<close>

partial_function (option) ossl_read_loop ::
  "'s ossl_lib \<Rightarrow> 's openssl_engine \<Rightarrow> nat \<Rightarrow> byte list \<Rightarrow> (ub + int \<times> byte list \<times> 's openssl_engine) option" where
  "ossl_read_loop lib eng room out =
     (if room = 0 then Some (Inr (SSL_ERROR_NONE, out, eng))
      else
        (let (ok, data, s, w, sent) = SSL_read_ex lib (oe_ssl eng) (oe_in eng) room;
             eng1 = eng\<lparr>oe_ssl := s, oe_in := w, oe_out := oe_out eng @ sent\<rparr>
         in if \<not> ok then Some (Inr (SSL_get_error lib s 0, out, eng1))
            else if length data > room then Some (Inl Out_Of_Bounds_Write)
            else ossl_read_loop lib eng1 (room - length data) (out @ data)))"

declare ossl_read_loop.simps [code]

definition ossl_read_result :: "'s ossl_lib \<Rightarrow> int \<Rightarrow> 's openssl_engine \<Rightarrow> int \<times> 's openssl_engine" where
  "ossl_read_result lib err eng =
     (if err = SSL_ERROR_WANT_READ then (if oe_out eng \<noteq> [] then TLS_HAS_WRITE else TLS_OK, eng)
      else if SSL_get_shutdown lib (oe_ssl eng) \<noteq> 0 then (TLS_EOF, eng)
      else if err \<noteq> SSL_ERROR_NONE then (TLS_ERR, eng\<lparr>oe_error := ERR_get_error lib (oe_ssl eng)\<rparr>)
      else if oe_in eng \<noteq> [] \<or> SSL_pending lib (oe_ssl eng) \<noteq> 0 then (TLS_MORE_AVAILABLE, eng)
      else (if oe_out eng \<noteq> [] then TLS_HAS_WRITE else TLS_OK, eng))"

definition ossl_read ::
  "'s ossl_lib \<Rightarrow> 's openssl_engine \<Rightarrow> byte list \<Rightarrow> nat \<Rightarrow> ub + int \<times> byte list \<times> 's openssl_engine" where
  "ossl_read lib eng inp maxout =
     (let eng1 = (if inp \<noteq> [] then eng\<lparr>oe_in := ossl_put (oe_in eng) inp\<rparr> else eng)
      in case ossl_read_loop lib eng1 maxout [] of
           None \<Rightarrow> Inl Endless_Loop
         | Some r \<Rightarrow> ub_bind r (\<lambda>(err, out, eng2). let (rc, eng3) = ossl_read_result lib err eng2 in Inr (rc, out, eng3)))"

definition ossl_close :: "'s ossl_lib \<Rightarrow> 's openssl_engine \<Rightarrow> nat \<Rightarrow> ub + int \<times> byte list \<times> 's openssl_engine" where
  "ossl_close lib eng maxout =
     (let (rc, s, w, sent) = SSL_shutdown lib (oe_ssl eng) (oe_in eng);
          (out, eng1) = ossl_take_out (eng\<lparr>oe_ssl := s, oe_in := w, oe_out := oe_out eng @ sent\<rparr>) maxout
      in Inr (0, out, eng1))"

text \<open>A reset clears the library's connection. It does not touch the queues.\<close>

definition ossl_reset :: "'s ossl_lib \<Rightarrow> 's openssl_engine \<Rightarrow> int \<times> 's openssl_engine" where
  "ossl_reset lib eng =
     (let (ok, s) = SSL_clear lib (oe_ssl eng) in (if ok then 0 else -1, eng\<lparr>oe_ssl := s\<rparr>))"

text \<open>What is released with an engine: the library's connection with its queues, and the name.\<close>

definition ossl_free :: "'s openssl_engine \<Rightarrow> 's \<times> string option" where
  "ossl_free eng = (oe_ssl eng, oe_alpn eng)"

definition openssl_engine_api :: "'s ossl_lib \<Rightarrow> 's openssl_engine tls_engine_api" where
  "openssl_engine_api lib =
     \<lparr>handshake_state = ossl_hs_state lib, handshake = ossl_continue_hs lib, api_close = ossl_close lib,
      api_write = ossl_write lib, api_read = ossl_read lib, api_reset = Some (ossl_reset lib)\<rparr>"

section \<open>What the engine assumes of the library\<close>

text \<open>
  The documented behaviour on a connection whose handshake is over (\<open>good\<close>). \<open>dec s w\<close> is the plain text
  that the connection can still give when the input queue holds \<open>w\<close>; more input only adds to it. A
  read gives the next part of it or fails; it reports that it wants to read when there is none, and
  a connection that the peer has shut down has nothing more to give. \<open>SSL_pending\<close> is not 0 while
  processed plain text waits. A successful write takes at least one byte.
\<close>

definition ossl_read_ok ::
  "'s ossl_lib \<Rightarrow> ('s \<Rightarrow> bool) \<Rightarrow> ('s \<Rightarrow> byte list \<Rightarrow> byte list) \<Rightarrow> nat \<Rightarrow> 's \<Rightarrow> byte list \<Rightarrow> bool" where
  "ossl_read_ok lib good dec n s w \<longleftrightarrow>
     (let (ok, data, s', w', sent) = SSL_read_ex lib s w n
      in if ok then data \<noteq> [] \<and> length data \<le> n \<and> good s' \<and> dec s w = data @ dec s' w' \<and>
           (SSL_get_shutdown lib s' \<noteq> 0 \<longrightarrow> dec s' w' = [])
         else SSL_get_error lib s' 0 \<noteq> SSL_ERROR_NONE \<and>
           (SSL_get_error lib s' 0 = SSL_ERROR_WANT_READ \<longrightarrow> good s' \<and> dec s w = [] \<and> dec s' w' = []) \<and>
           (SSL_get_shutdown lib s' \<noteq> 0 \<longrightarrow> dec s w = [] \<and> dec s' w' = []))"

definition ossl_contract :: "'s ossl_lib \<Rightarrow> ('s \<Rightarrow> bool) \<Rightarrow> ('s \<Rightarrow> byte list \<Rightarrow> byte list) \<Rightarrow> bool" where
  "ossl_contract lib good dec \<longleftrightarrow>
     (\<forall>s. good s \<longrightarrow> SSL_get_state lib s = TLS_ST_OK) \<and>
     (\<forall>s w x. good s \<longrightarrow> (\<exists>y. dec s (w @ x) = dec s w @ y)) \<and>
     (\<forall>s. good s \<longrightarrow> SSL_pending lib s = 0 \<longrightarrow> dec s [] = []) \<and>
     (\<forall>s n w. good s \<longrightarrow> n > 0 \<longrightarrow> ossl_read_ok lib good dec n s w) \<and>
     (\<forall>s data w ok n s' w' sent. good s \<longrightarrow> data \<noteq> [] \<longrightarrow>
        SSL_write_ex lib s w data = (ok, n, s', w', sent) \<longrightarrow> ok \<longrightarrow> n > 0 \<and> n \<le> length data \<and> good s')"

lemma ossl_contractD:
  assumes "ossl_contract lib good dec"
  shows ossl_over: "good s \<Longrightarrow> SSL_get_state lib s = TLS_ST_OK"
    and ossl_mono: "good s \<Longrightarrow> \<exists>y. dec s (w @ x) = dec s w @ y"
    and ossl_idle: "good s \<Longrightarrow> SSL_pending lib s = 0 \<Longrightarrow> dec s [] = []"
    and ossl_read_law: "good s \<Longrightarrow> n > 0 \<Longrightarrow> ossl_read_ok lib good dec n s w"
    and ossl_write_law: "good s \<Longrightarrow> data \<noteq> [] \<Longrightarrow> SSL_write_ex lib s w data = (True, k, s', w', sent) \<Longrightarrow>
        k > 0 \<and> k \<le> length data \<and> good s'"
  using assms unfolding ossl_contract_def by (elim conjE; (simp; fail)?; metis)+

text \<open>The handshake: it returns 1 when the connection is established, and \<open>SSL_clear\<close> ends a connection.\<close>

definition ossl_hs_contract :: "'s ossl_lib \<Rightarrow> bool" where
  "ossl_hs_contract lib \<longleftrightarrow>
     (\<forall>s w. let (rc, s', w', sent) = SSL_do_handshake lib s w in rc = 1 \<longleftrightarrow> SSL_get_state lib s' = TLS_ST_OK) \<and>
     (\<forall>s. SSL_get_state lib (snd (SSL_clear lib s)) \<noteq> TLS_ST_OK)"

section \<open>Lemmas\<close>

definition ossl_ready :: "('s \<Rightarrow> bool) \<Rightarrow> 's openssl_engine \<Rightarrow> bool" where
  "ossl_ready good eng \<longleftrightarrow> good (oe_ssl eng)"

definition ossl_plain :: "('s \<Rightarrow> byte list \<Rightarrow> byte list) \<Rightarrow> 's openssl_engine \<Rightarrow> byte list" where
  "ossl_plain dec eng = dec (oe_ssl eng) (oe_in eng)"

definition ossl_more :: "('s \<Rightarrow> byte list \<Rightarrow> byte list) \<Rightarrow> 's openssl_engine \<Rightarrow> byte list \<Rightarrow> byte list" where
  "ossl_more dec eng inp = drop (length (ossl_plain dec eng)) (dec (oe_ssl eng) (ossl_put (oe_in eng) inp))"

definition ossl_enc :: "'s ossl_lib \<Rightarrow> 's openssl_engine \<Rightarrow> byte list \<Rightarrow> byte list" where
  "ossl_enc lib eng data =
     (case ossl_write_loop lib eng data of None \<Rightarrow> [] | Some (ok, eng1) \<Rightarrow> drop (length (oe_out eng)) (oe_out eng1))"

lemma int_len_small: "n < 2 ^ 31 \<Longrightarrow> int_len n = n"
  using to_c_int_small [of "of_nat n"] unat_of_nat_size_t [of n] by (simp add: int_len_def)

lemma ossl_put_small: "length buf < 2 ^ 31 \<Longrightarrow> ossl_put bio buf = bio @ buf"
  by (simp add: ossl_put_def int_len_small)

lemma ossl_put_nothing [simp]: "ossl_put bio [] = bio"
  by (simp add: ossl_put_def)

text \<open>The outcome of the read loop, for \<open>room\<close> bytes of buffer.\<close>

definition ossl_loop_ok ::
  "'s ossl_lib \<Rightarrow> ('s \<Rightarrow> bool) \<Rightarrow> ('s \<Rightarrow> byte list \<Rightarrow> byte list) \<Rightarrow> 's openssl_engine \<Rightarrow> nat \<Rightarrow> int \<Rightarrow> byte list \<Rightarrow>
     's openssl_engine \<Rightarrow> bool" where
  "ossl_loop_ok lib good dec eng room err new eng' \<longleftrightarrow>
     length new \<le> room \<and> (\<exists>rest. ossl_plain dec eng = new @ rest) \<and>
     (err = SSL_ERROR_NONE \<longrightarrow> ossl_ready good eng' \<and> length new = room \<and> ossl_plain dec eng = new @ ossl_plain dec eng') \<and>
     (err = SSL_ERROR_WANT_READ \<longrightarrow> ossl_ready good eng' \<and> new = ossl_plain dec eng \<and> ossl_plain dec eng' = []) \<and>
     (SSL_get_shutdown lib (oe_ssl eng') \<noteq> 0 \<longrightarrow> room > 0 \<longrightarrow> new = ossl_plain dec eng \<and> ossl_plain dec eng' = [])"

lemma ossl_loop_ok_step:
  assumes "ossl_loop_ok lib good dec e1 (room - length data) err new eng'" and "length data \<le> room"
    and "ossl_plain dec eng = data @ ossl_plain dec e1"
    and "room = length data \<Longrightarrow> SSL_get_shutdown lib (oe_ssl eng') \<noteq> 0 \<Longrightarrow> ossl_plain dec e1 = new \<and> ossl_plain dec eng' = []"
  shows "ossl_loop_ok lib good dec eng room err (data @ new) eng'"
  using assms by (cases "room = length data") (auto simp: ossl_loop_ok_def)

lemma ossl_read_loop_result:
  assumes "ossl_contract lib good dec" and "ossl_ready good eng"
  shows "\<exists>err new eng'. ossl_read_loop lib eng room out = Some (Inr (err, out @ new, eng')) \<and>
    ossl_loop_ok lib good dec eng room err new eng'"
  using assms(2)
proof (induction room arbitrary: eng out rule: less_induct)
  case (less room)
  show ?case
  proof (cases "room = 0")
    case True
    with less.prems show ?thesis
      by (simp add: ossl_read_loop.simps ossl_loop_ok_def ossl_codes)
  next
    case False
    obtain ok data s w sent where r: "SSL_read_ex lib (oe_ssl eng) (oe_in eng) room = (ok, data, s, w, sent)"
      by (metis prod.exhaust)
    let ?e = "eng\<lparr>oe_ssl := s, oe_in := w, oe_out := oe_out eng @ sent\<rparr>"
    have g: "good (oe_ssl eng)" using less.prems by (simp add: ossl_ready_def)
    note law = ossl_read_law [OF assms(1) g, of room "oe_in eng", unfolded ossl_read_ok_def r, simplified]
    show ?thesis
    proof (cases ok)
      case no: False
      with law False have "ossl_loop_ok lib good dec eng room (SSL_get_error lib s 0) [] ?e"
        by (simp add: ossl_loop_ok_def ossl_plain_def ossl_ready_def)
      moreover have "ossl_read_loop lib eng room out = Some (Inr (SSL_get_error lib s 0, out @ [], ?e))"
        using False no r by (subst ossl_read_loop.simps) simp
      ultimately show ?thesis by blast
    next
      case True
      with law False have l: "data \<noteq> []" "length data \<le> room" "ossl_ready good ?e"
        "ossl_plain dec eng = data @ ossl_plain dec ?e" "SSL_get_shutdown lib s \<noteq> 0 \<longrightarrow> ossl_plain dec ?e = []"
        by (simp_all add: ossl_plain_def ossl_ready_def)
      have eq: "ossl_read_loop lib eng room out = ossl_read_loop lib ?e (room - length data) (out @ data)"
        using False True r l(2) by (subst ossl_read_loop.simps) simp
      have "room - length data < room" using l(1) False by (simp add: length_greater_0_conv)
      from less.IH [OF this l(3), of "out @ data"] obtain err new e' where
        n: "ossl_read_loop lib ?e (room - length data) (out @ data) = Some (Inr (err, (out @ data) @ new, e'))"
        "ossl_loop_ok lib good dec ?e (room - length data) err new e'" by blast
      have z: "e' = ?e \<and> new = []" if "room = length data"
        using n(1) that by (auto simp: ossl_read_loop.simps)
      have "ossl_loop_ok lib good dec eng room err (data @ new) e'"
        by (rule ossl_loop_ok_step [OF n(2) l(2,4)]) (use z l(5) in simp_all)
      with eq n(1) show ?thesis by fastforce
    qed
  qed
qed

text \<open>What a read gives, by its result code.\<close>

lemma ossl_read_outcome:
  fixes inp :: "byte list"
  assumes "ossl_contract lib good dec" and "ossl_ready good eng" and "n > 0"
  defines "plaintext \<equiv> ossl_plain dec eng @ ossl_more dec eng inp"
  shows "\<exists>rc out eng'. ossl_read lib eng inp n = Inr (rc, out, eng') \<and> rc \<noteq> TLS_READ_AGAIN \<and>
    length out \<le> n \<and> (\<exists>rest. plaintext = out @ rest) \<and>
    (rc = TLS_OK \<or> rc = TLS_EOF \<longrightarrow> out = plaintext \<and> ossl_plain dec eng' = []) \<and>
    (rc = TLS_MORE_AVAILABLE \<longrightarrow> length out = n \<and> out @ ossl_plain dec eng' = plaintext) \<and>
    (rc \<noteq> TLS_EOF \<longrightarrow> rc \<noteq> TLS_ERR \<longrightarrow> ossl_ready good eng')"
proof -
  let ?e1 = "if inp \<noteq> [] then eng\<lparr>oe_in := ossl_put (oe_in eng) inp\<rparr> else eng"
  have g: "good (oe_ssl eng)" using assms(2) by (simp add: ossl_ready_def)
  have r1: "ossl_ready good ?e1" using g by (simp add: ossl_ready_def)
  obtain y where "dec (oe_ssl eng) (ossl_put (oe_in eng) inp) = ossl_plain dec eng @ y"
    using ossl_mono [OF assms(1) g] by (auto simp: ossl_plain_def ossl_put_def)
  then have p1: "ossl_plain dec ?e1 = plaintext"
    by (cases "inp = []") (simp_all add: plaintext_def ossl_more_def ossl_plain_def)
  obtain err new e2 where l: "ossl_read_loop lib ?e1 n [] = Some (Inr (err, new, e2))"
    and ok: "ossl_loop_ok lib good dec ?e1 n err new e2"
    using ossl_read_loop_result [OF assms(1) r1, of n "[]"] by auto
  note ok = ok [unfolded ossl_loop_ok_def p1]
  have idle: "ossl_plain dec e2 = []"
    if "err = SSL_ERROR_NONE" "oe_in e2 = []" "SSL_pending lib (oe_ssl e2) = 0"
    using ok that ossl_idle [OF assms(1)] by (simp add: ossl_ready_def ossl_plain_def)
  obtain rc e3 where q: "ossl_read_result lib err e2 = (rc, e3)" by fastforce
  have p3: "ossl_plain dec e3 = ossl_plain dec e2 \<and> (ossl_ready good e3 \<longleftrightarrow> ossl_ready good e2)"
    using q by (auto simp: ossl_read_result_def ossl_plain_def ossl_ready_def split: if_splits)
  have "ossl_read lib eng inp n = Inr (rc, new, e3)" using l q by (simp add: ossl_read_def)
  moreover have "rc \<noteq> TLS_READ_AGAIN" using q by (auto simp: ossl_read_result_def tls_codes split: if_splits)
  moreover have "rc = TLS_OK \<or> rc = TLS_EOF \<longrightarrow> new = plaintext \<and> ossl_plain dec e3 = []"
  proof
    assume "rc = TLS_OK \<or> rc = TLS_EOF"
    then have "err = SSL_ERROR_WANT_READ \<or> SSL_get_shutdown lib (oe_ssl e2) \<noteq> 0 \<or>
        err = SSL_ERROR_NONE \<and> oe_in e2 = [] \<and> SSL_pending lib (oe_ssl e2) = 0"
      using q by (simp add: ossl_read_result_def tls_codes split: if_splits)
    then show "new = plaintext \<and> ossl_plain dec e3 = []"
    proof (elim disjE)
      assume c: "err = SSL_ERROR_NONE \<and> oe_in e2 = [] \<and> SSL_pending lib (oe_ssl e2) = 0"
      then have "plaintext = new @ ossl_plain dec e2" using ok by simp
      with c idle p3 show ?thesis by simp
    qed (use ok p3 assms(3) in simp_all)
  qed
  moreover have "rc = TLS_MORE_AVAILABLE \<longrightarrow> length new = n \<and> new @ ossl_plain dec e3 = plaintext"
  proof
    assume "rc = TLS_MORE_AVAILABLE"
    then have "err = SSL_ERROR_NONE" using q by (simp add: ossl_read_result_def tls_codes split: if_splits)
    with ok p3 show "length new = n \<and> new @ ossl_plain dec e3 = plaintext" by metis
  qed
  moreover have "rc \<noteq> TLS_EOF \<longrightarrow> rc \<noteq> TLS_ERR \<longrightarrow> ossl_ready good e3"
  proof (intro impI)
    assume "rc \<noteq> TLS_EOF" "rc \<noteq> TLS_ERR"
    then have "err = SSL_ERROR_WANT_READ \<or> err = SSL_ERROR_NONE"
      using q by (simp add: ossl_read_result_def split: if_splits)
    with ok p3 show "ossl_ready good e3" by metis
  qed
  ultimately show ?thesis using ok by blast
qed

text \<open>The write loop ends, and what waits for the peer is only added to.\<close>

lemma ossl_write_loop_result:
  assumes "ossl_contract lib good dec" and "ossl_ready good eng"
  shows "\<exists>ok eng' x. ossl_write_loop lib eng data = Some (ok, eng') \<and> oe_out eng' = oe_out eng @ x \<and>
    (ok \<longrightarrow> ossl_ready good eng')"
  using assms(2)
proof (induction "length data" arbitrary: eng data rule: less_induct)
  case less
  show ?case
  proof (cases "data = []")
    case True
    with less.prems show ?thesis by (auto simp: ossl_write_loop.simps)
  next
    case False
    obtain ok n s w sent where r: "SSL_write_ex lib (oe_ssl eng) (oe_in eng) data = (ok, n, s, w, sent)"
      by (metis prod.exhaust)
    let ?e = "eng\<lparr>oe_ssl := s, oe_in := w, oe_out := oe_out eng @ sent\<rparr>"
    show ?thesis
    proof (cases ok)
      case False
      with \<open>data \<noteq> []\<close> r show ?thesis by (auto simp: ossl_write_loop.simps)
    next
      case True
      with r have law: "n > 0" "ossl_ready good ?e"
        using ossl_write_law [OF assms(1) _ False] less.prems by (auto simp: ossl_ready_def)
      have "length (drop n data) < length data" using law(1) False by simp
      from less.hyps [OF this law(2)] obtain ok' e' x where
        "ossl_write_loop lib ?e (drop n data) = Some (ok', e')" "oe_out e' = oe_out ?e @ x" "ok' \<longrightarrow> ossl_ready good e'"
        by blast
      moreover have "ossl_write_loop lib eng data = ossl_write_loop lib ?e (drop n data)"
        using r False True by (subst ossl_write_loop.simps) simp
      ultimately show ?thesis by simp
    qed
  qed
qed

lemma ossl_take_out_result:
  assumes "ossl_take_out eng n = (out, eng')" and "n < 2 ^ 31"
  shows "out = take n (oe_out eng) \<and> oe_out eng' = drop n (oe_out eng) \<and> oe_ssl eng' = oe_ssl eng \<and> oe_in eng' = oe_in eng"
  using assms by (auto simp: ossl_take_out_def int_len_small split: if_splits)

lemma ossl_write_result:
  assumes "ossl_contract lib good dec" and "ossl_ready good eng"
    and "length (oe_out eng @ ossl_enc lib eng data) < 2 ^ 31" and "n < 2 ^ 31"
    and "ossl_write lib eng data n = Inr (rc, out, eng')" and "rc \<ge> 0"
  shows "ossl_ready good eng' \<and> out = take n (oe_out eng @ ossl_enc lib eng data) \<and>
    oe_out eng' = drop n (oe_out eng @ ossl_enc lib eng data) \<and> rc = int (length (oe_out eng'))"
proof -
  obtain ok e1 x where w: "ossl_write_loop lib eng data = Some (ok, e1)" "oe_out e1 = oe_out eng @ x" "ok \<longrightarrow> ossl_ready good e1"
    using ossl_write_loop_result [OF assms(1,2)] by blast
  then have z: ok using assms(5,6) by (auto simp: ossl_write_def split: if_splits)
  then have t: "ossl_take_out e1 n = (out, eng')" and rc: "rc = to_c_int (of_nat (length (oe_out eng')))"
    using assms(5) w(1) by (auto simp: ossl_write_def split: prod.splits)
  have q: "oe_out eng @ ossl_enc lib eng data = oe_out e1" using w by (simp add: ossl_enc_def)
  note l = ossl_take_out_result [OF t assms(4)]
  then have "length (oe_out eng') < 2 ^ 31" using assms(3) q by simp
  then have "rc = int (length (oe_out eng'))"
    using rc to_c_int_small [of "of_nat (length (oe_out eng'))"] unat_of_nat_size_t [of "length (oe_out eng')"] by simp
  with l q w(3) z show ?thesis by (simp add: ossl_ready_def)
qed

section \<open>The engine keeps the contract of the link\<close>

lemma ossl_transport:
  assumes "ossl_contract lib good dec"
  shows "tls_transport (openssl_engine_api lib) (ossl_ready good) (ossl_plain dec) (ossl_more dec) oe_out (ossl_enc lib)"
proof (unfold_locales, goal_cases)
  case (1 e)
  then show ?case using ossl_over [OF assms] by (simp add: openssl_engine_api_def ossl_hs_state_def ossl_ready_def)
next
  case (2 e)
  show ?case by (simp add: ossl_more_def ossl_plain_def)
next
  case (3 e n inp)
  then show ?case using ossl_read_outcome [OF assms 3, of inp] by (auto simp: openssl_engine_api_def)
next
  case (4 e n inp rc out e')
  then show ?case using ossl_read_outcome [OF assms 4(1,2), of inp] by (auto simp: openssl_engine_api_def)
next
  case (5 e n inp rc out e')
  then show ?case using ossl_read_outcome [OF assms 5(1,2), of inp] by (auto simp: openssl_engine_api_def)
next
  case (6 e n inp rc out e')
  then show ?case using ossl_read_outcome [OF assms 6(1,2), of inp] by (auto simp: openssl_engine_api_def)
next
  case (7 e n inp rc out e')
  then show ?case using ossl_read_outcome [OF assms 7(1,2), of inp] by (auto simp: openssl_engine_api_def)
next
  case (8 e data n)
  obtain ok e1 where "ossl_write_loop lib e data = Some (ok, e1)"
    using ossl_write_loop_result [OF assms 8] by blast
  then show ?case by (cases ok) (simp_all add: openssl_engine_api_def ossl_write_def split: prod.splits)
next
  case (9 e data n rc out e')
  then show ?case using ossl_write_result [OF assms 9(1-3) _ 9(5)] by (simp add: openssl_engine_api_def)
next
  case (10 e)
  show ?case by (simp add: ossl_enc_def ossl_write_loop.simps)
qed

lemma ossl_handshaking:
  assumes "ossl_hs_contract lib"
  shows "tls_handshaking (openssl_engine_api lib) (\<lambda>e. True)"
proof (unfold_locales, goal_cases)
  case (1 e inp n st out e')
  let ?w = "if inp \<noteq> [] then ossl_put (oe_in e) inp else oe_in e"
  obtain rc s w sent where h: "SSL_do_handshake lib (oe_ssl e) ?w = (rc, s, w, sent)" by (metis prod.exhaust)
  have "let (rc, s', w', sent) = SSL_do_handshake lib (oe_ssl e) ?w in rc = 1 \<longleftrightarrow> SSL_get_state lib s' = TLS_ST_OK"
    using assms unfolding ossl_hs_contract_def by blast
  then have "rc = 1 \<longleftrightarrow> SSL_get_state lib s = TLS_ST_OK" by (simp only: h Let_def case_prod_conv)
  moreover have "oe_ssl e' = s" "st = TLS_HS_COMPLETE \<longleftrightarrow> rc = 1"
    using 1(3) h by (auto simp: openssl_engine_api_def ossl_continue_hs_def ossl_take_out_def Let_def
        split: prod.splits if_splits)
  ultimately show ?case by (simp add: openssl_engine_api_def ossl_hs_state_def split: ossl_state.splits)
next
  case 2
  show ?case by (simp add: openssl_engine_api_def)
next
  case (3 e reset)
  then show ?case
    using assms by (auto simp: openssl_engine_api_def ossl_reset_def ossl_hs_state_def ossl_hs_contract_def split_beta
        split: ossl_state.splits)
qed simp_all

text \<open>
  An implementation of the library that keeps the contracts: one byte each way opens the connection,
  then the data pass unchanged, at most 256 bytes at a time.
\<close>

definition plain_ossl :: "ossl_state ossl_lib" where
  "plain_ossl =
     \<lparr>SSL_get_state = (\<lambda>s. s),
      SSL_do_handshake = (\<lambda>s w. case s of
         TLS_ST_BEFORE \<Rightarrow> (-1, TLS_ST_OTHER 1, w, [22])
       | TLS_ST_OTHER k \<Rightarrow> if w = [] then (-1, s, w, []) else (1, TLS_ST_OK, tl w, [])
       | TLS_ST_OK \<Rightarrow> (1, s, w, [])),
      SSL_read_ex = (\<lambda>s w n. if w = [] then (False, [], s, [], []) else
         (True, take (min n 256) w, s, drop (min n 256) w, [])),
      SSL_write_ex = (\<lambda>s w d. (True, min (length d) 256, s, w, take 256 d)),
      SSL_shutdown = (\<lambda>s w. (1, s, w, [])),
      SSL_get_error = (\<lambda>s rc. SSL_ERROR_WANT_READ), SSL_get_shutdown = (\<lambda>s. 0), SSL_pending = (\<lambda>s. 0),
      SSL_clear = (\<lambda>s. (True, TLS_ST_BEFORE)), SSL_get0_alpn_selected = (\<lambda>s. []), ERR_get_error = (\<lambda>s. 0)\<rparr>"

definition plain_good :: "ossl_state \<Rightarrow> bool" where "plain_good s \<longleftrightarrow> s = TLS_ST_OK"

definition plain_dec :: "ossl_state \<Rightarrow> byte list \<Rightarrow> byte list" where "plain_dec s w = w"

lemma plain_ossl_contract: "ossl_contract plain_ossl plain_good plain_dec"
  unfolding ossl_contract_def
  by (auto simp: plain_ossl_def plain_good_def plain_dec_def ossl_read_ok_def ossl_codes)

lemma plain_ossl_hs: "ossl_hs_contract plain_ossl"
  by (auto simp: ossl_hs_contract_def plain_ossl_def split: ossl_state.splits)

interpretation ossl: tls_transport "openssl_engine_api plain_ossl" "ossl_ready plain_good" "ossl_plain plain_dec"
  "ossl_more plain_dec" oe_out "ossl_enc plain_ossl"
  by (rule ossl_transport [OF plain_ossl_contract])

interpretation ossl_hs: tls_handshaking "openssl_engine_api plain_ossl" "\<lambda>e. True"
  by (rule ossl_handshaking [OF plain_ossl_hs])

section \<open>Defects\<close>

text \<open>A reset leaves what the peer of the last connection sent in the queue.\<close>

lemma ossl_reset_keeps_stale_input: "oe_in (snd (ossl_reset lib eng)) = oe_in eng \<and> oe_out (snd (ossl_reset lib eng)) = oe_out eng"
  by (simp add: ossl_reset_def split_beta)

text \<open>
  Every failure of a connection that carries a shutdown flag is reported as the end of the stream: a
  fatal alert of the peer, which sets the flag, is not reported as an error.
\<close>

lemma fatal_alert_reported_as_eof:
  assumes "err \<noteq> SSL_ERROR_WANT_READ" and "SSL_get_shutdown lib (oe_ssl eng) \<noteq> 0"
  shows "ossl_read_result lib err eng = (TLS_EOF, eng)"
  using assms by (simp add: ossl_read_result_def)

text \<open>
  Asking for the protocol again overwrites the only pointer to the last answer, and without a
  protocol the answer is the empty name.
\<close>

lemma alpn_answer_leaks:
  "ossl_free (snd (ossl_get_alpn lib (snd (ossl_get_alpn lib eng)))) = ossl_free (snd (ossl_get_alpn lib eng))"
  by (simp add: ossl_get_alpn_def ossl_free_def Let_def)

section \<open>Properties\<close>



text \<open>
  No plain text before the handshake, with the OpenSSL engine: whatever the peer sends and however
  the calls interleave, a reader of the link sees data only after the handshake of this connection
  was announced as complete.
\<close>

lemma ossl_link_no_early_data:
  assumes "ossl_hs_contract lib" and "ossl_hs_state lib e \<noteq> TLS_HS_COMPLETE"
    and "link_run (openssl_engine_api lib) wrc alloc e evs = Inr (e', os)"
  shows "no_early_data False os"
  using tls_handshaking.run_no_early [OF ossl_handshaking [OF assms(1)] _ assms(3), of False] assms(2)
  by (simp add: openssl_engine_api_def)

end
