(* ===== verification/Ossl_Cert.thy ===== *)
theory Ossl_Cert
  imports Ossl_Engine
begin

text \<open>
  The TLS context of \<open>src/openssl/engine.c\<close>: trusted certificates and how the peer's certificate is judged
  against them, the client's own key and certificate, the application protocols, and certificates
  read and written. The library is a parameter; stores of certificates, certificates and private keys
  are abstract.
\<close>

section \<open>The library\<close>

datatype 'x pkcs7 = P7_Signed "'x list" | P7_Signed_And_Enveloped "'x list" | P7_Other

text \<open>
  \<open>pem_certs\<close> is the sequence of certificates that repeated reads of a PEM text give, \<open>verify_cert\<close> the
  result of \<open>X509_verify_cert\<close> for a store, a certificate and the untrusted certificates of the peer,
  \<open>use_private_key\<close> and \<open>check_private_key\<close> whether a key can be set next to the certificate of a context and
  whether the two belong together, \<open>key_certificate\<close> the certificate that a token keeps with a key. \<open>api_level\<close> is the version of
  the library, \<open>subject_issuer_cmp\<close> compares the names of subject and issuer, and \<open>X509_verify_own\<close> checks the signature of a
  certificate with its own key; these checks return 1, 0, or -1 on an error.
\<close>

record ('x, 'st, 'k) x509_lib =
  store_new :: 'st
  store_add :: "'st \<Rightarrow> 'x \<Rightarrow> 'st"
  store_objects :: "'st \<Rightarrow> 'x list"
  load_locations :: "'st \<Rightarrow> string \<Rightarrow> 'st"
  api_level :: int
  X509_self_signed :: "'x \<Rightarrow> int"
  subject_issuer_cmp :: "'x \<Rightarrow> int"
  X509_verify_own :: "'x \<Rightarrow> int"
  verify_cert :: "'st \<Rightarrow> 'x \<Rightarrow> 'x list \<Rightarrow> int"
  pem_certs :: "string \<Rightarrow> 'x list"
  pem_of_cert :: "'x \<Rightarrow> string"
  d2i_pkcs7 :: "string \<Rightarrow> 'x pkcs7 option"
  use_private_key :: "'x option \<Rightarrow> 'k \<Rightarrow> bool"
  check_private_key :: "'x option \<Rightarrow> 'k option \<Rightarrow> bool"
  key_certificate :: "'k \<Rightarrow> 'st option"

text \<open>The file system, as far as it is asked: a path names a regular file or something else.\<close>

datatype disk_file = Regular_File string | Other_File

type_synonym files = "string \<Rightarrow> disk_file option"

section \<open>The context\<close>

datatype verify_cb = No_Verify_Cb | Verify_Peer_Cb

text \<open>The settings of an \<open>SSL_CTX\<close>.\<close>

record ('x, 'st, 'k) ssl_ctx =
  sc_store :: "'st option"
  sc_default_paths :: bool
  sc_cert :: "'x option"
  sc_chain :: "'st option"
  sc_key :: "'k option"
  sc_verify :: verify_cb
  sc_cert_verify :: bool
  sc_min_version :: nat
  sc_max_version :: nat
  sc_debug :: bool

record ('x, 'st, 'k) openssl_ctx =
  c_ctx :: "('x, 'st, 'k) ssl_ctx"
  c_own_key :: "'k option"
  c_own_cert :: "'x option"
  c_cert_verify_f :: "('st \<Rightarrow> int) option"
  c_alpn_protocols :: "byte list option"
  c_ca_chains :: "'st list"

definition TLS1_2_VERSION :: nat where "TLS1_2_VERSION = 0x0303"
definition TLS1_3_VERSION :: nat where "TLS1_3_VERSION = 0x0304"

section \<open>Trusted certificates\<close>

definition load_certs :: "('x, 'st, 'k) x509_lib \<Rightarrow> files \<Rightarrow> string \<Rightarrow> 'st" where
  "load_certs lib fs buf =
     (case fs buf of
        Some (Regular_File txt) \<Rightarrow> load_locations lib (store_new lib) txt
      | Some Other_File \<Rightarrow> store_new lib
      | None \<Rightarrow> foldl (store_add lib) (store_new lib) (pem_certs lib (take (int_len (length buf)) buf)))"

text \<open>Only the first certificate of a file or PEM text is taken; \<open>None\<close> when there is none.\<close>

definition load_cert :: "('x, 'st, 'k) x509_lib \<Rightarrow> files \<Rightarrow> string \<Rightarrow> int \<times> 'st option" where
  "load_cert lib fs buf =
     (let cs = (case fs buf of
                  Some (Regular_File txt) \<Rightarrow> pem_certs lib txt
                | Some Other_File \<Rightarrow> []
                | None \<Rightarrow> pem_certs lib (take (int_len (length buf)) buf))
      in case cs of [] \<Rightarrow> (-1, None) | c # _ \<Rightarrow> (0, Some (store_add lib (store_new lib) c)))"

definition is_self_signed :: "('x, 'st, 'k) x509_lib \<Rightarrow> 'x \<Rightarrow> int" where
  "is_self_signed lib cert =
     (if api_level lib \<ge> 30000 then X509_self_signed lib cert
      else if subject_issuer_cmp lib cert \<noteq> 0 then 0
      else X509_verify_own lib cert)"

text \<open>The condition in \<open>process_chains\<close>.\<close>

definition self_signed :: "('x, 'st, 'k) x509_lib \<Rightarrow> 'x \<Rightarrow> bool" where
  "self_signed lib cert \<longleftrightarrow> is_self_signed lib cert \<noteq> 0"

text \<open>
  \<open>process_chains\<close> splits a bundle into one store for each self-signed certificate, the last one first,
  and adds every other certificate to the first store that verifies it, in at most three passes.
\<close>

primrec place_cert :: "('x, 'st, 'k) x509_lib \<Rightarrow> 'st list \<Rightarrow> 'x \<Rightarrow> 'st list option" where
  "place_cert lib [] c = None"
| "place_cert lib (s # ss) c =
     (if verify_cert lib s c [] = 1 then Some (store_add lib s c # ss)
      else map_option ((#) s) (place_cert lib ss c))"

primrec place_pass :: "('x, 'st, 'k) x509_lib \<Rightarrow> 'st list \<Rightarrow> 'x list \<Rightarrow> 'st list \<times> 'x list" where
  "place_pass lib stores [] = (stores, [])"
| "place_pass lib stores (c # cs) =
     (case place_cert lib stores c of
        Some stores1 \<Rightarrow> place_pass lib stores1 cs
      | None \<Rightarrow> (let (stores1, rest) = place_pass lib stores cs in (stores1, c # rest)))"

primrec place_tries :: "('x, 'st, 'k) x509_lib \<Rightarrow> nat \<Rightarrow> 'st list \<Rightarrow> 'x list \<Rightarrow> 'st list \<times> 'x list" where
  "place_tries lib 0 stores mids = (stores, mids)"
| "place_tries lib (Suc tries) stores mids =
     (if mids = [] then (stores, mids)
      else (let (stores1, mids1) = place_pass lib stores mids in place_tries lib tries stores1 mids1))"

text \<open>The stores, and the certificates that found no place.\<close>

definition process_chains :: "('x, 'st, 'k) x509_lib \<Rightarrow> 'st \<Rightarrow> 'st list \<times> 'x list" where
  "process_chains lib store =
     (let objects = store_objects lib store;
          roots = filter (self_signed lib) objects;
          mids = filter (\<lambda>c. \<not> self_signed lib c) objects;
          stores = map (store_add lib (store_new lib)) (rev roots)
      in place_tries lib 3 stores mids)"

text \<open>\<open>debug\<close> tells whether \<open>TLS_DEBUG\<close> is set.\<close>

definition init_ssl_context ::
  "('x, 'st, 'k) x509_lib \<Rightarrow> files \<Rightarrow> bool \<Rightarrow> string option \<Rightarrow> ('x, 'st, 'k) openssl_ctx" where
  "init_ssl_context lib fs debug cabuf =
     (let ca = map_option (load_certs lib fs) cabuf;
          chains = (case ca of None \<Rightarrow> [] | Some st \<Rightarrow> fst (process_chains lib st));
          ctx = \<lparr>sc_store = ca, sc_default_paths = (ca = None), sc_cert = None, sc_chain = None, sc_key = None,
                 sc_verify = Verify_Peer_Cb, sc_cert_verify = False, sc_min_version = TLS1_2_VERSION,
                 sc_max_version = TLS1_3_VERSION, sc_debug = debug\<rparr>
      in \<lparr>c_ctx = ctx, c_own_key = None, c_own_cert = None, c_cert_verify_f = None, c_alpn_protocols = None,
          c_ca_chains = chains\<rparr>)"

text \<open>
  The callback of the library for every failed and passed check of the peer's chain: \<open>c\<close> is the
  certificate the check is about.
\<close>

fun verify_peer_loop :: "('x, 'st, 'k) x509_lib \<Rightarrow> 'st list \<Rightarrow> 'x \<Rightarrow> 'x list \<Rightarrow> int" where
  "verify_peer_loop lib [] c untrusted = 0"
| "verify_peer_loop lib (s # ss) c untrusted =
     (if verify_cert lib s c untrusted \<noteq> 0 then 1 else verify_peer_loop lib ss c untrusted)"

definition verify_peer_cb :: "('x, 'st, 'k) x509_lib \<Rightarrow> ('x, 'st, 'k) openssl_ctx \<Rightarrow> int \<Rightarrow> 'x \<Rightarrow> 'x list \<Rightarrow> int" where
  "verify_peer_cb lib ctx pre_verify c untrusted =
     (if pre_verify = 1 then 1 else verify_peer_loop lib (c_ca_chains ctx) c untrusted)"

text \<open>With a verification function of the application, which gets a store with the peer's certificate.\<close>

definition cert_verify_cb :: "('x, 'st, 'k) x509_lib \<Rightarrow> ('x, 'st, 'k) openssl_ctx \<Rightarrow> 'x \<Rightarrow> int" where
  "cert_verify_cb lib c crt =
     (let store = store_add lib (store_new lib) crt
      in case c_cert_verify_f c of None \<Rightarrow> 1 | Some f \<Rightarrow> if f store \<noteq> 0 then 0 else 1)"

definition tls_set_cert_verify ::
  "('x, 'st, 'k) openssl_ctx \<Rightarrow> ('st \<Rightarrow> int) option \<Rightarrow> ('x, 'st, 'k) openssl_ctx" where
  "tls_set_cert_verify c f =
     c\<lparr>c_cert_verify_f := f, c_ctx := (c_ctx c)\<lparr>sc_verify := No_Verify_Cb, sc_cert_verify := True\<rparr>\<rparr>"

section \<open>Own key and certificate\<close>

text \<open>The first certificate of a store becomes the own one, the others its chain.\<close>

definition tls_set_cert_internal ::
  "('x, 'st, 'k) x509_lib \<Rightarrow> ('x, 'st, 'k) ssl_ctx \<Rightarrow> 'st \<Rightarrow> 'x option \<times> ('x, 'st, 'k) ssl_ctx" where
  "tls_set_cert_internal lib ssl store =
     (case store_objects lib store of
        [] \<Rightarrow> (None, ssl)
      | crt # rest \<Rightarrow>
          (let ssl1 = ssl\<lparr>sc_cert := Some crt\<rparr>
           in (Some crt, if rest = [] then ssl1
                         else ssl1\<lparr>sc_chain := Some (foldl (store_add lib) (store_new lib) rest)\<rparr>)))"

text \<open>The last component lists the keys that are released.\<close>

definition tls_set_own_key ::
  "('x, 'st, 'k) x509_lib \<Rightarrow> ('x, 'st, 'k) openssl_ctx \<Rightarrow> 'k option \<Rightarrow>
     ub + int \<times> ('x, 'st, 'k) openssl_ctx \<times> 'k list" where
  "tls_set_own_key lib c key =
     (case key of
        None \<Rightarrow> Inl Null_Deref
      | Some k \<Rightarrow>
          (let freed = (case c_own_key c of None \<Rightarrow> [] | Some old \<Rightarrow> [old]);
               c1 = c\<lparr>c_own_key := Some k\<rparr>
           in if \<not> use_private_key lib (sc_cert (c_ctx c1)) k then Inr (TLS_ERR, c1, freed)
              else
                (let ssl = (c_ctx c1)\<lparr>sc_key := Some k\<rparr>; c2 = c1\<lparr>c_ctx := ssl\<rparr>;
                     c3 = (case key_certificate lib k of
                             None \<Rightarrow> c2
                           | Some st \<Rightarrow> (let (crt, ssl1) = tls_set_cert_internal lib ssl st
                                         in c2\<lparr>c_own_cert := crt, c_ctx := ssl1\<rparr>))
                 in if c_own_cert c3 \<noteq> None \<and> \<not> check_private_key lib (sc_cert (c_ctx c3)) (sc_key (c_ctx c3))
                    then Inr (TLS_ERR, c3, freed) else Inr (0, c3, freed))))"

definition tls_set_own_cert ::
  "('x, 'st, 'k) x509_lib \<Rightarrow> files \<Rightarrow> ('x, 'st, 'k) openssl_ctx \<Rightarrow> string \<Rightarrow> int \<times> ('x, 'st, 'k) openssl_ctx" where
  "tls_set_own_cert lib fs c buf =
     (let (crt, ssl) = tls_set_cert_internal lib (c_ctx c) (load_certs lib fs buf);
          c1 = c\<lparr>c_own_cert := crt, c_ctx := ssl\<rparr>
      in case c_own_key c1 of
           Some k \<Rightarrow> if \<not> check_private_key lib (sc_cert ssl) (sc_key ssl) then (TLS_ERR, c1) else (0, c1)
         | None \<Rightarrow> (0, c1))"

section \<open>Application protocols\<close>

text \<open>Each name after a byte with its length, and a zero byte at the end.\<close>

definition alpn_entry :: "byte list \<Rightarrow> byte list" where
  "alpn_entry p = of_nat (length p) # p"

definition tls_set_alpn_protocols ::
  "('x, 'st, 'k) openssl_ctx \<Rightarrow> byte list list \<Rightarrow> ('x, 'st, 'k) openssl_ctx" where
  "tls_set_alpn_protocols c protos = c\<lparr>c_alpn_protocols := Some (concat (map alpn_entry protos) @ [0])\<rparr>"

text \<open>What a new engine offers: the bytes up to the first zero byte.\<close>

definition engine_alpn :: "('x, 'st, 'k) openssl_ctx \<Rightarrow> byte list option" where
  "engine_alpn c = map_option (takeWhile (\<lambda>b. b \<noteq> 0)) (c_alpn_protocols c)"

section \<open>Certificates read and written\<close>

definition parse_pkcs7_certs :: "('x, 'st, 'k) x509_lib \<Rightarrow> string \<Rightarrow> ub + int \<times> 'st option" where
  "parse_pkcs7_certs lib buf =
     (case d2i_pkcs7 lib (take (int_len (length buf)) buf) of
        None \<Rightarrow> Inl Null_Deref
      | Some (P7_Signed certs) \<Rightarrow> Inr (0, Some (foldl (store_add lib) (store_new lib) certs))
      | Some (P7_Signed_And_Enveloped certs) \<Rightarrow> Inr (0, Some (foldl (store_add lib) (store_new lib) certs))
      | Some P7_Other \<Rightarrow> Inr (-1, None))"

definition write_cert_pem :: "('x, 'st, 'k) x509_lib \<Rightarrow> 'st \<Rightarrow> bool \<Rightarrow> int \<times> string \<times> nat" where
  "write_cert_pem lib store full_chain =
     (let pem = concat (map (pem_of_cert lib) (store_objects lib store)) in (0, pem, length pem))"

definition tls_free_cert :: "'st option \<Rightarrow> 'st list \<times> 'st option" where
  "tls_free_cert cert = (case cert of None \<Rightarrow> [] | Some s \<Rightarrow> [s], None)"

text \<open>What is released with a context: the protocols, the key and the stores of the chains.\<close>

definition tls_free_ctx :: "('x, 'st, 'k) openssl_ctx \<Rightarrow> byte list option \<times> 'k option \<times> 'st list" where
  "tls_free_ctx c = (c_alpn_protocols c, c_own_key c, c_ca_chains c)"

text \<open>
  A signing request. The names and values of the subject are the arguments up to the first null
  pointer; \<open>err\<close> is the library's last error, which is what a failed step returns. The caller's
  \<open>pemlen\<close> is not written.
\<close>

fun csr_subject :: "string option list \<Rightarrow> (string \<times> string) list" where
  "csr_subject (Some name # Some val # args) = (name, val) # csr_subject args"
| "csr_subject _ = []"

definition generate_csr ::
  "int \<Rightarrow> bool \<Rightarrow> ((string \<times> string) list \<Rightarrow> 'r option) \<Rightarrow> ('r \<Rightarrow> string option) \<Rightarrow> string option list \<Rightarrow> nat \<Rightarrow>
     int \<times> string option \<times> nat" where
  "generate_csr err set_pubkey sign write_pem args pemlen =
     (let (ret, b) = (if \<not> set_pubkey then (err, [])
                      else case sign (csr_subject args) of
                             None \<Rightarrow> (err, [])
                           | Some req \<Rightarrow> (case write_pem req of None \<Rightarrow> (err, []) | Some p \<Rightarrow> (0, p)))
      in if ret \<noteq> 0 then (ret, None, pemlen) else (ret, Some b, pemlen))"

section \<open>Lemmas\<close>

text \<open>
  A store that is built on the self-signed certificate \<open>root\<close>: every other certificate in it verified
  against what was there before.
\<close>

inductive rooted :: "('x, 'st, 'k) x509_lib \<Rightarrow> 'x set \<Rightarrow> 'x \<Rightarrow> 'st \<Rightarrow> bool" for lib objs where
  rooted_root: "self_signed lib r \<Longrightarrow> r \<in> objs \<Longrightarrow> rooted lib objs r (store_add lib (store_new lib) r)"
| rooted_add: "rooted lib objs r s \<Longrightarrow> c \<in> objs \<Longrightarrow> verify_cert lib s c [] = 1 \<Longrightarrow> rooted lib objs r (store_add lib s c)"

abbreviation stores_rooted :: "('x, 'st, 'k) x509_lib \<Rightarrow> 'x set \<Rightarrow> 'x list \<Rightarrow> 'st list \<Rightarrow> bool" where
  "stores_rooted lib objs roots stores \<equiv> list_all2 (rooted lib objs) roots stores"

lemma place_cert_rooted:
  assumes "stores_rooted lib objs roots stores" and "c \<in> objs" and "place_cert lib stores c = Some stores1"
  shows "stores_rooted lib objs roots stores1"
  using assms
proof (induction roots stores arbitrary: stores1 rule: list_all2_induct)
  case Nil
  then show ?case by simp
next
  case (Cons r roots s stores)
  then show ?case by (auto split: if_splits intro: rooted_add)
qed

lemma place_pass_rooted:
  assumes "stores_rooted lib objs roots stores" and "set cs \<subseteq> objs" and "place_pass lib stores cs = (stores1, rest)"
  shows "stores_rooted lib objs roots stores1 \<and> set rest \<subseteq> set cs"
  using assms
proof (induction cs arbitrary: stores rest)
  case Nil
  then show ?case by simp
next
  case (Cons c cs)
  show ?case
  proof (cases "place_cert lib stores c")
    case None
    then obtain rest1 where "place_pass lib stores cs = (stores1, rest1)" "rest = c # rest1"
      using Cons.prems(3) by (auto split: prod.splits)
    with Cons.IH [OF Cons.prems(1)] Cons.prems(2) show ?thesis by auto
  next
    case (Some st)
    have "stores_rooted lib objs roots st" using place_cert_rooted [OF Cons.prems(1) _ Some] Cons.prems(2) by simp
    with Cons.IH [of st rest] Cons.prems(2,3) Some show ?thesis by auto
  qed
qed

lemma place_tries_rooted:
  assumes "stores_rooted lib objs roots stores" and "set mids \<subseteq> objs"
    and "place_tries lib n stores mids = (stores1, rest)"
  shows "stores_rooted lib objs roots stores1 \<and> set rest \<subseteq> set mids"
  using assms
proof (induction n arbitrary: stores mids)
  case 0
  then show ?case by simp
next
  case (Suc n)
  show ?case
  proof (cases "mids = []")
    case True
    with Suc.prems show ?thesis by simp
  next
    case False
    obtain st i1 where p: "place_pass lib stores mids = (st, i1)" by fastforce
    note q = place_pass_rooted [OF Suc.prems(1,2) p]
    have t: "place_tries lib n st i1 = (stores1, rest)" using Suc.prems(3) False p by simp
    have "stores_rooted lib objs roots st" "set i1 \<subseteq> objs" using q Suc.prems(2) by auto
    from Suc.IH [OF this t] q show ?thesis by blast
  qed
qed

lemma process_chains_rooted:
  assumes "process_chains lib store = (stores, rest)"
  shows "stores_rooted lib (set (store_objects lib store)) (rev (filter (self_signed lib) (store_objects lib store))) stores"
proof -
  let ?objs = "store_objects lib store"
  let ?roots = "rev (filter (self_signed lib) ?objs)"
  have i: "stores_rooted lib (set ?objs) ?roots (map (store_add lib (store_new lib)) ?roots)"
    by (auto simp: list.rel_map intro!: list.rel_refl_strong rooted_root)
  have s: "set (filter (\<lambda>c. \<not> self_signed lib c) ?objs) \<subseteq> set ?objs" by auto
  show ?thesis
    using place_tries_rooted [OF i s assms [unfolded process_chains_def Let_def]] by (rule conjunct1)
qed

text \<open>Every certificate of a bundle ends in a store or is left over.\<close>

definition store_laws :: "('x, 'st, 'k) x509_lib \<Rightarrow> bool" where
  "store_laws lib \<longleftrightarrow> store_objects lib (store_new lib) = [] \<and>
     (\<forall>s c. set (store_objects lib (store_add lib s c)) = insert c (set (store_objects lib s)))"

abbreviation stored :: "('x, 'st, 'k) x509_lib \<Rightarrow> 'st list \<Rightarrow> 'x set" where
  "stored lib stores \<equiv> (\<Union>s \<in> set stores. set (store_objects lib s))"

lemma place_cert_stored:
  assumes "store_laws lib" and "place_cert lib stores c = Some stores1"
  shows "stored lib stores1 = insert c (stored lib stores)"
  using assms(2)
proof (induction stores arbitrary: stores1)
  case (Cons s ss)
  show ?case
  proof (cases "verify_cert lib s c [] = 1")
    case True
    with Cons.prems assms(1) show ?thesis by (auto simp: store_laws_def)
  next
    case False
    then obtain ss1 where "place_cert lib ss c = Some ss1" "stores1 = s # ss1" using Cons.prems by auto
    with Cons.IH show ?thesis by auto
  qed
qed simp

lemma place_pass_stored:
  assumes "store_laws lib" and "place_pass lib stores cs = (stores1, rest)"
  shows "stored lib stores1 \<union> set rest = stored lib stores \<union> set cs"
  using assms(2)
proof (induction cs arbitrary: stores rest)
  case (Cons c cs)
  show ?case
  proof (cases "place_cert lib stores c")
    case None
    then obtain rest1 where "place_pass lib stores cs = (stores1, rest1)" "rest = c # rest1"
      using Cons.prems by (auto split: prod.splits)
    with Cons.IH show ?thesis by auto
  next
    case (Some st)
    with Cons.IH [of st rest] Cons.prems place_cert_stored [OF assms(1) Some] show ?thesis by auto
  qed
qed auto

lemma place_tries_stored:
  assumes "store_laws lib" and "place_tries lib n stores mids = (stores1, rest)"
  shows "stored lib stores1 \<union> set rest = stored lib stores \<union> set mids"
  using assms(2)
proof (induction n arbitrary: stores mids)
  case (Suc n)
  show ?case
  proof (cases "mids = []")
    case True
    with Suc.prems show ?thesis by auto
  next
    case False
    obtain st i1 where p: "place_pass lib stores mids = (st, i1)" by fastforce
    with Suc.IH [of st i1] Suc.prems False place_pass_stored [OF assms(1) p] show ?thesis by simp
  qed
qed auto

lemma process_chains_stored:
  assumes "store_laws lib" and "process_chains lib store = (stores, rest)"
  shows "stored lib stores \<union> set rest = set (store_objects lib store)"
proof -
  let ?objs = "store_objects lib store"
  have "stored lib (map (store_add lib (store_new lib)) (rev (filter (self_signed lib) ?objs))) =
      {c \<in> set ?objs. self_signed lib c}"
    using assms(1) by (auto simp: store_laws_def)
  with place_tries_stored [OF assms(1)] assms(2) show ?thesis
    by (fastforce simp: process_chains_def Let_def)
qed

lemma verify_peer_loop_found:
  "verify_peer_loop lib ss c u = 1 \<longleftrightarrow> (\<exists>s \<in> set ss. verify_cert lib s c u \<noteq> 0)"
  by (induction ss) auto

text \<open>Adding certificates to a store does not make others fail.\<close>

definition verify_mono :: "('x, 'st, 'k) x509_lib \<Rightarrow> bool" where
  "verify_mono lib \<longleftrightarrow> (\<forall>s c d. verify_cert lib s c [] = 1 \<longrightarrow> verify_cert lib (store_add lib s d) c [] = 1)"

definition store_ext :: "('x, 'st, 'k) x509_lib \<Rightarrow> 'st \<Rightarrow> 'st \<Rightarrow> bool" where
  "store_ext lib s s' \<longleftrightarrow> (\<forall>c. verify_cert lib s c [] = 1 \<longrightarrow> verify_cert lib s' c [] = 1)"

lemma store_ext_refl: "list_all2 (store_ext lib) stores stores"
  by (simp add: store_ext_def list.rel_refl_strong)

lemma store_ext_trans:
  "list_all2 (store_ext lib) a b \<Longrightarrow> list_all2 (store_ext lib) b c \<Longrightarrow> list_all2 (store_ext lib) a c"
  by (rule list_all2_trans [of "store_ext lib" "store_ext lib"]) (auto simp: store_ext_def)

lemma store_ext_add: "verify_mono lib \<Longrightarrow> store_ext lib s (store_add lib s d)"
  by (simp add: store_ext_def verify_mono_def)

lemma place_cert_ext:
  assumes "verify_mono lib" and "place_cert lib stores c = Some stores1"
  shows "list_all2 (store_ext lib) stores stores1"
  using assms(2)
proof (induction stores arbitrary: stores1)
  case (Cons s ss)
  with store_ext_add [OF assms(1)] store_ext_refl [of lib "s # ss"] show ?case
    by (auto split: if_splits)
qed simp

lemma place_cert_none: "place_cert lib stores c = None \<longleftrightarrow> (\<forall>s \<in> set stores. verify_cert lib s c [] \<noteq> 1)"
  by (induction stores) auto

lemma ext_verifies:
  assumes "list_all2 (store_ext lib) stores stores1" and "\<forall>s \<in> set stores1. verify_cert lib s c [] \<noteq> 1"
  shows "\<forall>s \<in> set stores. verify_cert lib s c [] \<noteq> 1"
  using assms by (induction rule: list_all2_induct) (auto simp: store_ext_def)

lemma place_pass_left:
  assumes "verify_mono lib" and "place_pass lib stores cs = (stores1, rest)" and "c \<in> set rest"
  shows "\<forall>s \<in> set stores. verify_cert lib s c [] \<noteq> 1"
  using assms(2,3)
proof (induction cs arbitrary: stores rest)
  case (Cons d cs)
  show ?case
  proof (cases "place_cert lib stores d")
    case None
    then obtain rest1 where "place_pass lib stores cs = (stores1, rest1)" "rest = d # rest1"
      using Cons.prems by (auto split: prod.splits)
    with Cons.IH [of stores rest1] Cons.prems(2) None show ?thesis by (auto simp: place_cert_none)
  next
    case (Some st)
    then have "\<forall>s \<in> set st. verify_cert lib s c [] \<noteq> 1" using Cons.IH [of st rest] Cons.prems by simp
    then show ?thesis by (rule ext_verifies [OF place_cert_ext [OF assms(1) Some]])
  qed
qed simp

lemma place_tries_rest: "place_tries lib n stores mids = (stores1, rest) \<Longrightarrow> set rest \<subseteq> set mids"
proof (induction n arbitrary: stores mids)
  case (Suc n)
  have sub: "place_pass lib st cs = (st1, r) \<Longrightarrow> set r \<subseteq> set cs" for st st1 cs r
    by (induction cs arbitrary: st r) (fastforce split: option.splits prod.splits)+
  show ?case
  proof (cases "mids = []")
    case False
    obtain st m1 where p: "place_pass lib stores mids = (st, m1)" by fastforce
    with Suc.IH [of st m1] Suc.prems False sub [OF p] show ?thesis by auto
  qed (use Suc.prems in simp)
qed simp

section \<open>A library that keeps the laws\<close>

text \<open>A certificate is a subject and an issuer, a store a list, and a PEM text the two numbers as characters.\<close>

fun toy_pem_certs :: "string \<Rightarrow> (nat \<times> nat) list" where
  "toy_pem_certs (a # b # r) = (of_char a, of_char b) # toy_pem_certs r"
| "toy_pem_certs _ = []"

definition toy_x509 :: "(nat \<times> nat, (nat \<times> nat) list, nat) x509_lib" where
  "toy_x509 =
     \<lparr>store_new = [], store_add = (\<lambda>s c. if c \<in> set s then s else s @ [c]), store_objects = (\<lambda>s. s),
      load_locations = (\<lambda>s x. s @ toy_pem_certs x), api_level = 30000,
      X509_self_signed = (\<lambda>(a, b). if a = b then 1 else 0), subject_issuer_cmp = (\<lambda>(a, b). if a = b then 0 else 1),
      X509_verify_own = (\<lambda>c. 1),
      verify_cert = (\<lambda>s c u. if snd c \<in> fst ` set (s @ u) then 1 else 0),
      pem_certs = toy_pem_certs, pem_of_cert = (\<lambda>(a, b). [char_of a, char_of b]), d2i_pkcs7 = (\<lambda>x. None),
      use_private_key = (\<lambda>x k. True), check_private_key = (\<lambda>x k. True), key_certificate = (\<lambda>k. None)\<rparr>"

lemma toy_store_laws: "store_laws toy_x509"
  by (auto simp: store_laws_def toy_x509_def)

lemma toy_verify_mono: "verify_mono toy_x509"
  by (auto simp: verify_mono_def toy_x509_def split: if_splits)

section \<open>Own key and certificate\<close>

text \<open>A key and a certificate that were set without an error belong together.\<close>

lemma own_key_matches:
  assumes "tls_set_own_key lib c (Some k) = Inr (0, c', freed)" and "c_own_cert c' \<noteq> None"
  shows "c_own_key c' = Some k \<and> check_private_key lib (sc_cert (c_ctx c')) (sc_key (c_ctx c'))"
  using assms by (auto simp: tls_set_own_key_def Let_def tls_codes split: if_splits option.splits prod.splits)

lemma own_cert_matches:
  assumes "tls_set_own_cert lib fs c buf = (0, c')" and "c_own_key c' \<noteq> None"
  shows "check_private_key lib (sc_cert (c_ctx c')) (sc_key (c_ctx c'))"
  using assms by (auto simp: tls_set_own_cert_def Let_def tls_codes split: if_splits option.splits prod.splits)

section \<open>Application protocols\<close>

text \<open>The reference: a list of names as RFC 7301 has it, or \<open>None\<close> when it is malformed.\<close>

function alpn_parse :: "byte list \<Rightarrow> byte list list option" where
  "alpn_parse [] = Some []"
| "alpn_parse (n # w) =
     (if n = 0 \<or> unat n > length w then None
      else map_option ((#) (take (unat n) w)) (alpn_parse (drop (unat n) w)))"
  by pat_completeness auto
termination
  by (relation "measure length") auto

definition alpn_name :: "byte list \<Rightarrow> bool" where
  "alpn_name p \<longleftrightarrow> p \<noteq> [] \<and> length p \<le> 255 \<and> 0 \<notin> set p"

lemma alpn_entry_nonzero:
  assumes "alpn_name p"
  shows "unat (of_nat (length p) :: byte) = length p \<and> 0 \<notin> set (alpn_entry p)"
proof -
  have "unat (of_nat (length p) :: byte) = length p"
    using assms by (simp add: alpn_name_def unat_of_nat take_bit_nat_eq_self)
  moreover from this have "(of_nat (length p) :: byte) \<noteq> 0"
    using assms by (metis alpn_name_def length_0_conv unat_0)
  ultimately show ?thesis using assms by (auto simp: alpn_name_def alpn_entry_def)
qed

lemma alpn_wire_nonzero: "\<forall>p \<in> set protos. alpn_name p \<Longrightarrow> 0 \<notin> set (concat (map alpn_entry protos))"
  using alpn_entry_nonzero by auto

lemma engine_alpn_wire:
  assumes "\<forall>p \<in> set protos. alpn_name p"
  shows "engine_alpn (tls_set_alpn_protocols c protos) = Some (concat (map alpn_entry protos))"
proof -
  have "takeWhile (\<lambda>b. b \<noteq> 0) (w @ [0]) = w" if "0 \<notin> set w" for w :: "byte list"
    using that by (induction w) auto
  with alpn_wire_nonzero [OF assms] show ?thesis by (simp add: engine_alpn_def tls_set_alpn_protocols_def)
qed

lemma alpn_parse_entry:
  assumes "alpn_name p"
  shows "alpn_parse (alpn_entry p @ w) = map_option ((#) p) (alpn_parse w)"
  using alpn_entry_nonzero [OF assms] by (auto simp: alpn_entry_def)

section \<open>Defects\<close>

text \<open>
  \<open>X509_verify_cert\<close> returns a negative number when the check could not be made; the callback takes that
  for success.
\<close>

lemma verify_error_accepted:
  assumes "verify_cert lib s c u < 0"
  shows "verify_peer_cb lib (ctx\<lparr>c_ca_chains := [s]\<rparr>) 0 c u = 1"
  using assms by (simp add: verify_peer_cb_def)

text \<open>
  A certificate for which the check could not be made counts as self-signed, and gets a store of its own as a root.
\<close>

lemma unchecked_certificate_is_root:
  assumes "api_level lib \<ge> 30000" and "X509_self_signed lib c = - 1" and "store_objects lib store = [c]"
  shows "process_chains lib store = ([store_add lib (store_new lib) c], [])"
  using assms by (simp add: process_chains_def self_signed_def is_self_signed_def numeral_3_eq_3)

text \<open>
  The callback does not ask which check failed. A certificate of a trusted authority for another host
  is accepted: the library reports the mismatch of the name as a failed check of this certificate,
  and the callback overrides it.
\<close>

lemma any_failed_check_overridden:
  assumes "s \<in> set (c_ca_chains ctx)" and "verify_cert lib s c u = 1"
  shows "verify_peer_cb lib ctx 0 c u = 1"
  using assms verify_peer_loop_found [of lib "c_ca_chains ctx" c u] by (auto simp: verify_peer_cb_def)

text \<open>A bundle that lists four intermediate certificates, the lowest first, does not get all of them.\<close>

lemma deep_bundle_left_over:
  "snd (process_chains toy_x509 [(5, 4), (4, 3), (3, 2), (2, 1), (1, 1)]) = [(5, 4)]"
  by code_simp

text \<open>An empty name, or one of 256 bytes, cuts the list of protocols short.\<close>

lemma alpn_list_cut:
  assumes "\<forall>p \<in> set ps. alpn_name p" and "length q mod 256 = 0"
  shows "engine_alpn (tls_set_alpn_protocols c (ps @ q # qs)) = Some (concat (map alpn_entry ps))"
proof -
  have "(of_nat (length q) :: byte) = 0" using assms(2) by (simp add: word_of_nat_eq_0_iff mod_0_imp_dvd)
  moreover have "takeWhile (\<lambda>b. b \<noteq> 0) (w @ 0 # v) = w" if "0 \<notin> set w" for w v :: "byte list"
    using that by (induction w) auto
  ultimately show ?thesis
    using alpn_wire_nonzero [OF assms(1)] by (simp add: engine_alpn_def tls_set_alpn_protocols_def alpn_entry_def)
qed

text \<open>Setting no key is an access through a null pointer; setting the key again releases the key in use.\<close>

lemma set_null_key_undefined: "tls_set_own_key lib c None = Inl Null_Deref"
  by (simp add: tls_set_own_key_def)

lemma set_key_again_releases_it:
  assumes "c_own_key c = Some k" and "tls_set_own_key lib c (Some k) = Inr (rc, c', freed)"
  shows "c_own_key c' = Some k \<and> k \<in> set freed"
  using assms by (auto simp: tls_set_own_key_def Let_def split: if_splits option.splits prod.splits)

text \<open>The length of a signing request is not told: the caller keeps what was in its variable.\<close>

lemma csr_length_not_set: "snd (snd (generate_csr err set_pubkey sign write_pem args pemlen)) = pemlen"
  by (simp add: generate_csr_def Let_def split: prod.splits)

text \<open>Only the whole chain is ever written.\<close>

lemma full_chain_ignored: "write_cert_pem lib store True = write_cert_pem lib store False"
  by (simp add: write_cert_pem_def)

text \<open>A text that is not PKCS#7 makes the parser follow a null pointer.\<close>

lemma malformed_pkcs7_undefined:
  assumes "d2i_pkcs7 lib (take (int_len (length buf)) buf) = None"
  shows "parse_pkcs7_certs lib buf = Inl Null_Deref"
  using assms by (simp add: parse_pkcs7_certs_def)

section \<open>Properties\<close>



text \<open>
  Splitting a bundle loses nothing: there is one store for each self-signed certificate, every
  certificate of the bundle is in a store or reported as left over, nothing else is in the stores, and
  no certificate that a self-signed certificate of the bundle directly verifies is left over.
\<close>

lemma process_chains_complete:
  assumes "store_laws lib" and "verify_mono lib" and "process_chains lib store = (stores, rest)"
  shows "length stores = length (filter (self_signed lib) (store_objects lib store)) \<and>
    (\<Union>s \<in> set stores. set (store_objects lib s)) \<union> set rest = set (store_objects lib store) \<and>
    (\<forall>c \<in> set rest. \<forall>root \<in> set (store_objects lib store). self_signed lib root \<longrightarrow>
       verify_cert lib (store_add lib (store_new lib) root) c [] \<noteq> 1)"
proof (intro conjI)
  let ?objs = "store_objects lib store"
  let ?st = "map (store_add lib (store_new lib)) (rev (filter (self_signed lib) ?objs))"
  let ?mids = "filter (\<lambda>c. \<not> self_signed lib c) ?objs"
  show "length stores = length (filter (self_signed lib) ?objs)"
    using list_all2_lengthD [OF process_chains_rooted [OF assms(3)]] by simp
  show "(\<Union>s \<in> set stores. set (store_objects lib s)) \<union> set rest = set ?objs"
    by (rule process_chains_stored [OF assms(1,3)])
  have t: "place_tries lib (Suc 2) ?st ?mids = (stores, rest)"
    using assms(3) by (simp only: process_chains_def Let_def numeral_3_eq_3 numeral_2_eq_2)
  obtain st1 m1 where p: "place_pass lib ?st ?mids = (st1, m1)" by fastforce
  show "\<forall>c \<in> set rest. \<forall>root \<in> set ?objs. self_signed lib root \<longrightarrow>
      verify_cert lib (store_add lib (store_new lib) root) c [] \<noteq> 1"
  proof (cases "?mids = []")
    case True
    with place_tries_rest [OF t] show ?thesis by simp
  next
    case False
    then have "place_tries lib 2 st1 m1 = (stores, rest)" using t p by (simp only: place_tries.simps(2) if_False Let_def case_prod_conv)
    then have "set rest \<subseteq> set m1" by (rule place_tries_rest)
    with place_pass_left [OF assms(2) p] show ?thesis by fastforce
  qed
qed

text \<open>
  The protocols a client sets are the ones its engines offer: for names of 1 to 255 bytes, the bytes
  given to the library are a well-formed list that decodes to the names in order.
\<close>

lemma alpn_roundtrip:
  assumes "\<forall>p \<in> set protos. alpn_name p"
  shows "\<exists>w. engine_alpn (tls_set_alpn_protocols c protos) = Some w \<and> alpn_parse w = Some protos"
proof -
  have "alpn_parse (concat (map alpn_entry protos)) = Some protos"
    using assms by (induction protos) (simp_all add: alpn_parse_entry)
  with engine_alpn_wire [OF assms] show ?thesis by blast
qed

text \<open>
  Certificates written as PEM and loaded again are the same certificates, when the library's reader
  gives back what its writer wrote and the text is not the name of a file.
\<close>

lemma cert_pem_roundtrip:
  assumes "store_laws lib" and "\<forall>cs. pem_certs lib (concat (map (pem_of_cert lib) cs)) = cs"
    and "write_cert_pem lib store full_chain = (rc, pem, len)" and "fs pem = None" and "len < 2 ^ 31"
  shows "rc = 0 \<and> len = length pem \<and> set (store_objects lib (load_certs lib fs pem)) = set (store_objects lib store)"
proof -
  have p: "pem = concat (map (pem_of_cert lib) (store_objects lib store))" "len = length pem" "rc = 0"
    using assms(3) by (auto simp: write_cert_pem_def Let_def)
  have "set (store_objects lib (foldl (store_add lib) s cs)) = set (store_objects lib s) \<union> set cs" for s cs
    using assms(1) by (induction cs arbitrary: s) (auto simp: store_laws_def)
  moreover have "store_objects lib (store_new lib) = []" using assms(1) by (simp add: store_laws_def)
  moreover have "load_certs lib fs pem = foldl (store_add lib) (store_new lib) (store_objects lib store)"
    using assms(2,4,5) p by (simp add: load_certs_def int_len_small)
  ultimately show ?thesis using p by simp
qed

end
