(* ===== verification/Um_Debug.thy ===== *)
theory Um_Debug
  imports Prelude
begin

text \<open>
  Logging, from \<open>src/um_debug.c\<close> and \<open>um_debug.h\<close>: a level and a function of the user. The text of a message is an argument;
  \<open>vsnprintf\<close> cuts it to the buffer. The rest of the development leaves log lines out, since nothing depends on them.
\<close>

datatype log_level = NONE | ERR | WARN | INFO | DEBG | VERB | TRACE

primrec log_number :: "log_level \<Rightarrow> int" where
  "log_number NONE = 0"
| "log_number ERR = 1"
| "log_number WARN = 2"
| "log_number INFO = 3"
| "log_number DEBG = 4"
| "log_number VERB = 5"
| "log_number TRACE = 6"

text \<open>The level may be any number; functions of the user are known by numbers.\<close>

record um_debug =
  um_log_level :: int
  log_func :: "nat option"

definition um_debug_start :: um_debug where
  "um_debug_start = \<lparr>um_log_level = log_number ERR, log_func = None\<rparr>"

text \<open>A call of the function: the function, the level, the place and the text.\<close>

datatype log_out = Log_Call nat int string nat string

definition um_log :: "um_debug \<Rightarrow> int \<Rightarrow> string \<Rightarrow> nat \<Rightarrow> string \<Rightarrow> log_out list" where
  "um_log st lvl fname line msg =
     (case log_func st of None \<Rightarrow> [] | Some f \<Rightarrow> [Log_Call f lvl fname line (take 1023 msg)])"

definition UM_LOG :: "um_debug \<Rightarrow> log_level \<Rightarrow> string \<Rightarrow> nat \<Rightarrow> string \<Rightarrow> log_out list" where
  "UM_LOG st lvl fname line msg =
     (if log_number lvl \<le> um_log_level st then um_log st (log_number lvl) fname line msg else [])"

definition tlsuv_set_debug :: "um_debug \<Rightarrow> int \<Rightarrow> nat option \<Rightarrow> um_debug" where
  "tlsuv_set_debug st level output_f = st\<lparr>um_log_level := level, log_func := output_f\<rparr>"

text \<open>
  Messages of a sequence of calls: after the last setting of the level, exactly the messages at or below it reach the function, in
  order, with at most 1023 characters.
\<close>

lemma um_log_sequence:
  "concat (map (\<lambda>(lvl, fname, line, msg). UM_LOG (tlsuv_set_debug st level (Some f)) lvl fname line msg) calls) =
     map (\<lambda>(lvl, fname, line, msg). Log_Call f (log_number lvl) fname line (take 1023 msg))
       (filter (\<lambda>(lvl, fname, line, msg). log_number lvl \<le> level) calls)"
  by (induction calls) (auto simp: UM_LOG_def um_log_def tlsuv_set_debug_def)

lemma no_function_no_messages: "UM_LOG um_debug_start lvl fname line msg = []"
  by (simp add: UM_LOG_def um_log_def um_debug_start_def)

end
