(* ===== verification/Ossl_Trace.thy ===== *)
theory Ossl_Trace
  imports Um_Debug
begin

unbundle bit_operations_syntax

text \<open>
  The trace of TLS messages of \<open>src/openssl/engine.c\<close>: the tables of names, with the values the OpenSSL
  headers give the codes, and the lines that are logged for a message and for a change of state.
\<close>

primrec lookup :: "int \<Rightarrow> (string \<times> int) list \<Rightarrow> string \<Rightarrow> string" where
  "lookup v [] d = d"
| "lookup v (x # xs) d = (if snd x = v then fst x else lookup v xs d)"

definition handshakes :: "(string \<times> int) list" where
  "handshakes =
     [('', HelloRequest'', 0), ('', ClientHello'', 1), ('', ServerHello'', 2),
      ('', HelloVerifyRequest'', 3), ('', NewSessionTicket'', 4), ('', EndOfEarlyData'', 5),
      ('', EncryptedExtensions'', 8), ('', Certificate'', 11), ('', ServerKeyExchange'', 12),
      ('', CertificateRequest'', 13), ('', ServerHelloDone'', 14), ('', CertificateVerify'', 15),
      ('', ClientKeyExchange'', 16), ('', Finished'', 20), ('', CertificateUrl'', 21),
      ('', CertificateStatus'', 22), ('', SupplementalData'', 23), ('', KeyUpdate'', 24),
      ('', NextProto'', 67), ('', MessageHash'', 254)]"

definition alert_types :: "(string \<times> int) list" where
  "alert_types =
     [('' close_notify'', 0), ('' end_of_early_data'', 1), ('' unexpected_message'', 10),
      ('' bad_record_mac'', 20), ('' decryption_failed'', 21), ('' record_overflow'', 22),
      ('' decompression_failure'', 30), ('' handshake_failure'', 40), ('' bad_certificate'', 42),
      ('' unsupported_certificate'', 43), ('' certificate_revoked'', 44),
      ('' certificate_expired'', 45), ('' certificate_unknown'', 46), ('' illegal_parameter'', 47),
      ('' unknown_ca'', 48), ('' access_denied'', 49), ('' decode_error'', 50),
      ('' decrypt_error'', 51), ('' export_restriction'', 60), ('' protocol_version'', 70),
      ('' insufficient_security'', 71), ('' internal_error'', 80), ('' inappropriate_fallback'', 86),
      ('' user_canceled'', 90), ('' no_renegotiation'', 100), ('' missing_extension'', 109),
      ('' unsupported_extension'', 110), ('' certificate_unobtainable'', 111),
      ('' unrecognized_name'', 112), ('' bad_certificate_status_response'', 113),
      ('' bad_certificate_hash_value'', 114), ('' unknown_psk_identity'', 115),
      ('' certificate_required'', 116)]"

definition ssl_versions :: "(string \<times> int) list" where
  "ssl_versions =
     [(''SSL 3.0'', 768), (''TLS 1.0'', 769), (''TLS 1.1'', 770), (''TLS 1.2'', 771),
      (''TLS 1.3'', 772), (''DTLS 1.0'', 65279), (''DTLS 1.0 (bad)'', 256)]"

definition SSL3_RT_HEADER :: int where "SSL3_RT_HEADER = 0x100"

text \<open>The parts of the line: direction, version, type of the content, length and two details.\<close>

definition msg_details :: "int \<Rightarrow> byte list \<Rightarrow> string \<times> string \<times> string" where
  "msg_details content_type buf =
     (if content_type = 20 then ('', ChangeCipherSpec'', [], [])
      else if content_type = 21 then
        ('', Alert'',
         if length buf = 2 then (if buf ! 0 = 1 then '', warning'' else if buf ! 0 = 2 then '', fatal'' else '', ???'')
         else '', ???'',
         if length buf = 2 then lookup (uint (buf ! 1)) alert_types '' ???'' else [])
      else if content_type = 22 then
        ('', Handshake'', if buf \<noteq> [] then lookup (uint (buf ! 0)) handshakes ''???'' else ''???'', [])
      else if content_type = 23 then ('', ApplicationData'', [], [])
      else ([], [], []))"

definition msg_cb ::
  "bool \<Rightarrow> int \<Rightarrow> int \<Rightarrow> byte list \<Rightarrow> string \<times> string \<times> string \<times> nat \<times> string \<times> string" where
  "msg_cb write_p version content_type buf =
     (let dir = (if write_p then ''>>>'' else ''<<<'')
      in if version \<in> snd ` set ssl_versions then
           (let (typ, d1, d2) = msg_details content_type buf
            in (dir, lookup version ssl_versions ''???'', typ, length buf, d1, d2))
         else if version = 0 \<and> content_type = SSL3_RT_HEADER then (dir, [], ''TLS Header'', length buf, [], [])
         else (dir, lookup version ssl_versions ''???'', [], length buf, [], []))"

section \<open>The tables\<close>

text \<open>No code is listed twice, so every listed code is found under its own name.\<close>

lemma lookup_listed:
  assumes "distinct (map snd t)" and "(n, v) \<in> set t"
  shows "lookup v t d = n"
  using assms by (induction t) force+

lemma lookup_tables:
  shows "(n, v) \<in> set handshakes \<Longrightarrow> lookup v handshakes d = n"
    and "(n, v) \<in> set alert_types \<Longrightarrow> lookup v alert_types d = n"
    and "(n, v) \<in> set ssl_versions \<Longrightarrow> lookup v ssl_versions d = n"
proof -
  show "(n, v) \<in> set handshakes \<Longrightarrow> lookup v handshakes d = n"
    by (rule lookup_listed) (simp_all add: handshakes_def)
  show "(n, v) \<in> set alert_types \<Longrightarrow> lookup v alert_types d = n"
    by (rule lookup_listed) (simp_all add: alert_types_def)
  show "(n, v) \<in> set ssl_versions \<Longrightarrow> lookup v ssl_versions d = n"
    by (rule lookup_listed) (simp_all add: ssl_versions_def)
qed

text \<open>The names of an alert are never read beyond its two bytes, and a known alert is named.\<close>

lemma alert_named:
  assumes "version \<in> snd ` set ssl_versions" and "(n, uint b) \<in> set alert_types"
  shows "\<exists>v lvl. msg_cb w version 21 [a, b] = (if w then ''>>>'' else ''<<<'', v, '', Alert'', 2, lvl, n)"
  using assms lookup_tables(2) by (simp add: msg_cb_def msg_details_def)

section \<open>Changes of state\<close>

definition SSL_CB_LOOP :: uint32 where "SSL_CB_LOOP = 0x01"
definition SSL_CB_EXIT :: uint32 where "SSL_CB_EXIT = 0x02"
definition SSL_CB_READ :: uint32 where "SSL_CB_READ = 0x04"
definition SSL_CB_ALERT :: uint32 where "SSL_CB_ALERT = 0x4000"
definition SSL_ST_CONNECT :: uint32 where "SSL_ST_CONNECT = 0x1000"
definition SSL_ST_ACCEPT :: uint32 where "SSL_ST_ACCEPT = 0x2000"
definition SSL_ST_MASK :: uint32 where "SSL_ST_MASK = 0x0FFF"

text \<open>
  What \<open>info_cb\<close> logs: the level and the parts of the line. \<open>state\<close> is the library's text for the state of the connection,
  \<open>alert_type\<close> and \<open>alert_desc\<close> are its texts for a code.
\<close>

definition info_cb ::
  "string \<Rightarrow> (int \<Rightarrow> string) \<Rightarrow> (int \<Rightarrow> string) \<Rightarrow> uint32 \<Rightarrow> int \<Rightarrow> (log_level \<times> string list) option" where
  "info_cb state alert_type alert_desc place ret =
     (let w = place AND NOT SSL_ST_MASK;
          str = (if w AND SSL_ST_CONNECT \<noteq> 0 then ''SSL_connect''
                 else if w AND SSL_ST_ACCEPT \<noteq> 0 then ''SSL_accept'' else ''undefined'')
      in if place AND SSL_CB_LOOP \<noteq> 0 then Some (TRACE, [str, '':'', state])
         else if place AND SSL_CB_ALERT \<noteq> 0
         then Some (VERB, [''SSL3 alert '', if place AND SSL_CB_READ \<noteq> 0 then ''read'' else ''write'', '':'', alert_type ret, '':'',
                           alert_desc ret])
         else if place AND SSL_CB_EXIT \<noteq> 0
         then (if ret = 0 then Some (VERB, [str, '':failed in '', state])
               else if ret < 0 then Some (VERB, [str, '':error in '', state])
               else None)
         else None)"

text \<open>A client that fails or is alerted is logged at the level \<open>VERB\<close>, and a call that ends well is not logged.\<close>

lemma info_cb_exit:
  shows "info_cb state at ad (SSL_ST_CONNECT OR SSL_CB_EXIT) ret =
    (if ret > 0 then None else Some (VERB, [''SSL_connect'', if ret = 0 then '':failed in '' else '':error in '', state]))"
  by (simp add: info_cb_def SSL_ST_CONNECT_def SSL_CB_EXIT_def SSL_ST_MASK_def SSL_CB_LOOP_def SSL_CB_ALERT_def)

lemma info_cb_alert:
  shows "info_cb state at ad (SSL_CB_ALERT OR SSL_CB_READ) ret = Some (VERB, [''SSL3 alert '', ''read'', '':'', at ret, '':'', ad ret])"
  by (simp add: info_cb_def SSL_CB_READ_def SSL_ST_CONNECT_def SSL_ST_ACCEPT_def SSL_ST_MASK_def SSL_CB_LOOP_def SSL_CB_ALERT_def)

end
