(* ===== verification/P11.thy ===== *)
theory P11
  imports Url
begin

text \<open>
  Keys on PKCS#11 tokens, from \<open>src/p11.c\<close>: opening a token, generating and finding keys, reading and
  storing the certificate of a key, signing, and the names of errors. The driver of the token is a
  parameter: its functions with their results.
\<close>

section \<open>Data\<close>

definition CKR_OK :: nat where "CKR_OK = 0"
definition CKR_FUNCTION_FAILED :: nat where "CKR_FUNCTION_FAILED = 6"
definition CKR_LIBRARY_LOAD_FAILED :: nat where "CKR_LIBRARY_LOAD_FAILED = 439"
definition CKR_CRYPTOKI_ALREADY_INITIALIZED :: nat where "CKR_CRYPTOKI_ALREADY_INITIALIZED = 401"
definition CKR_USER_ALREADY_LOGGED_IN :: nat where "CKR_USER_ALREADY_LOGGED_IN = 256"
definition CKR_KEY_NEEDED :: nat where "CKR_KEY_NEEDED = 102"
definition CKO_CERTIFICATE :: nat where "CKO_CERTIFICATE = 1"
definition CKO_PUBLIC_KEY :: nat where "CKO_PUBLIC_KEY = 2"
definition CKO_PRIVATE_KEY :: nat where "CKO_PRIVATE_KEY = 3"
definition CKK_RSA :: nat where "CKK_RSA = 0"
definition CKK_EC :: nat where "CKK_EC = 3"
definition CKC_X_509 :: nat where "CKC_X_509 = 0"
definition CKM_RSA_PKCS_KEY_PAIR_GEN :: nat where "CKM_RSA_PKCS_KEY_PAIR_GEN = 0"
definition CKM_EC_KEY_PAIR_GEN :: nat where "CKM_EC_KEY_PAIR_GEN = 4160"
definition CKM_ECDSA :: nat where "CKM_ECDSA = 4161"

named_theorems ck_codes \<open>the numeric values of the PKCS#11 constants\<close>

declare CKR_OK_def [ck_codes] CKR_FUNCTION_FAILED_def [ck_codes] CKR_LIBRARY_LOAD_FAILED_def [ck_codes]
  CKR_CRYPTOKI_ALREADY_INITIALIZED_def [ck_codes] CKR_USER_ALREADY_LOGGED_IN_def [ck_codes]
  CKR_KEY_NEEDED_def [ck_codes] CKO_CERTIFICATE_def [ck_codes] CKO_PUBLIC_KEY_def [ck_codes]
  CKO_PRIVATE_KEY_def [ck_codes] CKK_RSA_def [ck_codes] CKK_EC_def [ck_codes]
  CKC_X_509_def [ck_codes] CKM_RSA_PKCS_KEY_PAIR_GEN_def [ck_codes]
  CKM_EC_KEY_PAIR_GEN_def [ck_codes] CKM_ECDSA_def [ck_codes]

datatype ck_attr =
    CKA_CLASS | CKA_TOKEN | CKA_PRIVATE | CKA_LABEL | CKA_VALUE | CKA_CERTIFICATE_TYPE | CKA_KEY_TYPE
  | CKA_SUBJECT | CKA_ID | CKA_SENSITIVE | CKA_ENCRYPT | CKA_DECRYPT | CKA_WRAP | CKA_UNWRAP
  | CKA_SIGN | CKA_VERIFY | CKA_MODULUS_BITS | CKA_PUBLIC_EXPONENT | CKA_EC_PARAMS
  | CKA_EC_POINT | CKA_MODULUS

text \<open>The value of an attribute in a template: an unsigned long, a boolean or a string of bytes.\<close>

datatype ck_value = Ck_Ulong nat | Ck_Bool bool | Ck_Bytes "byte list"

type_synonym template = "(ck_attr \<times> ck_value) list"

text \<open>
  A driver that was loaded. \<open>find_objects\<close> are the results of the three calls of a search for at most
  one object.
\<close>

record p11_driver =
  function_list :: "nat option"
  C_Initialize :: nat
  slot_count :: "nat \<times> nat"
  slot_list :: "nat \<times> nat list"
  C_OpenSession :: "nat \<Rightarrow> nat \<times> nat"
  C_Login :: "nat \<Rightarrow> string \<Rightarrow> nat"
  C_GetMechanismInfo :: "nat \<Rightarrow> nat \<Rightarrow> nat \<times> bool \<times> nat"
  C_GenerateRandom :: "byte list"
  C_GenerateKeyPair :: "nat \<Rightarrow> template \<Rightarrow> template \<Rightarrow> nat \<times> nat \<times> nat"
  C_CreateObject :: "template \<Rightarrow> nat"
  find_objects :: "template \<Rightarrow> nat \<times> (nat \<times> nat option) \<times> nat"
  C_GetAttributeValue :: "nat \<Rightarrow> ck_attr \<Rightarrow> nat \<times> byte list"
  key_type_of :: "nat \<Rightarrow> nat \<times> nat"
  C_SignInit :: "nat \<Rightarrow> nat \<Rightarrow> nat"
  C_Sign :: "byte list \<Rightarrow> nat \<Rightarrow> nat \<times> byte list"

record p11_context =
  p11_driver_of :: p11_driver
  p11_session :: nat
  p11_slot_id :: nat

record p11_key_ctx =
  key_type :: nat
  priv_handle :: nat
  pub_handle :: nat
  key_ctx :: p11_context

section \<open>Opening a token\<close>

definition hex_digit_value :: "char \<Rightarrow> nat option" where
  "hex_digit_value c =
     (let n = of_char c :: nat
      in if 48 \<le> n \<and> n \<le> 57 then Some (n - 48)
         else if 97 \<le> n \<and> n \<le> 102 then Some (n - 87)
         else if 65 \<le> n \<and> n \<le> 70 then Some (n - 55)
         else None)"

definition hex_number :: "string \<Rightarrow> nat" where
  "hex_number ds = foldl (\<lambda>v c. 16 * v + the (hex_digit_value c)) 0 ds"

text \<open>\<open>strtoul(p, NULL, 16)\<close> with 64 bits.\<close>

definition strtoul16 :: "string \<Rightarrow> nat" where
  "strtoul16 p =
     (let (neg, r) = strtol_sign (dropWhile is_space p);
          r1 = (if length r > 2 \<and> r ! 0 = CHR ''0'' \<and> (r ! 1 = CHR ''x'' \<or> r ! 1 = CHR ''X'') \<and> hex_digit_value (r ! 2) \<noteq> None
                then drop 2 r else r);
          v = hex_number (takeWhile (\<lambda>c. hex_digit_value c \<noteq> None) r1)
      in if v \<ge> 2 ^ 64 then 2 ^ 64 - 1 else if neg then (2 ^ 64 - v) mod 2 ^ 64 else v)"

text \<open>
  Without a slot the first one of the list is taken, which is read beyond its end when the driver
  reports no slot.
\<close>

definition p11_slot :: "p11_driver \<Rightarrow> string option \<Rightarrow> ub + nat + nat" where
  "p11_slot d slot =
     (case slot of
        Some (c # cs) \<Rightarrow> Inr (Inr (strtoul16 (c # cs)))
      | _ \<Rightarrow>
          (let (rc, n) = slot_count d
           in if rc \<noteq> CKR_OK then Inr (Inl rc)
              else
                (let (rc2, slots) = slot_list d
                 in if rc2 \<noteq> CKR_OK then Inr (Inl rc2)
                    else case take n slots of [] \<Rightarrow> Inl Out_Of_Bounds_Read | s # _ \<Rightarrow> Inr (Inr s))))"

text \<open>\<open>lib\<close> is the driver that the name stands for; the result is an error code or the open token.\<close>

definition p11_init :: "p11_driver option \<Rightarrow> string option \<Rightarrow> string \<Rightarrow> ub + nat + p11_context" where
  "p11_init lib slot pin =
     (case lib of
        None \<Rightarrow> Inr (Inl CKR_FUNCTION_FAILED)
      | Some d \<Rightarrow>
          (case function_list d of
             None \<Rightarrow> Inr (Inl CKR_LIBRARY_LOAD_FAILED)
           | Some rc \<Rightarrow>
               if rc \<noteq> CKR_OK then Inr (Inl rc)
               else if C_Initialize d \<noteq> CKR_OK \<and> C_Initialize d \<noteq> CKR_CRYPTOKI_ALREADY_INITIALIZED
               then Inr (Inl (C_Initialize d))
               else ub_bind (p11_slot d slot) (\<lambda>r.
                 case r of
                   Inl rc2 \<Rightarrow> Inr (Inl rc2)
                 | Inr slot_id \<Rightarrow>
                     (let (rc3, session) = C_OpenSession d slot_id
                      in if rc3 \<noteq> CKR_OK then Inr (Inl rc3)
                         else
                           (let err = C_Login d session pin
                            in if err \<noteq> CKR_OK \<and> err \<noteq> CKR_USER_ALREADY_LOGGED_IN then Inr (Inl err)
                               else Inr (Inr \<lparr>p11_driver_of = d, p11_session = session, p11_slot_id = slot_id\<rparr>))))))"

section \<open>Keys\<close>

text \<open>The curve for a key size, as the DER of its object identifier, with the size of its field.\<close>

definition prime521v1 :: "byte list" where "prime521v1 = [0x06, 0x05, 0x2B, 0x81, 0x04, 0x00, 0x23]"
definition prime384v1 :: "byte list" where "prime384v1 = [0x06, 0x05, 0x2B, 0x81, 0x04, 0x00, 0x22]"
definition prime256v1 :: "byte list" where "prime256v1 = [0x06, 0x08, 0x2A, 0x86, 0x48, 0xCE, 0x3D, 0x03, 0x01, 0x07]"
definition nistp244 :: "byte list" where "nistp244 = [0x06, 0x05, 0x2B, 0x81, 0x04, 0x00, 0x21]"
definition prime192v1 :: "byte list" where "prime192v1 = [0x06, 0x08, 0x2A, 0x86, 0x48, 0xCE, 0x3D, 0x03, 0x01, 0x01]"

definition get_ec_params :: "int \<Rightarrow> byte list option" where
  "get_ec_params keysize =
     (if keysize \<ge> 521 then Some prime521v1
      else if keysize \<ge> 384 then Some prime384v1
      else if keysize \<ge> 256 then Some prime256v1
      else if keysize \<ge> 244 then Some nistp244
      else if keysize \<ge> 192 then Some prime192v1
      else None)"

text \<open>
  The mechanism for a new key. The loop asks for the first mechanism in every round.
\<close>

definition try_types :: "nat list" where
  "try_types = [CKM_EC_KEY_PAIR_GEN, CKM_RSA_PKCS_KEY_PAIR_GEN]"

primrec find_mechanism :: "p11_context \<Rightarrow> nat list \<Rightarrow> (nat \<times> nat \<times> nat) option" where
  "find_mechanism p11 [] = None"
| "find_mechanism p11 (t # ts) =
     (let (rv, pair, max_size) = C_GetMechanismInfo (p11_driver_of p11) (p11_slot_id p11) (hd try_types)
      in if rv = CKR_OK \<and> pair
         then Some (t, if t = CKM_RSA_PKCS_KEY_PAIR_GEN then CKK_RSA else CKK_EC, max_size)
         else find_mechanism p11 ts)"

definition opt_attr :: "ck_attr \<Rightarrow> byte list option \<Rightarrow> template" where
  "opt_attr a v = (case v of None \<Rightarrow> [] | Some x \<Rightarrow> [(a, Ck_Bytes x)])"

definition priv_template :: "byte list \<Rightarrow> nat \<Rightarrow> byte list option \<Rightarrow> template" where
  "priv_template ident keytype label =
     [(CKA_ID, Ck_Bytes ident), (CKA_CLASS, Ck_Ulong CKO_PRIVATE_KEY), (CKA_KEY_TYPE, Ck_Ulong keytype),
      (CKA_PRIVATE, Ck_Bool True), (CKA_TOKEN, Ck_Bool True), (CKA_SENSITIVE, Ck_Bool True),
      (CKA_DECRYPT, Ck_Bool True), (CKA_SIGN, Ck_Bool True), (CKA_UNWRAP, Ck_Bool True)] @ opt_attr CKA_LABEL label"

definition pub_template :: "byte list \<Rightarrow> nat \<Rightarrow> nat \<Rightarrow> byte list option \<Rightarrow> template" where
  "pub_template ident keytype keysize label =
     [(CKA_ID, Ck_Bytes ident), (CKA_CLASS, Ck_Ulong CKO_PUBLIC_KEY), (CKA_KEY_TYPE, Ck_Ulong keytype),
      (CKA_TOKEN, Ck_Bool True), (CKA_ENCRYPT, Ck_Bool True), (CKA_VERIFY, Ck_Bool True),
      (CKA_WRAP, Ck_Bool True)] @ opt_attr CKA_LABEL label @
     (if keytype = CKK_EC then opt_attr CKA_EC_PARAMS (get_ec_params (to_c_int (of_nat keysize))) else []) @
     (if keytype = CKK_RSA then [(CKA_MODULUS_BITS, Ck_Ulong keysize), (CKA_PUBLIC_EXPONENT, Ck_Bytes [1, 0, 1])] else [])"

text \<open>
  The templates have room for 20 attributes each, the identifier for 8 bytes. The result is an error,
  or the key.
\<close>

definition p11_gen_key :: "p11_context \<Rightarrow> byte list option \<Rightarrow> ub + p11_key_ctx option" where
  "p11_gen_key p11 label =
     (case find_mechanism p11 try_types of
        None \<Rightarrow> Inr None
      | Some (mech, keytype, keysize) \<Rightarrow>
          (let ident = take 8 (C_GenerateRandom (p11_driver_of p11));
               priv = priv_template ident keytype label;
               pub = pub_template ident keytype keysize label
           in if length priv > 20 \<or> length pub > 20 then Inl Out_Of_Bounds_Write
              else
                (let (rv, pubh, privh) = C_GenerateKeyPair (p11_driver_of p11) mech pub priv
                 in if rv \<noteq> CKR_OK then Inr None
                    else Inr (Some \<lparr>key_type = keytype, priv_handle = privh, pub_handle = pubh, key_ctx = p11\<rparr>))))"

definition p11_get_obj_attr :: "p11_context \<Rightarrow> nat \<Rightarrow> ck_attr \<Rightarrow> nat + byte list" where
  "p11_get_obj_attr p11 h type =
     (let (rc, val) = C_GetAttributeValue (p11_driver_of p11) h type in if rc \<noteq> CKR_OK then Inl rc else Inr val)"

definition p11_get_key_attr :: "p11_key_ctx \<Rightarrow> ck_attr \<Rightarrow> nat + byte list" where
  "p11_get_key_attr key type = p11_get_obj_attr (key_ctx key) (pub_handle key) type"

text \<open>A certificate is stored with the identifier and the label of its key, as far as these can be read.\<close>

definition attr_or_null :: "nat + byte list \<Rightarrow> byte list option" where
  "attr_or_null r = (case r of Inl e \<Rightarrow> None | Inr v \<Rightarrow> Some v)"

definition cert_template :: "byte list option \<Rightarrow> byte list option \<Rightarrow> byte list option \<Rightarrow> byte list option \<Rightarrow> template" where
  "cert_template ident label subj cert =
     [(CKA_CLASS, Ck_Ulong CKO_CERTIFICATE), (CKA_PRIVATE, Ck_Bool False), (CKA_TOKEN, Ck_Bool True),
      (CKA_CERTIFICATE_TYPE, Ck_Ulong CKC_X_509)] @
     opt_attr CKA_ID ident @ opt_attr CKA_LABEL label @ opt_attr CKA_SUBJECT subj @ opt_attr CKA_VALUE cert"

definition p11_store_key_cert :: "p11_key_ctx \<Rightarrow> byte list option \<Rightarrow> byte list option \<Rightarrow> ub + int" where
  "p11_store_key_cert key cert subj =
     (let p11 = key_ctx key;
          ident = attr_or_null (p11_get_obj_attr p11 (priv_handle key) CKA_ID);
          label = attr_or_null (p11_get_obj_attr p11 (priv_handle key) CKA_LABEL);
          t = cert_template ident label subj cert
      in if length t > 10 then Inl Out_Of_Bounds_Write
         else Inr (if C_CreateObject (p11_driver_of p11) t \<noteq> CKR_OK then -1 else 0))"

text \<open>
  A search for one object: the first call that fails ends it. The second component tells whether the
  search is left open, which is the case when the second call fails.
\<close>

definition p11_search :: "p11_context \<Rightarrow> template \<Rightarrow> (nat + nat option) \<times> bool" where
  "p11_search p11 query =
     (let (rc1, (rc2, obj), rc3) = find_objects (p11_driver_of p11) query
      in if rc1 \<noteq> CKR_OK then (Inl rc1, False)
         else if rc2 \<noteq> CKR_OK then (Inl rc2, True)
         else if rc3 \<noteq> CKR_OK then (Inl rc3, True)
         else (Inr obj, False))"

text \<open>The certificate with the identifier of the key; an identifier that cannot be read is empty.\<close>

definition p11_get_key_cert :: "p11_key_ctx \<Rightarrow> int + byte list" where
  "p11_get_key_cert key =
     (let p11 = key_ctx key;
          ident = (case p11_get_obj_attr p11 (priv_handle key) CKA_ID of Inl e \<Rightarrow> [] | Inr v \<Rightarrow> v)
      in case fst (p11_search p11 [(CKA_CLASS, Ck_Ulong CKO_CERTIFICATE), (CKA_ID, Ck_Bytes ident)]) of
           Inl rc \<Rightarrow> Inl (int rc)
         | Inr None \<Rightarrow> Inl (-1)
         | Inr (Some h) \<Rightarrow>
             (case p11_get_obj_attr p11 h CKA_VALUE of Inl rc \<Rightarrow> Inl (int rc) | Inr v \<Rightarrow> Inr v))"

text \<open>
  The identifier of a key as text: two hexadecimal digits for each byte, which \<open>sscanf\<close> reads one byte
  at a time into a buffer of 32 bytes; a byte at whose place there is no digit keeps what was in the
  buffer, \<open>junk\<close>.
\<close>

definition scan_2hhx :: "byte \<Rightarrow> string \<Rightarrow> byte" where
  "scan_2hhx junk p =
     (let ds = takeWhile (\<lambda>c. hex_digit_value c \<noteq> None) (take 2 p)
      in if ds = [] then junk else of_nat (hex_number ds))"

definition p11_key_id :: "(nat \<Rightarrow> byte) \<Rightarrow> string \<Rightarrow> ub + byte list" where
  "p11_key_id junk idstr =
     (let idlen = (length idstr + 1) div 2
      in if idlen > 32 then Inl Out_Of_Bounds_Write
         else Inr (map (\<lambda>idx. scan_2hhx (junk idx) (drop (2 * idx) idstr)) [0..<idlen]))"

text \<open>What is asked for, besides the class: the identifier when there is one, else the label.\<close>

definition p11_key_query :: "(nat \<Rightarrow> byte) \<Rightarrow> string \<Rightarrow> byte list \<Rightarrow> ub + template option" where
  "p11_key_query junk idstr label =
     (if idstr \<noteq> [] then ub_bind (p11_key_id junk idstr) (\<lambda>ident. Inr (Some [(CKA_ID, Ck_Bytes ident)]))
      else if label \<noteq> [] then Inr (Some [(CKA_LABEL, Ck_Bytes label)])
      else Inr None)"

definition p11_load_key :: "(nat \<Rightarrow> byte) \<Rightarrow> p11_context \<Rightarrow> string \<Rightarrow> byte list \<Rightarrow> ub + nat + p11_key_ctx" where
  "p11_load_key junk p11 idstr label =
     ub_bind (p11_key_query junk idstr label) (\<lambda>q.
       case q of
         None \<Rightarrow> Inr (Inl CKR_KEY_NEEDED)
       | Some t \<Rightarrow>
           (case fst (p11_search p11 ((CKA_CLASS, Ck_Ulong CKO_PRIVATE_KEY) # t)) of
              Inl rc \<Rightarrow> Inr (Inl rc)
            | Inr None \<Rightarrow> Inr (Inl CKR_KEY_NEEDED)
            | Inr (Some privh) \<Rightarrow>
                (case fst (p11_search p11 ((CKA_CLASS, Ck_Ulong CKO_PUBLIC_KEY) # t)) of
                   Inl rc \<Rightarrow> Inr (Inl rc)
                 | Inr None \<Rightarrow> Inr (Inl CKR_KEY_NEEDED)
                 | Inr (Some pubh) \<Rightarrow>
                     (let (rc, kt) = key_type_of (p11_driver_of p11) privh
                      in if rc \<noteq> CKR_OK then Inr (Inl rc)
                         else Inr (Inr \<lparr>key_type = kt, priv_handle = privh, pub_handle = pubh, key_ctx = p11\<rparr>)))))"

text \<open>Signing into a buffer of \<open>siglen\<close> bytes; \<open>mech0\<close> is the mechanism for RSA keys.\<close>

definition p11_key_sign :: "p11_key_ctx \<Rightarrow> byte list \<Rightarrow> nat \<Rightarrow> nat \<Rightarrow> int + byte list" where
  "p11_key_sign key digest siglen mech0 =
     (let d = p11_driver_of (key_ctx key);
          mech = (if key_type key = CKK_EC then CKM_ECDSA else if key_type key = CKK_RSA then mech0 else 0)
      in if C_SignInit d mech (priv_handle key) \<noteq> CKR_OK then Inl (-1)
         else (let (rc, sig) = C_Sign d digest siglen in if rc \<noteq> CKR_OK then Inl (-1) else Inr sig))"

section \<open>Names of errors\<close>

definition P11_ERRORS :: "(string \<times> nat) list" where
  "P11_ERRORS =
     [(''CKR_OK'', 0), (''CKR_CANCEL'', 1), (''CKR_HOST_MEMORY'', 2), (''CKR_SLOT_ID_INVALID'', 3),
      (''CKR_GENERAL_ERROR'', 5), (''CKR_FUNCTION_FAILED'', 6), (''CKR_ARGUMENTS_BAD'', 7),
      (''CKR_NO_EVENT'', 8), (''CKR_NEED_TO_CREATE_THREADS'', 9), (''CKR_CANT_LOCK'', 10),
      (''CKR_ATTRIBUTE_READ_ONLY'', 16), (''CKR_ATTRIBUTE_SENSITIVE'', 17),
      (''CKR_ATTRIBUTE_TYPE_INVALID'', 18), (''CKR_ATTRIBUTE_VALUE_INVALID'', 19),
      (''CKR_ACTION_PROHIBITED'', 27), (''CKR_DATA_INVALID'', 32), (''CKR_DATA_LEN_RANGE'', 33),
      (''CKR_DEVICE_ERROR'', 48), (''CKR_DEVICE_MEMORY'', 49), (''CKR_DEVICE_REMOVED'', 50),
      (''CKR_ENCRYPTED_DATA_INVALID'', 64), (''CKR_ENCRYPTED_DATA_LEN_RANGE'', 65),
      (''CKR_FUNCTION_CANCELED'', 80), (''CKR_FUNCTION_NOT_PARALLEL'', 81),
      (''CKR_FUNCTION_NOT_SUPPORTED'', 84), (''CKR_KEY_HANDLE_INVALID'', 96), (''CKR_KEY_SIZE_RANGE'', 98),
      (''CKR_KEY_TYPE_INCONSISTENT'', 99), (''CKR_KEY_NOT_NEEDED'', 100), (''CKR_KEY_CHANGED'', 101),
      (''CKR_KEY_NEEDED'', 102), (''CKR_KEY_INDIGESTIBLE'', 103),
      (''CKR_KEY_FUNCTION_NOT_PERMITTED'', 104), (''CKR_KEY_NOT_WRAPPABLE'', 105),
      (''CKR_KEY_UNEXTRACTABLE'', 106), (''CKR_MECHANISM_INVALID'', 112),
      (''CKR_MECHANISM_PARAM_INVALID'', 113), (''CKR_OBJECT_HANDLE_INVALID'', 130),
      (''CKR_OPERATION_ACTIVE'', 144), (''CKR_OPERATION_NOT_INITIALIZED'', 145),
      (''CKR_PIN_INCORRECT'', 160), (''CKR_PIN_INVALID'', 161), (''CKR_PIN_LEN_RANGE'', 162),
      (''CKR_PIN_EXPIRED'', 163), (''CKR_PIN_LOCKED'', 164), (''CKR_SESSION_CLOSED'', 176),
      (''CKR_SESSION_COUNT'', 177), (''CKR_SESSION_HANDLE_INVALID'', 179),
      (''CKR_SESSION_PARALLEL_NOT_SUPPORTED'', 180), (''CKR_SESSION_READ_ONLY'', 181),
      (''CKR_SESSION_EXISTS'', 182), (''CKR_SESSION_READ_ONLY_EXISTS'', 183),
      (''CKR_SESSION_READ_WRITE_SO_EXISTS'', 184), (''CKR_SIGNATURE_INVALID'', 192),
      (''CKR_SIGNATURE_LEN_RANGE'', 193), (''CKR_TEMPLATE_INCOMPLETE'', 208),
      (''CKR_TEMPLATE_INCONSISTENT'', 209), (''CKR_TOKEN_NOT_PRESENT'', 224),
      (''CKR_TOKEN_NOT_RECOGNIZED'', 225), (''CKR_TOKEN_WRITE_PROTECTED'', 226),
      (''CKR_UNWRAPPING_KEY_HANDLE_INVALID'', 240), (''CKR_UNWRAPPING_KEY_SIZE_RANGE'', 241),
      (''CKR_UNWRAPPING_KEY_TYPE_INCONSISTENT'', 242), (''CKR_USER_ALREADY_LOGGED_IN'', 256),
      (''CKR_USER_NOT_LOGGED_IN'', 257), (''CKR_USER_PIN_NOT_INITIALIZED'', 258),
      (''CKR_USER_TYPE_INVALID'', 259), (''CKR_USER_ANOTHER_ALREADY_LOGGED_IN'', 260),
      (''CKR_USER_TOO_MANY_TYPES'', 261), (''CKR_WRAPPED_KEY_INVALID'', 272),
      (''CKR_WRAPPED_KEY_LEN_RANGE'', 274), (''CKR_WRAPPING_KEY_HANDLE_INVALID'', 275),
      (''CKR_WRAPPING_KEY_SIZE_RANGE'', 276), (''CKR_WRAPPING_KEY_TYPE_INCONSISTENT'', 277),
      (''CKR_RANDOM_SEED_NOT_SUPPORTED'', 288), (''CKR_RANDOM_NO_RNG'', 289),
      (''CKR_DOMAIN_PARAMS_INVALID'', 304), (''CKR_CURVE_NOT_SUPPORTED'', 320),
      (''CKR_BUFFER_TOO_SMALL'', 336), (''CKR_SAVED_STATE_INVALID'', 352),
      (''CKR_INFORMATION_SENSITIVE'', 368), (''CKR_STATE_UNSAVEABLE'', 384),
      (''CKR_CRYPTOKI_NOT_INITIALIZED'', 400), (''CKR_CRYPTOKI_ALREADY_INITIALIZED'', 401),
      (''CKR_MUTEX_BAD'', 416), (''CKR_MUTEX_NOT_LOCKED'', 417), (''CKR_NEW_PIN_MODE'', 432),
      (''CKR_NEXT_OTP'', 433), (''CKR_EXCEEDED_MAX_ITERATIONS'', 437),
      (''CKR_FIPS_SELF_TEST_FAILED'', 438), (''CKR_LIBRARY_LOAD_FAILED'', 439),
      (''CKR_PIN_TOO_WEAK'', 440), (''CKR_PUBLIC_KEY_INVALID'', 441), (''CKR_FUNCTION_REJECTED'', 512),
      (''CKR_VENDOR_DEFINED'', 2147483648)]"

primrec p11_error_name :: "nat \<Rightarrow> (string \<times> nat) list \<Rightarrow> string" where
  "p11_error_name rv [] = ''Unexpected Error''"
| "p11_error_name rv (e # es) = (if snd e = rv then fst e else p11_error_name rv es)"

definition p11_strerror :: "nat \<Rightarrow> string" where
  "p11_strerror rv = p11_error_name rv P11_ERRORS"

section \<open>Lemmas\<close>

text \<open>The text of an identifier, in lower case.\<close>

definition hex_char :: "nat \<Rightarrow> char" where
  "hex_char n = char_of (if n < 10 then 48 + n else 87 + n)"

definition hex_text :: "byte list \<Rightarrow> string" where
  "hex_text bs = concat (map (\<lambda>b. [hex_char (unat b div 16), hex_char (unat b mod 16)]) bs)"

lemma hex_digit_value_char: "n < 16 \<Longrightarrow> hex_digit_value (hex_char n) = Some n"
  by (auto simp: hex_char_def hex_digit_value_def)

lemma scan_hex_byte: "scan_2hhx junk (hex_text (b # bs)) = b"
proof -
  have "unat b < 256" using unsigned_less [where w = b, where ?'a = nat] by simp
  then have d: "unat b div 16 < 16" "unat b mod 16 < 16" by auto
  have "hex_number [hex_char (unat b div 16), hex_char (unat b mod 16)] = unat b"
    using hex_digit_value_char [OF d(1)] hex_digit_value_char [OF d(2)] by (simp add: hex_number_def)
  then show ?thesis
    using hex_digit_value_char [OF d(1)] hex_digit_value_char [OF d(2)]
    by (simp add: scan_2hhx_def hex_text_def numeral_2_eq_2)
qed

lemma length_hex_text [simp]: "length (hex_text bs) = 2 * length bs"
  by (induction bs) (simp_all add: hex_text_def)

lemma drop_hex_text: "drop (2 * n) (hex_text bs) = hex_text (drop n bs)"
proof (induction bs arbitrary: n)
  case Nil
  then show ?case by (simp add: hex_text_def)
next
  case (Cons b bs)
  then show ?case by (cases n) (simp_all add: hex_text_def)
qed

lemma p11_key_id_hex:
  assumes "length ident \<le> 32"
  shows "p11_key_id junk (hex_text ident) = Inr ident"
proof -
  have l: "(length (hex_text ident) + 1) div 2 = length ident" by simp
  have "map (\<lambda>idx. scan_2hhx (junk idx) (drop (2 * idx) (hex_text ident))) [0..<length ident] = ident"
  proof (rule nth_equalityI)
    fix k assume "k < length (map (\<lambda>idx. scan_2hhx (junk idx) (drop (2 * idx) (hex_text ident))) [0..<length ident])"
    then have k: "k < length ident" by simp
    then show "map (\<lambda>idx. scan_2hhx (junk idx) (drop (2 * idx) (hex_text ident))) [0..<length ident] ! k = ident ! k"
      by (simp add: drop_hex_text Cons_nth_drop_Suc [symmetric] scan_hex_byte)
  qed simp
  with assms show ?thesis unfolding p11_key_id_def Let_def l by simp
qed

lemma opt_attr_short: "length (opt_attr a v) \<le> 1"
  by (simp add: opt_attr_def split: option.splits)

text \<open>The size of the field of a curve.\<close>

definition curve_bits :: "byte list \<Rightarrow> int" where
  "curve_bits c =
     (if c = prime521v1 then 521 else if c = prime384v1 then 384 else if c = prime256v1 then 256
      else if c = nistp244 then 224 else if c = prime192v1 then 192 else 0)"

lemma get_ec_params_fits: "get_ec_params keysize = Some c \<Longrightarrow> 0 < curve_bits c \<and> curve_bits c \<le> keysize"
  by (auto simp: get_ec_params_def curve_bits_def prime521v1_def prime384v1_def prime256v1_def nistp244_def
      prime192v1_def split: if_splits)

lemma template_lengths:
  shows "length (priv_template ident keytype label) \<le> 10"
    and "length (pub_template ident keytype keysize label) \<le> 10"
    and "length (cert_template ident' label' subj cert) \<le> 8"
proof -
  show "length (priv_template ident keytype label) \<le> 10"
    using opt_attr_short [of CKA_LABEL label] by (simp add: priv_template_def)
  show "length (pub_template ident keytype keysize label) \<le> 10"
    using opt_attr_short [of CKA_LABEL label] opt_attr_short [of CKA_EC_PARAMS "get_ec_params (to_c_int (of_nat keysize))"]
    by (auto simp: pub_template_def ck_codes)
  show "length (cert_template ident' label' subj cert) \<le> 8"
    using opt_attr_short [of CKA_ID ident'] opt_attr_short [of CKA_LABEL label'] opt_attr_short [of CKA_SUBJECT subj]
      opt_attr_short [of CKA_VALUE cert]
    by (simp add: cert_template_def)
qed

text \<open>Every listed error has its own name.\<close>

lemma p11_error_name_listed: "distinct (map snd es) \<Longrightarrow> (n, rv) \<in> set es \<Longrightarrow> p11_error_name rv es = n"
  by (induction es) force+

lemma p11_strerror_listed: "(n, rv) \<in> set P11_ERRORS \<Longrightarrow> p11_strerror rv = n"
  unfolding p11_strerror_def by (rule p11_error_name_listed) (simp_all add: P11_ERRORS_def)

text \<open>A token with one key.\<close>

definition toy_driver :: p11_driver where
  "toy_driver =
     \<lparr>function_list = Some 0, C_Initialize = 0, slot_count = (0, 1), slot_list = (0, [4]),
      C_OpenSession = (\<lambda>s. (0, 9)), C_Login = (\<lambda>s p. 0), C_GetMechanismInfo = (\<lambda>s m. (0, True, 256)),
      C_GenerateRandom = [1, 2, 3, 4, 5, 6, 7, 8], C_GenerateKeyPair = (\<lambda>m a b. (0, 1, 2)), C_CreateObject = (\<lambda>t. 0),
      find_objects = (\<lambda>t. (0, (0, if (CKA_ID, Ck_Bytes [0x2a, 0x07]) \<in> set t
                                   then (if (CKA_CLASS, Ck_Ulong CKO_PRIVATE_KEY) \<in> set t then Some 2 else Some 1)
                                   else None), 0)),
      C_GetAttributeValue = (\<lambda>h a. (0, [])), key_type_of = (\<lambda>h. (0, CKK_EC)), C_SignInit = (\<lambda>m h. 0),
      C_Sign = (\<lambda>d n. (0, d))\<rparr>"

section \<open>Defects\<close>

text \<open>A token that generates only RSA keys is refused: its RSA mechanism is never asked for.\<close>

lemma rsa_only_token_refused:
  assumes "C_GetMechanismInfo (p11_driver_of p11) (p11_slot_id p11) CKM_EC_KEY_PAIR_GEN = (rv, pair, max_size)"
    and "rv \<noteq> CKR_OK \<or> \<not> pair"
  shows "p11_gen_key p11 label = Inr None"
  using assms by (auto simp: p11_gen_key_def try_types_def)

text \<open>Without a slot in the reader, the first entry of an empty list is read.\<close>

lemma no_slot_reads_beyond:
  assumes "slot_count d = (CKR_OK, 0)" and "fst (slot_list d) = CKR_OK"
  shows "p11_slot d None = Inl Out_Of_Bounds_Read"
  using assms by (simp add: p11_slot_def split_beta)

text \<open>An identifier of more than 64 digits is written beyond the buffer.\<close>

lemma long_id_overflows: "length idstr > 64 \<Longrightarrow> p11_load_key junk p11 idstr label = Inl Out_Of_Bounds_Write"
  by (auto simp: p11_load_key_def p11_key_query_def p11_key_id_def Let_def)

text \<open>
  A search whose second call fails is not ended; the token refuses the next search of the session.
\<close>

lemma failed_search_stays_open:
  assumes "find_objects (p11_driver_of p11) query = (CKR_OK, (rc, obj), rc3)" and "rc \<noteq> CKR_OK"
  shows "p11_search p11 query = (Inl rc, True)"
  using assms by (simp add: p11_search_def)

text \<open>The curve of 224 bits is used from 244 bits on: a token for 224 bits gets a key of 192.\<close>

lemma curve_224_not_used: "get_ec_params 224 = Some prime192v1"
  by (simp add: get_ec_params_def)

section \<open>Properties\<close>



text \<open>
  C37. A key is found by its identifier: for an identifier of 1 to 32 bytes written as hexadecimal digits,
  the search asks the token for exactly these bytes, first among the private and then among the
  public keys, and the key has the handles and the type the token reports; when one of them is not
  there, loading reports that the key is needed.
\<close>

theorem p11_load_key_finds:
  assumes "ident \<noteq> []" and "length ident \<le> 32"
    and "find_objects (p11_driver_of p11) [(CKA_CLASS, Ck_Ulong CKO_PRIVATE_KEY), (CKA_ID, Ck_Bytes ident)] =
      (CKR_OK, (CKR_OK, privh), CKR_OK)"
    and "find_objects (p11_driver_of p11) [(CKA_CLASS, Ck_Ulong CKO_PUBLIC_KEY), (CKA_ID, Ck_Bytes ident)] =
      (CKR_OK, (CKR_OK, pubh), CKR_OK)"
    and "\<forall>h. privh = Some h \<longrightarrow> key_type_of (p11_driver_of p11) h = (CKR_OK, kt)"
  shows "p11_load_key junk p11 (hex_text ident) label =
    (case (privh, pubh) of
       (Some a, Some b) \<Rightarrow> Inr (Inr \<lparr>key_type = kt, priv_handle = a, pub_handle = b, key_ctx = p11\<rparr>)
     | _ \<Rightarrow> Inr (Inl CKR_KEY_NEEDED))"
proof -
  have "hex_text ident \<noteq> []" using assms(1) length_hex_text [of ident] by (metis length_0_conv mult_is_0 zero_neq_numeral)
  then have "p11_key_query junk (hex_text ident) label = Inr (Some [(CKA_ID, Ck_Bytes ident)])"
    by (simp add: p11_key_query_def p11_key_id_hex [OF assms(2)])
  with assms(3-5) show ?thesis
    by (simp add: p11_load_key_def p11_search_def split: option.splits)
qed

theorem p11_load_key_finds_witness:
  "p11_load_key (\<lambda>_. 0) \<lparr>p11_driver_of = toy_driver, p11_session = 9, p11_slot_id = 4\<rparr> ''2a07'' [] =
   Inr (Inr \<lparr>key_type = CKK_EC, priv_handle = 2, pub_handle = 1,
             key_ctx = \<lparr>p11_driver_of = toy_driver, p11_session = 9, p11_slot_id = 4\<rparr>\<rparr>)"
proof -
  let ?p = "\<lparr>p11_driver_of = toy_driver, p11_session = 9, p11_slot_id = 4\<rparr>"
  have h: "hex_text [0x2a, 0x07] = ''2a07''" by code_simp
  have "[0x2a, 0x07] \<noteq> ([] :: byte list)" "length [0x2a, 0x07 :: byte] \<le> 32" by simp_all
  from p11_load_key_finds [OF this, of ?p "Some 2" "Some 1" CKK_EC "\<lambda>_. 0" "[]"] show ?thesis
    unfolding h by (simp add: toy_driver_def ck_codes)
qed

end
