(* ===== verification/Uv_Link.thy ===== *)
theory Uv_Link
  imports Prelude
begin

text \<open>
  Chains of links, from \<open>deps/uv_link_t/src/uv_link_t.c\<close> and \<open>uv_link_source_t.c\<close>: linking and
  unlinking, error codes that carry the place of a link in its chain, and closing a chain. Links point
  at each other, so the model has a heap of links; callbacks are known by numbers. Walking a chain
  may not end when the pointers form a cycle, so the walks are partial functions.
\<close>

section \<open>Data\<close>

text \<open>What closing a link does: call back at once, or close the stream of a source first.\<close>

datatype lk_stream = No_Stream | Stream_Open | Stream_Closing | Stream_Gone

record uv_link =
  lk_parent :: "nat option"
  lk_child :: "nat option"
  lk_alloc_cb :: nat
  lk_read_cb :: nat
  lk_alloc_override :: "nat option"
  lk_read_override :: "nat option"
  lk_saved_alloc_cb :: "nat option"
  lk_saved_read_cb :: "nat option"
  lk_err_prefix :: uint32
  lk_close_depth :: int
  lk_close_waiting :: int
  lk_saved_close_cb :: "nat option"
  lk_pending :: "nat option"
  lk_stream :: lk_stream
  lk_close_source :: "nat option"

type_synonym link_heap = "nat \<rightharpoonup> uv_link"

text \<open>What the code outside a chain sees: a stream to close, and the close callback of a link.\<close>

datatype chain_out = Chain_Uv_Close nat | Chain_Close_Cb nat nat

section \<open>Operations\<close>

text \<open>\<open>dalloc\<close> and \<open>dread\<close> are the default callbacks; a source has a stream.\<close>

definition uv_link_init :: "nat \<Rightarrow> nat \<Rightarrow> nat option \<Rightarrow> nat option \<Rightarrow> lk_stream \<Rightarrow> uv_link" where
  "uv_link_init dalloc dread aover rover stream =
     \<lparr>lk_parent = None, lk_child = None, lk_alloc_cb = dalloc, lk_read_cb = dread, lk_alloc_override = aover,
      lk_read_override = rover, lk_saved_alloc_cb = None, lk_saved_read_cb = None, lk_err_prefix = push_bit 16 1,
      lk_close_depth = 0, lk_close_waiting = 0, lk_saved_close_cb = None, lk_pending = None, lk_stream = stream,
      lk_close_source = None\<rparr>"

text \<open>
  An error of a link gets the link's prefix in its upper half, unless it has one or is an error of
  libuv. The arithmetic is that of C on 32 bits.
\<close>

definition kErrorPrefixMask :: uint32 where "kErrorPrefixMask = 0xFFFF0000"
definition kErrorValueMask :: uint32 where "kErrorValueMask = 0x0000FFFF"

definition uv_link_error :: "uv_link option \<Rightarrow> int \<Rightarrow> int" where
  "uv_link_error link err =
     (case link of
        None \<Rightarrow> err
      | Some r \<Rightarrow>
          if err \<ge> UV_ERRNO_MAX then err
          else if of_int (- err) AND kErrorPrefixMask \<noteq> 0 then err
          else sint (- (of_int (- err) OR lk_err_prefix r)))"

partial_function (option) find_prefix :: "link_heap \<Rightarrow> nat option \<Rightarrow> uint32 \<Rightarrow> (ub + nat option) option" where
  "find_prefix h p prefix =
     (case p of
        None \<Rightarrow> Some (Inr None)
      | Some l \<Rightarrow>
          (case h l of
             None \<Rightarrow> Some (Inl Bad_Pointer)
           | Some r \<Rightarrow> if prefix = lk_err_prefix r then Some (Inr (Some l)) else find_prefix h (lk_parent r) prefix))"

declare find_prefix.simps [code]

definition uv_link_errno :: "link_heap \<Rightarrow> nat option \<Rightarrow> int \<Rightarrow> ub + nat option \<times> int" where
  "uv_link_errno h link err =
     (if err \<ge> UV_ERRNO_MAX then Inr (None, err)
      else
        (let prefix = of_int (- err) AND kErrorPrefixMask;
             local_err = sint (- (of_int (- err) AND kErrorValueMask))
         in case find_prefix h link prefix of
              None \<Rightarrow> Inl Endless_Loop
            | Some r \<Rightarrow> ub_bind r (\<lambda>l. Inr (case l of None \<Rightarrow> (None, err) | Some x \<Rightarrow> (Some x, local_err)))))"

partial_function (option) uv_link_recalculate_prefixes :: "link_heap \<Rightarrow> nat option \<Rightarrow> uint16 \<Rightarrow> (ub + link_heap) option" where
  "uv_link_recalculate_prefixes h link prev =
     (case link of
        None \<Rightarrow> Some (Inr h)
      | Some l \<Rightarrow>
          (case h l of
             None \<Rightarrow> Some (Inl Bad_Pointer)
           | Some r \<Rightarrow>
               uv_link_recalculate_prefixes (h(l \<mapsto> r\<lparr>lk_err_prefix := push_bit 16 (ucast (prev + 1))\<rparr>)) (lk_child r) (prev + 1)))"

declare uv_link_recalculate_prefixes.simps [code]

text \<open>A link without overriding callbacks makes the check of the code abort the program.\<close>

definition uv_link_chain :: "link_heap \<Rightarrow> nat \<Rightarrow> nat \<Rightarrow> ub + int \<times> link_heap" where
  "uv_link_chain h from to =
     (case (h from, h to) of
        (Some f, Some t) \<Rightarrow>
          if lk_child f \<noteq> None \<or> lk_parent t \<noteq> None then Inr (UV_EINVAL, h)
          else (case (lk_alloc_override t, lk_read_override t) of
             (Some ao, Some ro) \<Rightarrow>
               (let f1 = (if from = to then f\<lparr>lk_parent := Some from\<rparr> else f);
                    h1 = h(to \<mapsto> t\<lparr>lk_parent := Some from\<rparr>,
                           from \<mapsto> f1\<lparr>lk_child := Some to, lk_saved_alloc_cb := Some (lk_alloc_cb f),
                                     lk_saved_read_cb := Some (lk_read_cb f), lk_alloc_cb := ao, lk_read_cb := ro\<rparr>)
                in case uv_link_recalculate_prefixes h1 (Some to) (ucast (drop_bit 16 (lk_err_prefix f))) of
                     None \<Rightarrow> Inl Endless_Loop
                   | Some r \<Rightarrow> ub_bind r (\<lambda>h2. Inr (0, h2)))
           | _ \<Rightarrow> Inl Bad_Pointer)
      | _ \<Rightarrow> Inl Bad_Pointer)"

text \<open>The saved callbacks come back; a null pointer is the number 0.\<close>

definition uv_link_unchain :: "link_heap \<Rightarrow> nat \<Rightarrow> nat \<Rightarrow> ub + int \<times> link_heap" where
  "uv_link_unchain h from to =
     (case (h from, h to) of
        (Some f, Some t) \<Rightarrow>
          if lk_child f \<noteq> Some to \<or> lk_parent t \<noteq> Some from then Inr (UV_EINVAL, h)
          else
            Inr (0, h(to \<mapsto> t\<lparr>lk_parent := None\<rparr>,
                      from \<mapsto> (if from = to then f\<lparr>lk_parent := None\<rparr> else f)\<lparr>lk_child := None,
                                lk_alloc_cb := (case lk_saved_alloc_cb f of None \<Rightarrow> 0 | Some c \<Rightarrow> c),
                                lk_read_cb := (case lk_saved_read_cb f of None \<Rightarrow> 0 | Some c \<Rightarrow> c),
                                lk_saved_alloc_cb := None, lk_saved_read_cb := None\<rparr>))
      | _ \<Rightarrow> Inl Bad_Pointer)"

text \<open>One of the links that the close of \<open>source\<close> waits for is closed.\<close>

definition uv_link_close_join :: "link_heap \<Rightarrow> nat \<Rightarrow> ub + link_heap \<times> chain_out list" where
  "uv_link_close_join h source =
     (case h source of
        None \<Rightarrow> Inl Bad_Pointer
      | Some r \<Rightarrow>
          (let r1 = r\<lparr>lk_close_waiting := lk_close_waiting r - 1\<rparr>
           in if lk_close_waiting r1 \<noteq> 0 then Inr (h(source \<mapsto> r1), [])
              else (case lk_saved_close_cb r1 of
                 None \<Rightarrow> Inl Bad_Pointer
               | Some cb \<Rightarrow> Inr (h(source \<mapsto> r1), [Chain_Close_Cb source cb]))))"

text \<open>The \<open>close\<close> method of a link.\<close>

definition uv_link_source_close :: "link_heap \<Rightarrow> nat \<Rightarrow> nat \<Rightarrow> ub + link_heap \<times> chain_out list" where
  "uv_link_source_close h l source =
     (case h l of
        None \<Rightarrow> Inl Bad_Pointer
      | Some r \<Rightarrow>
          (case lk_stream r of
             Stream_Open \<Rightarrow>
               Inr (h(l \<mapsto> r\<lparr>lk_stream := Stream_Closing, lk_close_source := Some source\<rparr>), [Chain_Uv_Close l])
           | Stream_Closing \<Rightarrow> Inr (h, [])
           | _ \<Rightarrow> uv_link_close_join h source))"

text \<open>The stream of a source is closed.\<close>

definition uv_link_source_close_cb :: "link_heap \<Rightarrow> nat \<Rightarrow> ub + link_heap \<times> chain_out list" where
  "uv_link_source_close_cb h l =
     (case h l of
        None \<Rightarrow> Inl Bad_Pointer
      | Some r \<Rightarrow>
          (let h1 = h(l \<mapsto> r\<lparr>lk_stream := Stream_Gone\<rparr>)
           in case lk_close_source r of None \<Rightarrow> Inr (h1, []) | Some s \<Rightarrow> uv_link_close_join h1 s))"

definition uv_link_maybe_close :: "link_heap \<Rightarrow> nat \<Rightarrow> ub + link_heap \<times> chain_out list" where
  "uv_link_maybe_close h l =
     (case h l of
        None \<Rightarrow> Inl Bad_Pointer
      | Some r \<Rightarrow>
          (case lk_pending r of
             None \<Rightarrow> Inr (h, [])
           | Some source \<Rightarrow> uv_link_source_close (h(l \<mapsto> r\<lparr>lk_pending := None\<rparr>)) l source))"

text \<open>The beginning and the end of a method or callback of a link.\<close>

definition uv_link_enter :: "link_heap \<Rightarrow> nat \<Rightarrow> ub + link_heap" where
  "uv_link_enter h l =
     (case h l of
        None \<Rightarrow> Inl Bad_Pointer
      | Some r \<Rightarrow> Inr (h(l \<mapsto> r\<lparr>lk_close_depth := lk_close_depth r + 1\<rparr>)))"

definition uv_link_leave :: "link_heap \<Rightarrow> nat \<Rightarrow> ub + link_heap \<times> chain_out list" where
  "uv_link_leave h l =
     (case h l of
        None \<Rightarrow> Inl Bad_Pointer
      | Some r \<Rightarrow>
          (let h1 = h(l \<mapsto> r\<lparr>lk_close_depth := lk_close_depth r - 1\<rparr>)
           in if lk_close_depth r - 1 = 0 then uv_link_maybe_close h1 l else Inr (h1, [])))"

partial_function (option) find_root :: "link_heap \<Rightarrow> nat \<Rightarrow> nat \<Rightarrow> (ub + nat \<times> nat) option" where
  "find_root h l count =
     (case h l of
        None \<Rightarrow> Some (Inl Bad_Pointer)
      | Some r \<Rightarrow>
          (case lk_parent r of None \<Rightarrow> Some (Inr (l, count)) | Some p \<Rightarrow> find_root h p (count + 1)))"

declare find_root.simps [code]

definition close_one :: "link_heap \<Rightarrow> nat \<Rightarrow> nat \<Rightarrow> ub + nat option \<times> link_heap \<times> chain_out list" where
  "close_one h l source =
     (case h l of
        None \<Rightarrow> Inl Bad_Pointer
      | Some r \<Rightarrow>
          ub_bind (case lk_child r of
                     None \<Rightarrow> Inr h
                   | Some c \<Rightarrow> ub_bind (uv_link_unchain h l c) (\<lambda>(rc, h1). if rc \<noteq> 0 then Inl Bad_Pointer else Inr h1))
            (\<lambda>h1. ub_bind
               (case h1 l of
                  None \<Rightarrow> Inl Bad_Pointer
                | Some r1 \<Rightarrow>
                    if lk_close_depth r1 = 0 then uv_link_source_close h1 l source
                    else Inr (h1(l \<mapsto> r1\<lparr>lk_pending := Some source\<rparr>), []))
               (\<lambda>(h2, os). Inr (lk_child r, h2, os))))"

partial_function (option) close_loop ::
  "link_heap \<Rightarrow> nat option \<Rightarrow> nat \<Rightarrow> chain_out list \<Rightarrow> (ub + link_heap \<times> chain_out list) option" where
  "close_loop h root source out =
     (case root of
        None \<Rightarrow> Some (Inr (h, out))
      | Some l \<Rightarrow>
          (case close_one h l source of
             Inl u \<Rightarrow> Some (Inl u)
           | Inr (child, h1, os) \<Rightarrow> close_loop h1 child source (out @ os)))"

declare close_loop.simps [code]

definition uv_link_propagate_close :: "link_heap \<Rightarrow> nat \<Rightarrow> nat \<Rightarrow> nat option \<Rightarrow> ub + link_heap \<times> chain_out list" where
  "uv_link_propagate_close h link source cb =
     (case h link of
        None \<Rightarrow> Inl Bad_Pointer
      | Some r \<Rightarrow>
          if lk_child r \<noteq> None then Inl Bad_Pointer
          else
            (case find_root h link 1 of
               None \<Rightarrow> Inl Endless_Loop
             | Some rt \<Rightarrow> ub_bind rt (\<lambda>(root, count).
                 case h source of
                   None \<Rightarrow> Inl Bad_Pointer
                 | Some s \<Rightarrow>
                     (let h1 = h(source \<mapsto> s\<lparr>lk_close_waiting := lk_close_waiting s + int count, lk_saved_close_cb := cb\<rparr>)
                      in case close_loop h1 (Some root) source [] of None \<Rightarrow> Inl Endless_Loop | Some x \<Rightarrow> x))))"

section \<open>Error codes\<close>

lemma error_word:
  assumes "0 \<le> n" and "n < 65536"
  shows "(of_int n :: uint32) OR push_bit 16 (of_int k) = of_int (n + 65536 * k)"
proof -
  have "n OR push_bit 16 k = n + 65536 * k"
    using concat_bit_eq [of 16 n k] concat_bit_def [of 16 n k] assms by (simp add: take_bit_int_eq_self push_bit_eq_mult)
  then show ?thesis by (metis of_int_or_eq of_int_push_bit)
qed

lemma error_masks:
  assumes "0 \<le> n" and "n < 65536"
  shows "(of_int (n + 65536 * k) :: uint32) AND kErrorPrefixMask = push_bit 16 (of_int k)"
    and "(of_int (n + 65536 * k) :: uint32) AND kErrorValueMask = of_int n"
    and "(of_int n :: uint32) AND kErrorPrefixMask = 0"
proof -
  have m: "kErrorValueMask = mask 16" "kErrorPrefixMask = NOT (mask 16)"
    by (simp_all add: kErrorValueMask_def kErrorPrefixMask_def mask_eq_exp_minus_1)
  have "take_bit 16 n = n" using assms by (simp add: take_bit_int_eq_self)
  then have n: "j < 16" if "bit n j" for j using that by (metis bit_take_bit_iff)
  show "(of_int (n + 65536 * k) :: uint32) AND kErrorPrefixMask = push_bit 16 (of_int k)"
    unfolding error_word [OF assms, symmetric] m(2) using n
    by (intro bit_eqI) (force simp: bit_simps)
  show "(of_int (n + 65536 * k) :: uint32) AND kErrorValueMask = of_int n"
    unfolding error_word [OF assms, symmetric] m(1) using n
    by (intro bit_eqI) (force simp: bit_simps)
  show "(of_int n :: uint32) AND kErrorPrefixMask = 0"
    unfolding m(2) using n by (intro bit_eqI) (force simp: bit_simps)
qed

lemma sint_neg: "0 \<le> v \<Longrightarrow> v < 2 ^ 31 \<Longrightarrow> sint (- (of_int v :: uint32)) = - v"
proof -
  assume v: "0 \<le> v" "v < 2 ^ 31"
  have "sint (- (of_int v :: uint32)) = sint (of_int (- v) :: uint32)" by simp
  also have "\<dots> = signed_take_bit 31 (- v)" by (simp only: signed_of_int) simp
  also have "\<dots> = - v" using v by (intro signed_take_bit_int_eq_self) simp_all
  finally show ?thesis .
qed

section \<open>Chains\<close>

text \<open>
  \<open>links h p ls c k\<close>: the links \<open>ls\<close> hang on each other in the heap, the first one's parent is \<open>p\<close>, the last
  one's child \<open>c\<close>, and the prefixes count from \<open>k\<close>. A whole chain is \<open>chain h ls\<close>.
\<close>

definition first :: "nat list \<Rightarrow> nat option \<Rightarrow> nat option" where
  "first ls c = (case ls of [] \<Rightarrow> c | l # _ \<Rightarrow> Some l)"

lemma first_simps [simp]: "first [] c = c" "first (l # ls) c = Some l"
  by (simp_all add: first_def)

primrec links :: "link_heap \<Rightarrow> nat option \<Rightarrow> nat list \<Rightarrow> nat option \<Rightarrow> nat \<Rightarrow> bool" where
  "links h p [] c k = True"
| "links h p (l # ls) c k =
     ((\<exists>r. h l = Some r \<and> lk_parent r = p \<and> lk_child r = first ls c \<and> lk_err_prefix r = push_bit 16 (of_nat k)) \<and>
      links h (Some l) ls c (k + 1))"

definition chain :: "link_heap \<Rightarrow> nat list \<Rightarrow> bool" where
  "chain h ls \<longleftrightarrow> ls \<noteq> [] \<and> distinct ls \<and> links h None ls None 1"

lemma links_upd [simp]: "l \<notin> set ls \<Longrightarrow> links (h(l \<mapsto> r)) p ls c k = links h p ls c k"
  by (induction ls arbitrary: p k) auto

lemma links_cong: "(\<And>l. l \<in> set ls \<Longrightarrow> h l = h' l) \<Longrightarrow> links h p ls c k = links h' p ls c k"
  by (induction ls arbitrary: p k) auto

lemma links_append:
  "links h p (xs @ ys) c k \<longleftrightarrow>
     links h p xs (first ys c) k \<and> links h (if xs = [] then p else Some (last xs)) ys c (k + length xs)"
proof (induction xs arbitrary: p k)
  case (Cons x xs)
  have "first (xs @ ys) c = first xs (first ys c)" by (cases xs) simp_all
  with Cons show ?case by auto
qed simp

text \<open>The same without the prefixes.\<close>

primrec shape :: "link_heap \<Rightarrow> nat option \<Rightarrow> nat list \<Rightarrow> bool" where
  "shape h p [] = True"
| "shape h p (l # ls) = ((\<exists>r. h l = Some r \<and> lk_parent r = p \<and> lk_child r = first ls None) \<and> shape h (Some l) ls)"

lemma shape_upd [simp]: "l \<notin> set ls \<Longrightarrow> shape (h(l \<mapsto> r)) p ls = shape h p ls"
  by (induction ls arbitrary: p) auto

lemma links_shape: "links h p ls None k \<Longrightarrow> shape h p ls"
  by (induction ls arbitrary: p k) auto

lemma recalculate_result:
  assumes "shape h p ls" and "distinct ls" and "unat prev + length ls < 65536"
  shows "\<exists>h'. uv_link_recalculate_prefixes h (first ls None) prev = Some (Inr h') \<and>
    links h' p ls None (unat prev + 1) \<and> (\<forall>l. l \<notin> set ls \<longrightarrow> h' l = h l)"
  using assms
proof (induction ls arbitrary: h p prev)
  case Nil
  show ?case by (simp add: uv_link_recalculate_prefixes.simps)
next
  case (Cons l ls)
  from Cons.prems obtain r where r: "h l = Some r" "lk_parent r = p" "lk_child r = first ls None" "shape h (Some l) ls"
    by auto
  let ?r = "r\<lparr>lk_err_prefix := push_bit 16 (ucast (prev + 1))\<rparr>"
  let ?h = "h(l \<mapsto> ?r)"
  have u: "unat (prev + 1) = unat prev + 1"
    using Cons.prems(3) by (simp add: unat_word_ariths(1))
  have "shape ?h (Some l) ls" "distinct ls" "unat (prev + 1) + length ls < 65536"
    using r(4) Cons.prems u by simp_all
  from Cons.IH [OF this] obtain h' where h': "uv_link_recalculate_prefixes ?h (first ls None) (prev + 1) = Some (Inr h')"
    "links h' (Some l) ls None (unat (prev + 1) + 1)" "\<forall>x. x \<notin> set ls \<longrightarrow> h' x = ?h x" by blast
  have "h' l = Some ?r" using h'(3) Cons.prems(2) by simp
  moreover have "lk_err_prefix ?r = push_bit 16 (of_nat (unat prev + 1))"
    by (simp only: u [symmetric] of_nat_unat) simp
  ultimately have "links h' p (l # ls) None (unat prev + 1)" using r h'(2) u by simp
  moreover have "uv_link_recalculate_prefixes h (first (l # ls) None) prev = Some (Inr h')"
    using r(1,3) h'(1) by (subst uv_link_recalculate_prefixes.simps) simp
  moreover have "\<forall>x. x \<notin> set (l # ls) \<longrightarrow> h' x = h x" using h'(3) by simp
  ultimately show ?case by blast
qed

lemma links_heads:
  assumes "links h None xs None 1" and "xs \<noteq> []" and "distinct xs"
  shows "\<exists>f. h (last xs) = Some f \<and> lk_child f = None \<and> lk_err_prefix f = push_bit 16 (of_nat (length xs))"
proof -
  obtain xs' f where xs: "xs = xs' @ [f]" using assms(2) by (metis rev_exhaust)
  with assms(1) show ?thesis by (auto simp: links_append)
qed

lemma chain_result:
  assumes "chain h xs" and "chain h ys" and "set xs \<inter> set ys = {}" and "length xs + length ys < 65536"
    and "h (hd ys) = Some t" and "lk_alloc_override t = Some ao" and "lk_read_override t = Some ro"
  shows "\<exists>h'. uv_link_chain h (last xs) (hd ys) = Inr (0, h') \<and> chain h' (xs @ ys)"
proof -
  obtain y ys' where ys: "ys = y # ys'" using assms(2) by (cases ys) (simp_all add: chain_def)
  obtain xs' x where xs: "xs = xs' @ [x]" using assms(1) by (metis chain_def rev_exhaust)
  have ne: "x \<noteq> y" "x \<notin> set xs'" "y \<notin> set xs'" "x \<notin> set ys'" "y \<notin> set ys'"
    using assms(1-3) by (auto simp: xs ys chain_def)
  obtain f where f: "h x = Some f" "lk_child f = None" "lk_err_prefix f = push_bit 16 (of_nat (length xs))"
    using links_heads [of h xs] assms(1) by (auto simp: chain_def xs)
  have lx: "links h None xs' (Some x) 1" "lk_parent f = (if xs' = [] then None else Some (last xs'))"
    using assms(1) f(1) by (auto simp: chain_def xs links_append)
  have ly: "h y = Some t" "lk_parent t = None" "lk_child t = first ys' None" "shape h (Some y) ys'"
    using assms(2,5) links_shape by (auto simp: chain_def ys)
  let ?f = "f\<lparr>lk_child := Some y, lk_saved_alloc_cb := Some (lk_alloc_cb f), lk_saved_read_cb := Some (lk_read_cb f),
    lk_alloc_cb := ao, lk_read_cb := ro\<rparr>"
  let ?h1 = "h(y \<mapsto> t\<lparr>lk_parent := Some x\<rparr>, x \<mapsto> ?f)"
  have sh: "shape ?h1 (Some x) ys" using ly ne by (simp add: ys)
  have pre: "ucast (drop_bit 16 (lk_err_prefix f)) = (of_nat (length xs) :: uint16)"
    unfolding f(3) by (intro bit_eqI) (simp add: bit_simps)
  have lt: "unat (of_nat (length xs) :: uint16) = length xs"
    using assms(4) by (simp add: unat_of_nat take_bit_nat_eq_self)
  obtain h2 where h2: "uv_link_recalculate_prefixes ?h1 (first ys None) (of_nat (length xs)) = Some (Inr h2)"
    "links h2 (Some x) ys None (length xs + 1)" "\<forall>l. l \<notin> set ys \<longrightarrow> h2 l = ?h1 l"
    using recalculate_result [OF sh _, of "of_nat (length xs)"] assms(2,4) lt by (auto simp: chain_def)
  have "uv_link_chain h (last xs) (hd ys) = Inr (0, h2)"
    using f ly(1,2) assms(6,7) h2(1) ne(1) pre by (simp add: uv_link_chain_def xs ys Let_def)
  moreover have "links h2 None (xs @ ys) None 1"
  proof -
    have "links h2 None xs' (Some x) 1 = links h None xs' (Some x) 1"
      by (rule links_cong) (use h2(3) ne assms(3) in \<open>auto simp: xs ys\<close>)
    moreover have "h2 x = Some ?f" using h2(3) ne by (auto simp: ys)
    ultimately show ?thesis using lx f(3) h2(2) by (simp add: links_append xs ys)
  qed
  ultimately show ?thesis using assms(1-3) by (auto simp: chain_def)
qed

lemma links_nth:
  assumes "links h p ls c k" and "i < length ls"
  shows "\<exists>r. h (ls ! i) = Some r \<and> lk_parent r = (if i = 0 then p else Some (ls ! (i - 1))) \<and>
    lk_child r = (if i + 1 < length ls then Some (ls ! (i + 1)) else c) \<and> lk_err_prefix r = push_bit 16 (of_nat (k + i))"
  using assms
proof (induction ls arbitrary: p k i)
  case (Cons l ls)
  show ?case
  proof (cases i)
    case 0
    with Cons.prems show ?thesis by (cases ls) auto
  next
    case (Suc j)
    from Cons.IH [of "Some l" "k + 1" j] Cons.prems Suc show ?thesis by (cases j) auto
  qed
qed simp

lemma prefix_inj:
  assumes "a < 65536" and "b < 65536" and "push_bit 16 (of_nat a :: uint32) = push_bit 16 (of_nat b)"
  shows "a = b"
proof -
  have "(of_nat (65536 * a) :: uint32) = of_nat (65536 * b)"
    using assms(3) by (simp add: push_bit_eq_mult mult.commute)
  then have "unat (of_nat (65536 * a) :: uint32) = unat (of_nat (65536 * b) :: uint32)" by (rule arg_cong)
  then show ?thesis using assms(1,2) by (simp only: unat_of_nat) (simp add: take_bit_nat_eq_self)
qed

lemma find_prefix_result:
  assumes "links h None ls None 1" and "j < length ls" and "i \<le> j" and "length ls < 32768"
  shows "find_prefix h (Some (ls ! j)) (push_bit 16 (of_nat (i + 1))) = Some (Inr (Some (ls ! i)))"
  using assms(2,3)
proof (induction j)
  case 0
  with links_nth [OF assms(1), of 0] show ?case by (auto simp: find_prefix.simps [of h "Some (ls ! 0)"])
next
  case (Suc j)
  obtain r where r: "h (ls ! Suc j) = Some r" "lk_parent r = Some (ls ! j)" "lk_err_prefix r = push_bit 16 (of_nat (1 + Suc j))"
    using links_nth [OF assms(1) Suc.prems(1)] by auto
  show ?case
  proof (cases "i = Suc j")
    case True
    with r show ?thesis by (subst find_prefix.simps) simp
  next
    case False
    then have "push_bit 16 (of_nat (i + 1) :: uint32) \<noteq> push_bit 16 (of_nat (1 + Suc j))"
      using prefix_inj [of "i + 1" "1 + Suc j"] Suc.prems assms(4) by auto
    with r have "find_prefix h (Some (ls ! Suc j)) (push_bit 16 (of_nat (i + 1))) =
        find_prefix h (Some (ls ! j)) (push_bit 16 (of_nat (i + 1)))"
      by (subst find_prefix.simps) simp
    with Suc False show ?thesis by simp
  qed
qed

section \<open>Closing\<close>

text \<open>
  A link that the close of \<open>src\<close> waits for: its close is put off until its methods and callbacks have
  returned, or its stream is being closed.
\<close>

definition waits :: "nat \<Rightarrow> uv_link \<Rightarrow> bool" where
  "waits src r \<longleftrightarrow> lk_pending r = Some src \<or> lk_stream r = Stream_Closing \<and> lk_close_source r = Some src"

definition waiting_for :: "link_heap \<Rightarrow> nat \<Rightarrow> nat set" where
  "waiting_for h src = {l. \<exists>r. h l = Some r \<and> waits src r}"

text \<open>The links of a heap in which at most the close of \<open>src\<close> is under way.\<close>

definition close_wf :: "nat \<Rightarrow> uv_link \<Rightarrow> bool" where
  "close_wf src r \<longleftrightarrow> lk_close_depth r \<ge> 0 \<and> lk_pending r \<in> {None, Some src} \<and> lk_close_source r \<in> {None, Some src} \<and>
     (lk_pending r = Some src \<longrightarrow> lk_close_depth r > 0 \<and> lk_stream r \<noteq> Stream_Closing) \<and>
     (lk_stream r = Stream_Closing \<longrightarrow> lk_close_source r = Some src)"

text \<open>The close of \<open>src\<close> waits for the links above and for \<open>n\<close> more.\<close>

definition closing :: "link_heap \<Rightarrow> nat \<Rightarrow> nat \<Rightarrow> nat \<Rightarrow> bool" where
  "closing h src cb n \<longleftrightarrow> finite (waiting_for h src) \<and> (\<forall>l r. h l = Some r \<longrightarrow> close_wf src r) \<and>
     (\<exists>s. h src = Some s \<and> lk_close_waiting s = int (card (waiting_for h src) + n) \<and> lk_saved_close_cb s = Some cb)"

text \<open>The callbacks of a list of outputs.\<close>

definition close_cbs :: "chain_out list \<Rightarrow> (nat \<times> nat) list" where
  "close_cbs os = concat (map (\<lambda>x. case x of Chain_Close_Cb s cb \<Rightarrow> [(s, cb)] | _ \<Rightarrow> []) os)"

lemma close_cbs_simps [simp]:
  "close_cbs [] = []" "close_cbs (xs @ ys) = close_cbs xs @ close_cbs ys"
  "close_cbs [Chain_Close_Cb s cb] = [(s, cb)]" "close_cbs [Chain_Uv_Close l] = []"
  by (simp_all add: close_cbs_def)

text \<open>What a step that ends the wait for one link calls.\<close>

definition done_cbs :: "link_heap \<Rightarrow> nat \<Rightarrow> nat \<Rightarrow> nat \<Rightarrow> (nat \<times> nat) list" where
  "done_cbs h src cb n = (if waiting_for h src = {} \<and> n = 0 then [(src, cb)] else [])"

lemma waiting_for_upd:
  "waiting_for (h(l \<mapsto> r)) src = (if waits src r then insert l (waiting_for h src) else waiting_for h src - {l})"
  by (auto simp: waiting_for_def)

lemma waiting_for_same:
  "h l = Some r0 \<Longrightarrow> waits src r = waits src r0 \<Longrightarrow> waiting_for (h(l \<mapsto> r)) src = waiting_for h src"
  by (auto simp: waiting_for_upd waiting_for_def)

lemma join_result:
  assumes "closing h src cb (Suc n)"
  shows "\<exists>s h' os. h src = Some s \<and> uv_link_close_join h src = Inr (h', os) \<and>
    h' = h(src \<mapsto> s\<lparr>lk_close_waiting := lk_close_waiting s - 1\<rparr>) \<and>
    closing h' src cb n \<and> close_cbs os = done_cbs h' src cb n \<and> waiting_for h' src = waiting_for h src"
proof -
  obtain s where s: "h src = Some s" "lk_close_waiting s = int (card (waiting_for h src) + Suc n)" "lk_saved_close_cb s = Some cb"
    using assms by (auto simp: closing_def)
  let ?s = "s\<lparr>lk_close_waiting := lk_close_waiting s - 1\<rparr>"
  let ?h = "h(src \<mapsto> ?s)"
  have w: "waiting_for ?h src = waiting_for h src" using waiting_for_same [of h src s src ?s] s(1) by (simp add: waits_def)
  have f: "finite (waiting_for h src)" using assms by (simp add: closing_def)
  have "close_wf src s" using assms s(1) by (simp add: closing_def)
  then have wf: "\<forall>l r. ?h l = Some r \<longrightarrow> close_wf src r" using assms by (auto simp: closing_def close_wf_def)
  have "closing ?h src cb n" unfolding closing_def w using f wf s by simp
  moreover have "lk_close_waiting ?s = int (card (waiting_for h src) + n)" using s(2) by simp
  then have "lk_close_waiting ?s = 0 \<longleftrightarrow> waiting_for h src = {} \<and> n = 0" using f by (simp only: of_nat_eq_0_iff add_is_0 card_eq_0_iff) auto
  ultimately show ?thesis using s w by (auto simp: uv_link_close_join_def done_cbs_def Let_def)
qed

text \<open>The parts of a link that a close does not touch.\<close>

definition close_view :: "uv_link \<Rightarrow> int \<times> nat option \<times> lk_stream" where
  "close_view r = (lk_close_depth r, lk_pending r, lk_stream r)"

definition same_links :: "link_heap \<Rightarrow> link_heap \<Rightarrow> nat \<Rightarrow> bool" where
  "same_links h h' l \<longleftrightarrow> (\<forall>x. x \<noteq> l \<longrightarrow> map_option close_view (h' x) = map_option close_view (h x)) \<and>
     (\<forall>x. map_option (\<lambda>r. (lk_parent r, lk_child r)) (h' x) = map_option (\<lambda>r. (lk_parent r, lk_child r)) (h x))"

lemma source_close_result:
  assumes "closing h src cb (Suc n)" and "h l = Some r" and "\<not> waits src r" and "lk_close_depth r = 0"
  shows "\<exists>h' os. uv_link_source_close h l src = Inr (h', os) \<and> closing h' src cb n \<and>
    close_cbs os = done_cbs h' src cb n \<and> same_links h h' l \<and> waiting_for h' src \<subseteq> insert l (waiting_for h src)"
proof (cases "lk_stream r = Stream_Open")
  case True
  let ?r = "r\<lparr>lk_stream := Stream_Closing, lk_close_source := Some src\<rparr>"
  let ?h = "h(l \<mapsto> ?r)"
  have f: "finite (waiting_for h src)" using assms(1) by (simp add: closing_def)
  have n: "l \<notin> waiting_for h src" using assms(2,3) by (simp add: waiting_for_def)
  have w: "waiting_for ?h src = insert l (waiting_for h src)" by (simp add: waiting_for_upd waits_def)
  have "close_wf src r" using assms(1,2) by (simp add: closing_def)
  then have "close_wf src ?r" using assms(3,4) by (auto simp: close_wf_def waits_def)
  then have wf: "\<forall>x y. ?h x = Some y \<longrightarrow> close_wf src y" using assms(1) by (auto simp: closing_def)
  obtain s where s: "h src = Some s" "lk_close_waiting s = int (card (waiting_for h src) + Suc n)" "lk_saved_close_cb s = Some cb"
    using assms(1) by (auto simp: closing_def)
  have c: "card (waiting_for ?h src) = Suc (card (waiting_for h src))" using f n by (simp add: w)
  have "\<exists>y. ?h src = Some y \<and> lk_close_waiting y = int (card (waiting_for ?h src) + n) \<and> lk_saved_close_cb y = Some cb"
    using s assms(2) c by auto
  then have "closing ?h src cb n" unfolding closing_def using f wf w by auto
  moreover have "uv_link_source_close h l src = Inr (?h, [Chain_Uv_Close l])"
    using assms(2) True by (simp add: uv_link_source_close_def)
  moreover have "same_links h ?h l" using assms(2) by (simp add: same_links_def)
  moreover have "done_cbs ?h src cb n = []" by (simp add: done_cbs_def w)
  ultimately show ?thesis using w by simp
next
  case False
  have "close_wf src r" using assms(1,2) by (simp add: closing_def)
  then have "lk_stream r \<noteq> Stream_Closing" using assms(3) by (auto simp: close_wf_def waits_def)
  with False assms(2) have "uv_link_source_close h l src = uv_link_close_join h src"
    by (simp add: uv_link_source_close_def split: lk_stream.splits)
  moreover obtain s h' os where "h src = Some s" "uv_link_close_join h src = Inr (h', os)"
    "h' = h(src \<mapsto> s\<lparr>lk_close_waiting := lk_close_waiting s - 1\<rparr>)" "closing h' src cb n" "close_cbs os = done_cbs h' src cb n"
    "waiting_for h' src = waiting_for h src"
    using join_result [OF assms(1)] by blast
  moreover from this have "same_links h h' l" by (simp add: same_links_def close_view_def)
  ultimately show ?thesis by (simp add: subset_insertI)
qed

lemma closing_upd:
  assumes "closing h src cb n" and "h l = Some r0" and "close_wf src r" and "waits src r = waits src r0"
    and "lk_close_waiting r = lk_close_waiting r0" and "lk_saved_close_cb r = lk_saved_close_cb r0"
  shows "closing (h(l \<mapsto> r)) src cb n"
proof -
  have w: "waiting_for (h(l \<mapsto> r)) src = waiting_for h src"
    using waiting_for_same [of h l r0 src r] assms(2,4) by simp
  show ?thesis unfolding closing_def w using assms by (auto simp: closing_def)
qed

text \<open>A link that is still to be closed.\<close>

definition to_close :: "link_heap \<Rightarrow> nat \<Rightarrow> nat list \<Rightarrow> bool" where
  "to_close h src ls \<longleftrightarrow> (\<forall>l \<in> set ls. \<exists>r. h l = Some r \<and> \<not> waits src r)"

lemma waits_view: "close_wf src r \<Longrightarrow> waits src r \<longleftrightarrow> lk_pending r = Some src \<or> lk_stream r = Stream_Closing"
  by (auto simp: close_wf_def waits_def)

lemma shape_same:
  "same_links h h' l \<Longrightarrow> shape h' p ls = shape h p ls"
proof (induction ls arbitrary: p)
  case (Cons x ls)
  have "map_option (\<lambda>r. (lk_parent r, lk_child r)) (h' x) = map_option (\<lambda>r. (lk_parent r, lk_child r)) (h x)"
    using Cons.prems by (simp add: same_links_def)
  then have "(\<exists>r. h' x = Some r \<and> lk_parent r = p \<and> lk_child r = c) \<longleftrightarrow>
      (\<exists>r. h x = Some r \<and> lk_parent r = p \<and> lk_child r = c)" for c
    by (cases "h x"; cases "h' x") auto
  with Cons show ?case by simp
qed simp

lemma to_close_same:
  assumes "same_links h h' l" and "l \<notin> set ls" and "to_close h src ls" and "closing h src cb m" and "closing h' src cb n"
  shows "to_close h' src ls"
  unfolding to_close_def
proof
  fix x assume x: "x \<in> set ls"
  then obtain r where r: "h x = Some r" "\<not> waits src r" using assms(3) by (auto simp: to_close_def)
  have "map_option close_view (h' x) = map_option close_view (h x)" using assms(1,2) x by (auto simp: same_links_def)
  then obtain r' where r': "h' x = Some r'" "close_view r' = close_view r" using r(1) by auto
  have "close_wf src r" "close_wf src r'" using assms(4,5) r(1) r'(1) by (auto simp: closing_def)
  with r(2) r' show "\<exists>r. h' x = Some r \<and> \<not> waits src r" by (auto simp: waits_view close_view_def)
qed

lemma unchain_step:
  assumes "closing h src cb n" and "shape h None (l # ls)" and "distinct (l # ls)" and "to_close h src (l # ls)"
    and "h l = Some r"
  shows "\<exists>h1 r1. (case lk_child r of
        None \<Rightarrow> Inr h
      | Some c \<Rightarrow> ub_bind (uv_link_unchain h l c) (\<lambda>(rc, h1). if rc \<noteq> 0 then Inl Bad_Pointer else Inr h1)) = Inr h1 \<and>
    h1 l = Some r1 \<and> \<not> waits src r1 \<and> close_wf src r1 \<and> closing h1 src cb n \<and> shape h1 None ls \<and> to_close h1 src ls"
proof (cases ls)
  case Nil
  with assms show ?thesis by (auto simp: to_close_def closing_def)
next
  case (Cons c ls')
  have wr: "\<not> waits src r" "close_wf src r" using assms(1,4,5) by (auto simp: to_close_def closing_def)
  obtain rc where rc: "h c = Some rc" "lk_parent rc = Some l" "lk_child rc = first ls' None" "\<not> waits src rc" "close_wf src rc"
    using assms(1,2,4) Cons by (auto simp: to_close_def closing_def)
  have ne: "l \<noteq> c" "l \<notin> set ls'" "c \<notin> set ls'" using assms(3) Cons by auto
  let ?rc = "rc\<lparr>lk_parent := None\<rparr>"
  let ?r = "r\<lparr>lk_child := None, lk_alloc_cb := (case lk_saved_alloc_cb r of None \<Rightarrow> 0 | Some c \<Rightarrow> c),
    lk_read_cb := (case lk_saved_read_cb r of None \<Rightarrow> 0 | Some c \<Rightarrow> c), lk_saved_alloc_cb := None, lk_saved_read_cb := None\<rparr>"
  let ?h = "h(c \<mapsto> ?rc, l \<mapsto> ?r)"
  have "lk_child r = Some c" using assms(2,5) Cons by simp
  then have u: "uv_link_unchain h l c = Inr (0, ?h)" using assms(5) rc ne(1) by (simp add: uv_link_unchain_def)
  have wr': "close_wf src ?rc" "close_wf src ?r" "waits src ?rc = waits src rc" "waits src ?r = waits src r"
    using rc(5) wr(2) by (simp_all add: close_wf_def waits_def)
  have "closing (h(c \<mapsto> ?rc)) src cb n" using closing_upd [OF assms(1) rc(1) wr'(1,3)] by simp
  then have "closing ?h src cb n" by (rule closing_upd [of _ _ _ _ l r]) (use wr' assms(5) ne(1) in simp_all)
  moreover have "shape ?h None ls" using assms(2) Cons ne rc by simp
  moreover have "to_close ?h src ls" using assms(4) Cons ne rc wr' by (auto simp: to_close_def)
  ultimately show ?thesis using \<open>lk_child r = Some c\<close> u wr wr' by auto
qed

lemma close_one_result:
  assumes "closing h src cb (Suc n)" and "shape h None (l # ls)" and "distinct (l # ls)" and "to_close h src (l # ls)"
  shows "\<exists>h' os. close_one h l src = Inr (first ls None, h', os) \<and> closing h' src cb n \<and>
    close_cbs os = done_cbs h' src cb n \<and> shape h' None ls \<and> to_close h' src ls"
proof -
  obtain r where r: "h l = Some r" "lk_child r = first ls None" using assms(2) by auto
  obtain h1 r1 where h1: "(case lk_child r of None \<Rightarrow> Inr h | Some c \<Rightarrow>
        ub_bind (uv_link_unchain h l c) (\<lambda>(rc, h1). if rc \<noteq> 0 then Inl Bad_Pointer else Inr h1)) = Inr h1"
    "h1 l = Some r1" "\<not> waits src r1" "close_wf src r1" "closing h1 src cb (Suc n)" "shape h1 None ls" "to_close h1 src ls"
    using unchain_step [OF assms r(1)] by blast
  have nl: "l \<notin> set ls" using assms(3) by simp
  show ?thesis
  proof (cases "lk_close_depth r1 = 0")
    case True
    obtain h' os where c: "uv_link_source_close h1 l src = Inr (h', os)" "closing h' src cb n"
      "close_cbs os = done_cbs h' src cb n" "same_links h1 h' l"
      using source_close_result [OF h1(5,2,3) True] by blast
    have "close_one h l src = Inr (first ls None, h', os)"
      using r h1(1,2) True c(1) by (simp add: close_one_def)
    moreover have "shape h' None ls" using h1(6) shape_same [OF c(4)] by simp
    moreover have "to_close h' src ls" by (rule to_close_same [OF c(4) nl h1(7,5) c(2)])
    ultimately show ?thesis using c(2,3) by blast
  next
    case False
    let ?r = "r1\<lparr>lk_pending := Some src\<rparr>"
    let ?h = "h1(l \<mapsto> ?r)"
    have one: "close_one h l src = Inr (first ls None, ?h, [])" using r h1(1,2) False by (simp add: close_one_def)
    have f: "finite (waiting_for h1 src)" using h1(5) by (simp add: closing_def)
    have w: "waiting_for ?h src = insert l (waiting_for h1 src)" by (simp add: waiting_for_upd waits_def)
    have "l \<notin> waiting_for h1 src" using h1(2,3) by (simp add: waiting_for_def)
    then have c: "card (waiting_for ?h src) = Suc (card (waiting_for h1 src))" using f by (simp add: w)
    have "close_wf src ?r" using h1(3,4) False by (auto simp: close_wf_def waits_def)
    then have wf: "\<forall>x y. ?h x = Some y \<longrightarrow> close_wf src y" using h1(5) by (auto simp: closing_def)
    obtain s where s: "h1 src = Some s" "lk_close_waiting s = int (card (waiting_for h1 src) + Suc n)" "lk_saved_close_cb s = Some cb"
      using h1(5) by (auto simp: closing_def)
    have "\<exists>y. ?h src = Some y \<and> lk_close_waiting y = int (card (waiting_for ?h src) + n) \<and> lk_saved_close_cb y = Some cb"
      using s h1(2) c by auto
    then have "closing ?h src cb n" unfolding closing_def using f wf w by auto
    moreover have "done_cbs ?h src cb n = []" by (simp add: done_cbs_def w)
    moreover have "shape ?h None ls" using h1(6) nl by simp
    moreover have "to_close ?h src ls" using h1(7) nl by (auto simp: to_close_def)
    ultimately show ?thesis using one by auto
  qed
qed

lemma close_loop_result:
  assumes "closing h src cb (length ls)" and "shape h None ls" and "distinct ls" and "to_close h src ls" and "ls \<noteq> []"
  shows "\<exists>h' os. close_loop h (first ls None) src out = Some (Inr (h', out @ os)) \<and> closing h' src cb 0 \<and>
    close_cbs os = done_cbs h' src cb 0"
  using assms
proof (induction ls arbitrary: h out)
  case (Cons l ls)
  have "closing h src cb (Suc (length ls))" using Cons.prems(1) by simp
  from close_one_result [OF this Cons.prems(2-4)] obtain h1 os where
    c: "close_one h l src = Inr (first ls None, h1, os)" "closing h1 src cb (length ls)"
    "close_cbs os = done_cbs h1 src cb (length ls)" "shape h1 None ls" "to_close h1 src ls" by blast
  have s: "close_loop h (first (l # ls) None) src out = close_loop h1 (first ls None) src (out @ os)"
    using c(1) by (subst close_loop.simps) simp
  show ?case
  proof (cases "ls = []")
    case True
    with s c show ?thesis by (simp add: close_loop.simps)
  next
    case False
    from Cons.IH [OF c(2,4) _ c(5) False, of "out @ os"] Cons.prems(3) obtain h2 os2 where
      "close_loop h1 (first ls None) src (out @ os) = Some (Inr (h2, (out @ os) @ os2))" "closing h2 src cb 0"
      "close_cbs os2 = done_cbs h2 src cb 0" by auto
    moreover have "close_cbs os = []" using c(3) False by (simp add: done_cbs_def)
    ultimately show ?thesis using s by (intro exI [of _ h2] exI [of _ "os @ os2"]) simp
  qed
qed simp

lemma find_root_result:
  assumes "links h None ls None k" and "j < length ls"
  shows "find_root h (ls ! j) count = Some (Inr (ls ! 0, count + j))"
  using assms(2)
proof (induction j arbitrary: count)
  case 0
  with links_nth [OF assms(1), of 0] show ?case by (auto simp: find_root.simps [of h "ls ! 0"])
next
  case (Suc j)
  then obtain r where "h (ls ! Suc j) = Some r" "lk_parent r = Some (ls ! j)" using links_nth [OF assms(1), of "Suc j"] by auto
  with Suc show ?case by (simp add: find_root.simps [of h "ls ! Suc j"])
qed

lemma closing_remove:
  assumes "closing h src cb n" and "h l = Some r0" and "waits src r0" and "\<not> waits src r" and "close_wf src r"
    and "lk_close_waiting r = lk_close_waiting r0" and "lk_saved_close_cb r = lk_saved_close_cb r0"
  shows "closing (h(l \<mapsto> r)) src cb (Suc n)"
proof -
  let ?h = "h(l \<mapsto> r)"
  have f: "finite (waiting_for h src)" using assms(1) by (simp add: closing_def)
  have w: "waiting_for ?h src = waiting_for h src - {l}" using assms(4) by (simp add: waiting_for_upd)
  have "l \<in> waiting_for h src" using assms(2,3) by (simp add: waiting_for_def)
  then have c: "card (waiting_for h src) = Suc (card (waiting_for ?h src))" unfolding w using card_Suc_Diff1 [OF f] by simp
  obtain s where s: "h src = Some s" "lk_close_waiting s = int (card (waiting_for h src) + n)" "lk_saved_close_cb s = Some cb"
    using assms(1) by (auto simp: closing_def)
  have "\<exists>y. ?h src = Some y \<and> lk_close_waiting y = int (card (waiting_for ?h src) + Suc n) \<and> lk_saved_close_cb y = Some cb"
    using s assms(2,6,7) c by auto
  moreover have "\<forall>x y. ?h x = Some y \<longrightarrow> close_wf src y" using assms(1,5) by (auto simp: closing_def)
  ultimately show ?thesis unfolding closing_def using f w by simp
qed

text \<open>What happens after a close: methods and callbacks of links begin and return, and streams are closed.\<close>

datatype close_event = Ev_Enter nat | Ev_Leave nat | Ev_Stream_Closed nat

definition close_step :: "link_heap \<Rightarrow> close_event \<Rightarrow> ub + link_heap \<times> chain_out list" where
  "close_step h e =
     (case e of
        Ev_Enter l \<Rightarrow> ub_bind (uv_link_enter h l) (\<lambda>h1. Inr (h1, []))
      | Ev_Leave l \<Rightarrow> uv_link_leave h l
      | Ev_Stream_Closed l \<Rightarrow> uv_link_source_close_cb h l)"

definition close_enabled :: "link_heap \<Rightarrow> close_event \<Rightarrow> bool" where
  "close_enabled h e =
     (case e of
        Ev_Enter l \<Rightarrow> h l \<noteq> None
      | Ev_Leave l \<Rightarrow> (case h l of None \<Rightarrow> False | Some r \<Rightarrow> lk_close_depth r > 0)
      | Ev_Stream_Closed l \<Rightarrow> (case h l of None \<Rightarrow> False | Some r \<Rightarrow> lk_stream r = Stream_Closing))"

inductive close_trace :: "link_heap \<Rightarrow> chain_out list \<Rightarrow> link_heap \<Rightarrow> bool" where
  close_nil: "close_trace h [] h"
| close_snoc: "close_trace h os h1 \<Longrightarrow> close_enabled h1 e \<Longrightarrow> close_step h1 e = Inr (h2, os2) \<Longrightarrow>
    close_trace h (os @ os2) h2"

lemma leave_result:
  assumes "closing h src cb 0" and "h l = Some r" and "lk_close_depth r > 0"
  shows "\<exists>h' os. uv_link_leave h l = Inr (h', os) \<and> closing h' src cb 0 \<and>
    close_cbs os = (if waiting_for h src \<noteq> {} \<and> waiting_for h' src = {} then [(src, cb)] else []) \<and>
    waiting_for h' src \<subseteq> waiting_for h src"
proof -
  let ?r = "r\<lparr>lk_close_depth := lk_close_depth r - 1\<rparr>"
  let ?h = "h(l \<mapsto> ?r)"
  have wf: "close_wf src r" using assms(1,2) by (simp add: closing_def)
  show ?thesis
  proof (cases "lk_close_depth r - 1 = 0 \<and> lk_pending r \<noteq> None")
    case False
    then have "close_wf src ?r" using wf assms(3) by (auto simp: close_wf_def)
    then have "closing ?h src cb 0" using closing_upd [OF assms(1,2)] by (simp add: waits_def)
    moreover have "waiting_for ?h src = waiting_for h src" using waiting_for_same [of h l r src ?r] assms(2) by (simp add: waits_def)
    moreover have "uv_link_leave h l = Inr (?h, [])"
      using False assms(2) by (auto simp: uv_link_leave_def uv_link_maybe_close_def Let_def)
    ultimately show ?thesis by (intro exI [of _ ?h] exI [of _ "[]"]) auto
  next
    case True
    then have p: "lk_pending r = Some src" and ns: "lk_stream r \<noteq> Stream_Closing" using wf by (auto simp: close_wf_def)
    let ?r2 = "r\<lparr>lk_close_depth := lk_close_depth r - 1, lk_pending := None\<rparr>"
    let ?h2 = "h(l \<mapsto> ?r2)"
    have c: "closing ?h2 src cb (Suc 0)"
      by (rule closing_remove [OF assms(1,2)]) (use p ns wf assms(3) in \<open>auto simp: waits_def close_wf_def\<close>)
    have "\<not> waits src ?r2" "lk_close_depth ?r2 = 0" using ns True by (auto simp: waits_def)
    from source_close_result [OF c _ this, of l] obtain h' os where
      s: "uv_link_source_close ?h2 l src = Inr (h', os)" "closing h' src cb 0" "close_cbs os = done_cbs h' src cb 0"
      "waiting_for h' src \<subseteq> insert l (waiting_for ?h2 src)" by auto
    have "l \<in> waiting_for h src" using assms(2) p by (auto simp: waiting_for_def waits_def)
    moreover have "waiting_for ?h2 src = waiting_for h src - {l}" using ns by (simp add: waiting_for_upd waits_def)
    ultimately have sub: "waiting_for h' src \<subseteq> waiting_for h src" using s(4) by auto
    have "uv_link_leave h l = Inr (h', os)"
      using True p assms(2) s(1) by (simp add: uv_link_leave_def uv_link_maybe_close_def)
    moreover have "waiting_for h src \<noteq> {}" using assms(2) p by (auto simp: waiting_for_def waits_def)
    ultimately show ?thesis using s sub by (auto simp: done_cbs_def)
  qed
qed

lemma stream_closed_result:
  assumes "closing h src cb 0" and "h l = Some r" and "lk_stream r = Stream_Closing"
  shows "\<exists>h' os. uv_link_source_close_cb h l = Inr (h', os) \<and> closing h' src cb 0 \<and>
    close_cbs os = (if waiting_for h src \<noteq> {} \<and> waiting_for h' src = {} then [(src, cb)] else []) \<and>
    waiting_for h' src \<subseteq> waiting_for h src"
proof -
  have wf: "close_wf src r" using assms(1,2) by (simp add: closing_def)
  then have s: "lk_close_source r = Some src" "lk_pending r \<noteq> Some src" using assms(3) by (auto simp: close_wf_def)
  let ?h = "h(l \<mapsto> r\<lparr>lk_stream := Stream_Gone\<rparr>)"
  have "closing ?h src cb (Suc 0)"
    by (rule closing_remove [OF assms(1,2)]) (use s wf assms(3) in \<open>auto simp: waits_def close_wf_def\<close>)
  from join_result [OF this] obtain h' os where
    "uv_link_close_join ?h src = Inr (h', os)" "closing h' src cb 0" "close_cbs os = done_cbs h' src cb 0"
    "waiting_for h' src = waiting_for ?h src" by blast
  moreover have "waiting_for ?h src \<subseteq> waiting_for h src" using s(2) by (auto simp: waiting_for_upd waits_def)
  moreover have "waiting_for h src \<noteq> {}" using assms(2,3) s(1) by (auto simp: waiting_for_def waits_def)
  ultimately show ?thesis using assms(2) s(1) by (auto simp: uv_link_source_close_cb_def done_cbs_def)
qed

lemma close_step_result:
  assumes "closing h src cb 0" and "close_enabled h e"
  shows "\<exists>h' os. close_step h e = Inr (h', os) \<and> closing h' src cb 0 \<and>
    close_cbs os = (if waiting_for h src \<noteq> {} \<and> waiting_for h' src = {} then [(src, cb)] else []) \<and>
    waiting_for h' src \<subseteq> waiting_for h src"
proof (cases e)
  case (Ev_Enter l)
  then obtain r where r: "h l = Some r" using assms(2) by (auto simp: close_enabled_def)
  let ?r = "r\<lparr>lk_close_depth := lk_close_depth r + 1\<rparr>"
  have "close_wf src r" using assms(1) r by (simp add: closing_def)
  then have "close_wf src ?r" by (auto simp: close_wf_def)
  then have "closing (h(l \<mapsto> ?r)) src cb 0" using closing_upd [OF assms(1) r] by (simp add: waits_def)
  moreover have "waiting_for (h(l \<mapsto> ?r)) src = waiting_for h src"
    using waiting_for_same [of h l r src ?r] r by (simp add: waits_def)
  ultimately show ?thesis using Ev_Enter r by (simp add: close_step_def uv_link_enter_def)
next
  case (Ev_Leave l)
  then obtain r where "h l = Some r" "lk_close_depth r > 0" using assms(2) by (auto simp: close_enabled_def split: option.splits)
  with leave_result [OF assms(1)] Ev_Leave show ?thesis by (simp add: close_step_def)
next
  case (Ev_Stream_Closed l)
  then obtain r where "h l = Some r" "lk_stream r = Stream_Closing"
    using assms(2) by (auto simp: close_enabled_def split: option.splits)
  with stream_closed_result [OF assms(1)] Ev_Stream_Closed show ?thesis by (simp add: close_step_def)
qed

text \<open>A heap in which no close is under way.\<close>

definition idle :: "link_heap \<Rightarrow> bool" where
  "idle h \<longleftrightarrow> (\<forall>l r. h l = Some r \<longrightarrow> lk_close_depth r \<ge> 0 \<and> lk_pending r = None \<and> lk_close_source r = None \<and>
     lk_stream r \<noteq> Stream_Closing \<and> lk_close_waiting r = 0)"

lemma propagate_close_result:
  assumes "chain h ls" and "idle h"
  shows "\<exists>h1 os. uv_link_propagate_close h (last ls) (last ls) (Some cb) = Inr (h1, os) \<and> closing h1 (last ls) cb 0 \<and>
    close_cbs os = done_cbs h1 (last ls) cb 0"
proof -
  let ?src = "last ls"
  have ls: "ls \<noteq> []" "distinct ls" "links h None ls None 1" using assms(1) by (simp_all add: chain_def)
  obtain s where s: "h ?src = Some s" "lk_child s = None" using links_heads [OF ls(3,1,2)] by blast
  let ?s = "s\<lparr>lk_close_waiting := lk_close_waiting s + int (length ls), lk_saved_close_cb := Some cb\<rparr>"
  let ?h = "h(?src \<mapsto> ?s)"
  have r: "find_root h ?src 1 = Some (Inr (hd ls, length ls))"
    using find_root_result [OF ls(3), of "length ls - 1" 1] ls(1) by (simp add: last_conv_nth hd_conv_nth Suc_le_eq)
  have nw: "\<not> waits ?src y" if "?h x = Some y" for x y
    using that assms(2) s(1) by (auto simp: idle_def waits_def split: if_splits)
  have wf: "close_wf ?src y" if "?h x = Some y" for x y
    using that assms(2) s(1) by (auto simp: idle_def close_wf_def split: if_splits)
  have w: "waiting_for ?h ?src = {}" unfolding waiting_for_def using nw by blast
  have "lk_close_waiting s = 0" using assms(2) s(1) by (auto simp: idle_def)
  then have c: "closing ?h ?src cb (length ls)" unfolding closing_def w using wf by auto
  have sm: "same_links h ?h ?src" using s(1) by (simp add: same_links_def)
  have sh: "shape ?h None ls" using shape_same [OF sm] links_shape [OF ls(3)] by simp
  have "to_close ?h ?src ls" unfolding to_close_def
  proof
    fix x assume "x \<in> set ls"
    then obtain i where "i < length ls" "x = ls ! i" by (auto simp: in_set_conv_nth)
    then obtain y where "h x = Some y" using links_nth [OF ls(3)] by blast
    then obtain y' where "?h x = Some y'" by (cases "x = ?src") auto
    with nw show "\<exists>r. ?h x = Some r \<and> \<not> waits ?src r" by blast
  qed
  from close_loop_result [OF c sh ls(2) this ls(1), of "[]"] obtain h1 os where
    l: "close_loop ?h (first ls None) ?src [] = Some (Inr (h1, os))" "closing h1 ?src cb 0"
    "close_cbs os = done_cbs h1 ?src cb 0" by auto
  have "first ls None = Some (hd ls)" using ls(1) by (cases ls) simp_all
  with l r s have "uv_link_propagate_close h ?src ?src (Some cb) = Inr (h1, os)"
    by (simp add: uv_link_propagate_close_def Let_def)
  with l show ?thesis by blast
qed

lemma close_trace_result:
  assumes "close_trace h os h'" and "closing h src cb 0"
  shows "closing h' src cb 0 \<and> done_cbs h src cb 0 @ close_cbs os = done_cbs h' src cb 0"
  using assms
proof (induction rule: close_trace.induct)
  case (close_nil h)
  then show ?case by simp
next
  case (close_snoc h os h1 e h2 os2)
  then have i: "closing h1 src cb 0" "done_cbs h src cb 0 @ close_cbs os = done_cbs h1 src cb 0" by simp_all
  from close_step_result [OF i(1) close_snoc.hyps(2)] close_snoc.hyps(3)
  have c: "closing h2 src cb 0"
    "close_cbs os2 = (if waiting_for h1 src \<noteq> {} \<and> waiting_for h2 src = {} then [(src, cb)] else [])"
    "waiting_for h2 src \<subseteq> waiting_for h1 src" by simp_all
  with i(2) c show ?case by (auto simp: done_cbs_def)
qed

text \<open>No method or callback of a link runs and no stream is being closed.\<close>

definition settled :: "link_heap \<Rightarrow> bool" where
  "settled h \<longleftrightarrow> (\<forall>l r. h l = Some r \<longrightarrow> lk_close_depth r = 0 \<and> lk_stream r \<noteq> Stream_Closing)"

lemma settled_waits_for_nothing: "closing h src cb 0 \<Longrightarrow> settled h \<Longrightarrow> waiting_for h src = {}"
  by (force simp: closing_def settled_def waiting_for_def waits_def close_wf_def)

text \<open>A source with an open stream, a link in one of its callbacks, and a link without.\<close>

definition toy_heap :: link_heap where
  "toy_heap =
     [1 \<mapsto> (uv_link_init 1 2 None None Stream_Open)\<lparr>lk_child := Some 2\<rparr>,
      2 \<mapsto> (uv_link_init 1 2 (Some 3) (Some 4) No_Stream)
             \<lparr>lk_parent := Some 1, lk_child := Some 3, lk_close_depth := 1, lk_err_prefix := 0x20000\<rparr>,
      3 \<mapsto> (uv_link_init 1 2 (Some 5) (Some 6) No_Stream)\<lparr>lk_parent := Some 2, lk_err_prefix := 0x30000\<rparr>]"

lemma toy_heap_chain: "chain toy_heap [1, 2, 3]" "idle toy_heap"
  by (simp_all add: chain_def toy_heap_def uv_link_init_def idle_def push_bit_eq_mult)

section \<open>Defects\<close>

text \<open>
  A link whose stream somebody else is closing is not counted as closed, then or later, when the
  stream is closed: the close of the chain never calls back.
\<close>

lemma foreign_close_is_lost:
  assumes "h l = Some r" and "lk_stream r = Stream_Closing" and "lk_close_source r = None"
  shows "uv_link_source_close h l src = Inr (h, [])"
    and "uv_link_source_close_cb h l = Inr (h(l \<mapsto> r\<lparr>lk_stream := Stream_Gone\<rparr>), [])"
  using assms by (simp_all add: uv_link_source_close_def uv_link_source_close_cb_def)

section \<open>Properties\<close>

text \<open>
  C7. Closing a chain from its last link always ends, whatever methods and callbacks of its links are
  running then or later, and none of the events that follow fails. The close callback is called
  once, at the moment in which the last of the links is closed, and never again; when all methods
  and callbacks have returned and all streams are closed, it has been called.
\<close>

theorem chain_close_once:
  assumes "chain h ls" and "idle h"
  shows "\<exists>h1 os1. uv_link_propagate_close h (last ls) (last ls) (Some cb) = Inr (h1, os1) \<and>
    (\<forall>os2 h2. close_trace h1 os2 h2 \<longrightarrow>
       (\<forall>e. close_enabled h2 e \<longrightarrow> (\<exists>h3 os3. close_step h2 e = Inr (h3, os3))) \<and>
       close_cbs (os1 @ os2) = (if waiting_for h2 (last ls) = {} then [(last ls, cb)] else []) \<and>
       (settled h2 \<longrightarrow> close_cbs (os1 @ os2) = [(last ls, cb)]))"
proof -
  obtain h1 os1 where p: "uv_link_propagate_close h (last ls) (last ls) (Some cb) = Inr (h1, os1)"
    "closing h1 (last ls) cb 0" "close_cbs os1 = done_cbs h1 (last ls) cb 0"
    using propagate_close_result [OF assms] by blast
  have "(\<forall>e. close_enabled h2 e \<longrightarrow> (\<exists>h3 os3. close_step h2 e = Inr (h3, os3))) \<and>
    close_cbs (os1 @ os2) = (if waiting_for h2 (last ls) = {} then [(last ls, cb)] else []) \<and>
    (settled h2 \<longrightarrow> close_cbs (os1 @ os2) = [(last ls, cb)])" if t: "close_trace h1 os2 h2" for os2 h2
  proof -
    from close_trace_result [OF t p(2)] have c: "closing h2 (last ls) cb 0"
      "close_cbs (os1 @ os2) = done_cbs h2 (last ls) cb 0" using p(3) by simp_all
    moreover have "\<exists>h3 os3. close_step h2 e = Inr (h3, os3)" if "close_enabled h2 e" for e
      using close_step_result [OF c(1) that] by blast
    moreover have "waiting_for h2 (last ls) = {}" if "settled h2" by (rule settled_waits_for_nothing [OF c(1) that])
    ultimately show ?thesis by (auto simp: done_cbs_def)
  qed
  with p(1) show ?thesis by blast
qed

theorem chain_close_once_witness:
  "\<exists>h1 os1. uv_link_propagate_close toy_heap 3 3 (Some 7) = Inr (h1, os1) \<and>
    (\<forall>os2 h2. close_trace h1 os2 h2 \<longrightarrow>
       (\<forall>e. close_enabled h2 e \<longrightarrow> (\<exists>h3 os3. close_step h2 e = Inr (h3, os3))) \<and>
       close_cbs (os1 @ os2) = (if waiting_for h2 3 = {} then [(3, 7)] else []) \<and>
       (settled h2 \<longrightarrow> close_cbs (os1 @ os2) = [(3, 7)]))"
proof -
  have l: "last [1, 2, 3 :: nat] = 3" by simp
  from chain_close_once [OF toy_heap_chain, of 7] show ?thesis unfolding l .
qed

text \<open>
  An error of a link between -65535 and the last error of libuv, passed up a chain of less than
  32768 links, is told apart: at any link further down the same chain, the reader finds the link
  that failed and its own error number again.
\<close>

lemma link_error_roundtrip:
  assumes "chain h ls" and "length ls < 32768" and "i \<le> j" and "j < length ls" and "- 65535 \<le> e" and "e < UV_ERRNO_MAX"
  shows "uv_link_errno h (Some (ls ! j)) (uv_link_error (h (ls ! i)) e) = Inr (Some (ls ! i), e)"
proof -
  let ?n = "- e" and ?k = "int (i + 1)"
  have l: "links h None ls None 1" using assms(1) by (simp add: chain_def)
  have n: "0 \<le> ?n" "?n < 65536" using assms(5,6) by (simp_all add: UV_ERRNO_MAX_def)
  obtain r where r: "h (ls ! i) = Some r" "lk_err_prefix r = push_bit 16 (of_int ?k)"
    using links_nth [OF l, of i] assms(3,4) by auto
  have v: "0 \<le> ?n + 65536 * ?k" "?n + 65536 * ?k < 2 ^ 31" using n assms(2-4) by simp_all
  have "uv_link_error (h (ls ! i)) e = sint (- (of_int ?n OR push_bit 16 (of_int ?k) :: uint32))"
    using r assms(6) error_masks(3) [OF n] by (simp add: uv_link_error_def)
  also have "\<dots> = - (?n + 65536 * ?k)" by (simp only: error_word [OF n] sint_neg [OF v])
  finally have u: "uv_link_error (h (ls ! i)) e = - (?n + 65536 * ?k)" .
  have "find_prefix h (Some (ls ! j)) (push_bit 16 (of_int ?k)) = Some (Inr (Some (ls ! i)))"
    using find_prefix_result [OF l assms(4,3,2)] by simp
  moreover have "sint (- (of_int ?n :: uint32)) = e" using sint_neg [of ?n] n by simp
  moreover have "\<not> - (?n + 65536 * ?k) \<ge> UV_ERRNO_MAX" using n by (simp add: UV_ERRNO_MAX_def)
  ultimately show ?thesis unfolding u
    by (simp only: uv_link_errno_def Let_def minus_minus error_masks(1,2) [OF n] if_False) simp
qed

end
