(* ===== verification/Uv_Link_Io.thy ===== *)
theory Uv_Link_Io
  imports Uv_Link
begin

text \<open>
  Reading and writing through a chain of links, from \<open>deps/uv_link_t/src/uv_link_t.c\<close>, \<open>defaults.c\<close> and
  \<open>uv_link_source_t.c\<close>: a call on a link goes to its parents until it reaches the source, which calls libuv,
  and what libuv reads goes from the source to its children. The links here are sources and links with the
  default methods, whose calls all have one shape; links with methods of their own have their own theories.
\<close>

section \<open>Calls towards the source\<close>

text \<open>
  What libuv gets from a source, and what the last link of a chain hears. A request carries the link that asked
  for it, its callback and its argument.
\<close>

datatype link_io =
    Io_Read_Start nat
  | Io_Read_Stop nat
  | Io_Write nat nat "byte list" nat nat
  | Io_Try_Write nat "byte list"
  | Io_Shutdown nat nat nat nat
  | Io_Write_Cb nat nat int nat
  | Io_Shutdown_Cb nat nat int nat
  | Io_Read_Cb nat nat int
  | Io_Alloc_Cb nat nat nat
  | Io_Close chain_out

type_synonym io_result = "int \<times> link_heap \<times> link_io list"

text \<open>The end of a call: the depth goes down, a close that waited is done, and the result gets the prefix of the link.\<close>

definition link_return :: "nat \<Rightarrow> io_result \<Rightarrow> ub + io_result" where
  "link_return l res =
     (case res of (err, h, os) \<Rightarrow>
        ub_bind (uv_link_leave h l) (\<lambda>(h1, os1). Inr (uv_link_error (h1 l) err, h1, os @ map Io_Close os1)))"

text \<open>
  A call of one of the methods with \<open>CLOSE_WRAP\<close> around it: \<open>op\<close> is what the method of a source does with its stream, the
  default method calls the same function on the parent.
\<close>

partial_function (option) propagate_call ::
  "(nat \<Rightarrow> int \<times> link_io list) \<Rightarrow> link_heap \<Rightarrow> nat option \<Rightarrow> (ub + io_result) option" where
  "propagate_call op h link =
     (case link of
        None \<Rightarrow> Some (Inr (UV_EFAULT, h, []))
      | Some l \<Rightarrow>
          (case uv_link_enter h l of
             Inl u \<Rightarrow> Some (Inl u)
           | Inr h1 \<Rightarrow>
               (case h1 l of
                  None \<Rightarrow> Some (Inl Bad_Pointer)
                | Some r \<Rightarrow>
                    Option.bind
                      (case lk_stream r of
                         No_Stream \<Rightarrow> propagate_call op h1 (lk_parent r)
                       | Stream_Gone \<Rightarrow> Some (Inl Null_Deref)
                       | _ \<Rightarrow> Some (Inr (fst (op l), h1, snd (op l))))
                      (\<lambda>res. Some (ub_bind res (link_return l))))))"

declare propagate_call.simps [code]

definition run_call :: "(nat \<Rightarrow> int \<times> link_io list) \<Rightarrow> link_heap \<Rightarrow> nat option \<Rightarrow> ub + io_result" where
  "run_call op h link = (case propagate_call op h link of None \<Rightarrow> Inl Endless_Loop | Some r \<Rightarrow> r)"

text \<open>\<open>rc\<close> is what libuv answers. A request that libuv refuses is freed; memory for requests is assumed.\<close>

definition uv_link_source_read_start :: "int \<Rightarrow> nat \<Rightarrow> int \<times> link_io list" where
  "uv_link_source_read_start rc l = (rc, [Io_Read_Start l])"

definition uv_link_source_read_stop :: "int \<Rightarrow> nat \<Rightarrow> int \<times> link_io list" where
  "uv_link_source_read_stop rc l = (rc, [Io_Read_Stop l])"

definition uv_link_source_write :: "int \<Rightarrow> nat \<Rightarrow> byte list \<Rightarrow> nat \<Rightarrow> nat \<Rightarrow> nat \<Rightarrow> int \<times> link_io list" where
  "uv_link_source_write rc source bufs cb arg l = (rc, if rc \<noteq> 0 then [] else [Io_Write l source bufs cb arg])"

definition uv_link_source_try_write :: "int \<Rightarrow> byte list \<Rightarrow> nat \<Rightarrow> int \<times> link_io list" where
  "uv_link_source_try_write rc bufs l = (rc, [Io_Try_Write l bufs])"

definition uv_link_source_shutdown :: "int \<Rightarrow> nat \<Rightarrow> nat \<Rightarrow> nat \<Rightarrow> nat \<Rightarrow> int \<times> link_io list" where
  "uv_link_source_shutdown rc source cb arg l = (rc, if rc \<noteq> 0 then [] else [Io_Shutdown l source cb arg])"

definition uv_link_read_start :: "int \<Rightarrow> link_heap \<Rightarrow> nat option \<Rightarrow> ub + io_result" where
  "uv_link_read_start rc = run_call (uv_link_source_read_start rc)"

definition uv_link_read_stop :: "int \<Rightarrow> link_heap \<Rightarrow> nat option \<Rightarrow> ub + io_result" where
  "uv_link_read_stop rc = run_call (uv_link_source_read_stop rc)"

definition uv_link_propagate_write ::
  "int \<Rightarrow> link_heap \<Rightarrow> nat option \<Rightarrow> nat \<Rightarrow> byte list \<Rightarrow> nat \<Rightarrow> nat \<Rightarrow> ub + io_result" where
  "uv_link_propagate_write rc h link source bufs cb arg = run_call (uv_link_source_write rc source bufs cb arg) h link"

definition uv_link_try_write :: "int \<Rightarrow> link_heap \<Rightarrow> nat option \<Rightarrow> byte list \<Rightarrow> ub + io_result" where
  "uv_link_try_write rc h link bufs = run_call (uv_link_source_try_write rc bufs) h link"

definition uv_link_propagate_shutdown :: "int \<Rightarrow> link_heap \<Rightarrow> nat option \<Rightarrow> nat \<Rightarrow> nat \<Rightarrow> nat \<Rightarrow> ub + io_result" where
  "uv_link_propagate_shutdown rc h link source cb arg = run_call (uv_link_source_shutdown rc source cb arg) h link"

text \<open>When a request is done, its callback gets the link that asked and its argument.\<close>

definition uv_link_source_wrap_write_cb :: "link_io \<Rightarrow> int \<Rightarrow> link_io list" where
  "uv_link_source_wrap_write_cb req status =
     (case req of Io_Write l source bufs cb arg \<Rightarrow> [Io_Write_Cb source cb status arg] | _ \<Rightarrow> [])"

definition uv_link_source_wrap_shutdown_cb :: "link_io \<Rightarrow> int \<Rightarrow> link_io list" where
  "uv_link_source_wrap_shutdown_cb req status =
     (case req of Io_Shutdown l source cb arg \<Rightarrow> [Io_Shutdown_Cb source cb status arg] | _ \<Rightarrow> [])"

section \<open>Reads towards the last link\<close>

text \<open>
  \<open>dread\<close> and \<open>dalloc\<close> are the numbers of the default overrides, which pass on; any other callback is the user's.
\<close>

partial_function (option) uv_link_propagate_read_cb ::
  "nat \<Rightarrow> link_heap \<Rightarrow> nat \<Rightarrow> int \<Rightarrow> (ub + link_heap \<times> link_io list) option" where
  "uv_link_propagate_read_cb dread h link nread =
     (case h link of
        None \<Rightarrow> Some (Inl Bad_Pointer)
      | Some r \<Rightarrow>
          (let target = (case lk_child r of Some c \<Rightarrow> c | None \<Rightarrow> link);
               n = (if nread < 0 then uv_link_error (Some r) nread else nread)
           in case uv_link_enter h target of
                Inl u \<Rightarrow> Some (Inl u)
              | Inr h1 \<Rightarrow>
                  Option.bind
                    (if lk_read_cb r = dread then uv_link_propagate_read_cb dread h1 target n
                     else Some (Inr (h1, [Io_Read_Cb target (lk_read_cb r) n])))
                    (\<lambda>res. Some (ub_bind res (\<lambda>(h2, os).
                       ub_bind (uv_link_leave h2 target) (\<lambda>(h3, os3). Inr (h3, os @ map Io_Close os3)))))))"

declare uv_link_propagate_read_cb.simps [code]

partial_function (option) uv_link_propagate_alloc_cb ::
  "nat \<Rightarrow> link_heap \<Rightarrow> nat \<Rightarrow> nat \<Rightarrow> (ub + link_heap \<times> link_io list) option" where
  "uv_link_propagate_alloc_cb dalloc h link suggested =
     (case h link of
        None \<Rightarrow> Some (Inl Bad_Pointer)
      | Some r \<Rightarrow>
          (let target = (case lk_child r of Some c \<Rightarrow> c | None \<Rightarrow> link)
           in case uv_link_enter h target of
                Inl u \<Rightarrow> Some (Inl u)
              | Inr h1 \<Rightarrow>
                  Option.bind
                    (if lk_alloc_cb r = dalloc then uv_link_propagate_alloc_cb dalloc h1 target suggested
                     else Some (Inr (h1, [Io_Alloc_Cb target (lk_alloc_cb r) suggested])))
                    (\<lambda>res. Some (ub_bind res (\<lambda>(h2, os).
                       ub_bind (uv_link_leave h2 target) (\<lambda>(h3, os3). Inr (h3, os @ map Io_Close os3)))))))"

declare uv_link_propagate_alloc_cb.simps [code]

text \<open>A source: a link without overrides around an open stream, whose data is the source.\<close>

definition uv_link_source_init :: "nat \<Rightarrow> nat \<Rightarrow> uv_link" where
  "uv_link_source_init dalloc dread = uv_link_init dalloc dread None None Stream_Open"

text \<open>The callbacks of the stream of a source.\<close>

definition uv_link_source_wrap_read_cb :: "nat \<Rightarrow> link_heap \<Rightarrow> nat \<Rightarrow> int \<Rightarrow> ub + link_heap \<times> link_io list" where
  "uv_link_source_wrap_read_cb dread h source nread =
     (case uv_link_propagate_read_cb dread h source nread of None \<Rightarrow> Inl Endless_Loop | Some r \<Rightarrow> r)"

definition uv_link_source_wrap_alloc_cb :: "nat \<Rightarrow> link_heap \<Rightarrow> nat \<Rightarrow> nat \<Rightarrow> ub + link_heap \<times> link_io list" where
  "uv_link_source_wrap_alloc_cb dalloc h source suggested =
     (case uv_link_propagate_alloc_cb dalloc h source suggested of None \<Rightarrow> Inl Endless_Loop | Some r \<Rightarrow> r)"

text \<open>The callback of a link that nobody reads from: it drops the data and stops reading on an error; \<open>rc\<close> is libuv's answer.\<close>

definition uv_link_def_read_cb :: "int \<Rightarrow> link_heap \<Rightarrow> nat \<Rightarrow> int \<Rightarrow> ub + link_heap \<times> link_io list" where
  "uv_link_def_read_cb rc h link nread =
     (if nread < 0 then ub_bind (uv_link_read_stop rc h (Some link)) (\<lambda>(err, h1, os). Inr (h1, os)) else Inr (h, []))"

text \<open>The text of an error: \<open>uvtext\<close> is libuv's, \<open>ltext\<close> the method of a link.\<close>

definition uv_link_strerror :: "link_heap \<Rightarrow> (int \<Rightarrow> string) \<Rightarrow> (nat \<Rightarrow> int \<Rightarrow> string option) \<Rightarrow> nat option \<Rightarrow> int \<Rightarrow> ub + string option" where
  "uv_link_strerror h uvtext ltext link err =
     (if err \<ge> UV_ERRNO_MAX then Inr (Some (uvtext err))
      else ub_bind (uv_link_errno h link err) (\<lambda>(l, local_err).
        Inr (case l of None \<Rightarrow> None | Some x \<Rightarrow> ltext x local_err)))"

section \<open>Lemmas\<close>

text \<open>A link on which a close that waits has something to wait for.\<close>

definition calm :: "uv_link \<Rightarrow> bool" where
  "calm r \<longleftrightarrow> lk_close_depth r \<ge> 0 \<and> (lk_pending r \<noteq> None \<longrightarrow> lk_close_depth r > 0)"

lemma enter_leave:
  assumes "h l = Some r" and "calm r"
  shows "uv_link_enter h l = Inr (h(l \<mapsto> r\<lparr>lk_close_depth := lk_close_depth r + 1\<rparr>))"
    and "uv_link_leave (h(l \<mapsto> r\<lparr>lk_close_depth := lk_close_depth r + 1\<rparr>)) l = Inr (h, [])"
proof -
  show "uv_link_enter h l = Inr (h(l \<mapsto> r\<lparr>lk_close_depth := lk_close_depth r + 1\<rparr>))"
    using assms by (simp add: uv_link_enter_def)
  have h: "h(l \<mapsto> r) = h" using assms(1) by auto
  have "uv_link_maybe_close h l = Inr (h, [])" if "lk_close_depth r = 0"
    using that assms by (simp add: uv_link_maybe_close_def calm_def)
  then show "uv_link_leave (h(l \<mapsto> r\<lparr>lk_close_depth := lk_close_depth r + 1\<rparr>)) l = Inr (h, [])"
    using h by (simp add: uv_link_leave_def)
qed

lemma uv_link_error_libuv: "rc \<ge> UV_ERRNO_MAX \<Longrightarrow> uv_link_error r rc = rc"
  by (simp add: uv_link_error_def split: option.splits)

text \<open>
  A call on any link of a chain reaches the stream of its source, once, and returns what libuv answers; the links are left as
  they were.
\<close>

definition default_chain :: "link_heap \<Rightarrow> nat list \<Rightarrow> bool" where
  "default_chain h ls \<longleftrightarrow> chain h ls \<and>
     (\<forall>i < length ls. \<exists>r. h (ls ! i) = Some r \<and> calm r \<and>
        (if i = 0 then lk_stream r = Stream_Open \<or> lk_stream r = Stream_Closing else lk_stream r = No_Stream))"

lemma call_reaches_source:
  assumes "default_chain h ls" and "j < length ls" and "\<And>i. i \<le> j \<Longrightarrow> h' (ls ! i) = h (ls ! i)"
    and "op (ls ! 0) = (rc, os)" and "rc \<ge> UV_ERRNO_MAX"
  shows "propagate_call op h' (Some (ls ! j)) = Some (Inr (rc, h', os))"
  using assms(2,3)
proof (induction j arbitrary: h')
  case 0
  obtain r where r: "h' (ls ! 0) = Some r" "calm r" "lk_stream r = Stream_Open \<or> lk_stream r = Stream_Closing"
    using assms(1) 0 by (force simp: default_chain_def)
  let ?h = "h'(ls ! 0 \<mapsto> r\<lparr>lk_close_depth := lk_close_depth r + 1\<rparr>)"
  note e = enter_leave [of h' "ls ! 0" r, OF r(1,2)]
  have "propagate_call op h' (Some (ls ! 0)) = Some (link_return (ls ! 0) (rc, ?h, os))"
    using e(1) r(3) assms(4) by (subst propagate_call.simps) auto
  with e(2) uv_link_error_libuv [OF assms(5)] show ?case by (simp add: link_return_def)
next
  case (Suc j)
  have c: "chain h ls" using assms(1) by (simp add: default_chain_def)
  obtain r where r: "h' (ls ! Suc j) = Some r" "calm r" "lk_stream r = No_Stream"
    using assms(1) Suc.prems unfolding default_chain_def by (metis Suc_neq_Zero order_refl)
  have p: "lk_parent r = Some (ls ! j)"
    using links_nth [of h None ls None 1 "Suc j"] c Suc.prems r(1) by (auto simp: chain_def)
  let ?h = "h'(ls ! Suc j \<mapsto> r\<lparr>lk_close_depth := lk_close_depth r + 1\<rparr>)"
  note e = enter_leave [of h' "ls ! Suc j" r, OF r(1,2)]
  have "?h (ls ! i) = h (ls ! i)" if "i \<le> j" for i
    using that Suc.prems c by (auto simp: chain_def nth_eq_iff_index_eq)
  with Suc.IH Suc.prems(1) have "propagate_call op ?h (Some (ls ! j)) = Some (Inr (rc, ?h, os))" by simp
  then have "propagate_call op h' (Some (ls ! Suc j)) = Some (link_return (ls ! Suc j) (rc, ?h, os))"
    using e(1) r(3) p by (subst propagate_call.simps) simp
  with e(2) uv_link_error_libuv [OF assms(5)] show ?case by (simp add: link_return_def)
qed

lemma write_reaches_source:
  assumes "default_chain h ls" and "j < length ls" and "rc = 0 \<or> rc < 0 \<and> rc \<ge> UV_ERRNO_MAX"
  shows "uv_link_propagate_write rc h (Some (ls ! j)) source bufs cb arg =
    Inr (rc, h, if rc = 0 then [Io_Write (ls ! 0) source bufs cb arg] else [])"
  using call_reaches_source [OF assms(1,2), of h "uv_link_source_write rc source bufs cb arg" rc] assms(3)
  by (auto simp: uv_link_propagate_write_def run_call_def uv_link_source_write_def UV_ERRNO_MAX_def)

text \<open>What libuv reads, or its error, is delivered to the callback of the last link, once.\<close>

definition reading_chain :: "nat \<Rightarrow> nat \<Rightarrow> link_heap \<Rightarrow> nat list \<Rightarrow> bool" where
  "reading_chain dread cb h ls \<longleftrightarrow> chain h ls \<and>
     (\<forall>i < length ls. \<exists>r. h (ls ! i) = Some r \<and> calm r \<and> lk_read_cb r = (if Suc i < length ls then dread else cb))"

lemma reading_chain_nth:
  "reading_chain dread cb h ls \<Longrightarrow> i < length ls \<Longrightarrow> h (ls ! i) = Some r \<Longrightarrow>
   chain h ls \<and> calm r \<and> lk_read_cb r = (if Suc i < length ls then dread else cb)"
  unfolding reading_chain_def by (metis option.inject)

lemma read_reaches_reader:
  assumes "reading_chain dread cb h ls" and "cb \<noteq> dread" and "nread \<ge> UV_ERRNO_MAX" and "i < length ls"
    and "h (ls ! i) = Some r0" and "h' (ls ! i) = Some (r0\<lparr>lk_close_depth := d\<rparr>)" and "lk_close_depth r0 \<le> d"
    and "\<And>k. i < k \<Longrightarrow> k < length ls \<Longrightarrow> h' (ls ! k) = h (ls ! k)"
  shows "uv_link_propagate_read_cb dread h' (ls ! i) nread = Some (Inr (h', [Io_Read_Cb (last ls) cb nread]))"
  using assms(4-8)
proof (induction "length ls - Suc i" arbitrary: i h' r0 d)
  case 0
  then have i: "Suc i = length ls" by simp
  have l: "last ls = ls ! i" using i by (metis diff_Suc_1 last_conv_nth length_0_conv nat.simps(3))
  have c: "chain h ls" "calm r0" "lk_read_cb r0 = cb" using reading_chain_nth [OF assms(1) 0(2,3)] i by simp_all
  have ch: "lk_child r0 = None" using links_nth [of h None ls None 1 i] c(1) 0 i by (auto simp: chain_def)
  let ?r = "r0\<lparr>lk_close_depth := d\<rparr>"
  have "calm ?r" using c(2) 0(5) by (auto simp: calm_def)
  note e = enter_leave [of h' "ls ! i" ?r, OF 0(4) this]
  have n: "(if nread < 0 then uv_link_error (Some ?r) nread else nread) = nread" using uv_link_error_libuv [OF assms(3)] by simp
  show ?case using e ch c(3) assms(2) n 0(4) l by (subst uv_link_propagate_read_cb.simps) simp
next
  case (Suc m)
  then have i: "Suc i < length ls" by simp
  have c: "chain h ls" "lk_read_cb r0 = dread" using reading_chain_nth [OF assms(1) Suc.prems(1,2)] i by simp_all
  have ch: "lk_child r0 = Some (ls ! Suc i)" using links_nth [of h None ls None 1 i] c(1) Suc.prems i by (auto simp: chain_def)
  obtain t where t: "h (ls ! Suc i) = Some t" "calm t" using assms(1) i unfolding reading_chain_def by blast
  then have t': "h' (ls ! Suc i) = Some t" using Suc.prems(5) i by simp
  let ?h = "h'(ls ! Suc i \<mapsto> t\<lparr>lk_close_depth := lk_close_depth t + 1\<rparr>)"
  note e = enter_leave [of h' "ls ! Suc i" t, OF t' t(2)]
  have k: "?h (ls ! k) = h (ls ! k)" if "Suc i < k" "k < length ls" for k
    using that Suc.prems(5) c(1) i by (auto simp: chain_def nth_eq_iff_index_eq)
  have "uv_link_propagate_read_cb dread ?h (ls ! Suc i) nread = Some (Inr (?h, [Io_Read_Cb (last ls) cb nread]))"
    by (rule Suc.hyps(1) [OF _ i t(1)]) (use Suc.hyps(2) k in auto)
  moreover have "(if nread < 0 then uv_link_error (Some (r0\<lparr>lk_close_depth := d\<rparr>)) nread else nread) = nread"
    using uv_link_error_libuv [OF assms(3)] by simp
  ultimately show ?case using e ch c(2) Suc.prems(3) by (subst uv_link_propagate_read_cb.simps) simp
qed

text \<open>What the stream of a source delivers, or its error, comes to the reader of the last link, and the links are left as they were.\<close>

lemma stream_read_reaches_reader:
  assumes "reading_chain dread cb h (src # ls)" and "cb \<noteq> dread" and "nread \<ge> UV_ERRNO_MAX"
  shows "uv_link_source_wrap_read_cb dread h src nread = Inr (h, [Io_Read_Cb (last (src # ls)) cb nread])"
proof -
  obtain r where "h src = Some r" using assms(1) by (force simp: reading_chain_def)
  with read_reaches_reader [OF assms, of 0 r h "lk_close_depth r"] show ?thesis
    by (simp add: uv_link_source_wrap_read_cb_def)
qed

text \<open>After an error on a link that nobody reads from, the stream of its source is told to stop.\<close>

lemma default_reader_stops:
  assumes "default_chain h ls" and "j < length ls" and "nread < 0"
  shows "uv_link_def_read_cb 0 h (ls ! j) nread = Inr (h, [Io_Read_Stop (ls ! 0)])"
  using call_reaches_source [OF assms(1,2), of h "uv_link_source_read_stop 0" 0 "[Io_Read_Stop (ls ! 0)]"] assms(3)
  by (simp add: uv_link_def_read_cb_def uv_link_read_stop_def run_call_def uv_link_source_read_stop_def UV_ERRNO_MAX_def)

end
