(* ===== verification/Mbed_Cert.thy ===== *)
theory Mbed_Cert
  imports Mbed_Engine
begin

text \<open>
  The TLS context of \<open>src/mbedtls/engine.c\<close>: trusted certificates, the check of the peer's certificate, own
  key and certificate, application protocols, signatures, and certificates read and written. The
  library is a parameter; certificates and private keys are abstract, a chain of certificates is the
  list of its members, and a null chain is \<open>None\<close>.
\<close>

section \<open>The library\<close>

text \<open>
  \<open>crt_parse\<close> and \<open>crt_parse_path\<close> give the result of parsing and the certificates put into the chain.
  \<open>asn1_get_tag\<close> takes the bytes from a position on to the end of the input and gives an error, or the length of
  an element and the bytes from its content on; \<open>pem_text\<close> is the text, without the final zero byte, that
  \<open>mbedtls_pem_write_buffer\<close> writes with the begin and end lines of a certificate.
\<close>

record ('x, 'k) mbed_x509_lib =
  crt_parse :: "byte list \<Rightarrow> int \<times> 'x list"
  crt_parse_path :: "byte list \<Rightarrow> int \<times> 'x list"
  crt_raw :: "'x \<Rightarrow> byte list"
  crt_alt_names :: "'x \<Rightarrow> (byte \<times> byte list) list"
  crt_is_ec :: "'x \<Rightarrow> bool"
  pk_verify :: "'x \<Rightarrow> hash_algo \<Rightarrow> byte list \<Rightarrow> byte list \<Rightarrow> int"
  message_digest :: "hash_algo \<Rightarrow> byte list \<Rightarrow> (byte list) option"
  conf_own_cert :: "'x list \<Rightarrow> 'k \<Rightarrow> int"
  conf_alpn_ok :: "byte list list \<Rightarrow> bool"
  base64_decode :: "byte list \<Rightarrow> int + byte list"
  asn1_get_tag :: "byte list \<Rightarrow> byte \<Rightarrow> int + nat \<times> byte list"
  asn1_get_int :: "byte list \<Rightarrow> int + int \<times> byte list"
  asn1_mpi :: "nat \<Rightarrow> byte list"
  asn1_len :: "nat \<Rightarrow> byte list"
  pem_text :: "byte list \<Rightarrow> byte list"
  inet_pton4 :: "string \<Rightarrow> byte list option"
  inet_pton6 :: "string \<Rightarrow> byte list option"

text \<open>The values the library gives these numbers.\<close>

definition X509_BADCERT_CN_MISMATCH :: uint32 where "X509_BADCERT_CN_MISMATCH = 0x04"
definition X509_BADCERT_NOT_TRUSTED :: uint32 where "X509_BADCERT_NOT_TRUSTED = 0x08"
definition X509_SAN_IP_ADDRESS :: byte where "X509_SAN_IP_ADDRESS = 7"
definition ASN1_TAG_VALUE_MASK :: byte where "ASN1_TAG_VALUE_MASK = 0x1F"
definition ASN1_OID :: byte where "ASN1_OID = 0x06"
definition ASN1_SEQUENCE :: byte where "ASN1_SEQUENCE = 0x30"
definition ASN1_SET :: byte where "ASN1_SET = 0x31"
definition ASN1_CONTEXT_0 :: byte where "ASN1_CONTEXT_0 = 0xA0"

definition OID_PKCS7 :: "byte list" where "OID_PKCS7 = [0x2A, 0x86, 0x48, 0x86, 0xF7, 0x0D, 0x01, 0x07]"
definition OID_PKCS7_DATA :: "byte list" where "OID_PKCS7_DATA = OID_PKCS7 @ [0x02]"
definition OID_PKCS7_SIGNED_DATA :: "byte list" where "OID_PKCS7_SIGNED_DATA = OID_PKCS7 @ [0x01]"

text \<open>The bytes of a C string that starts at the beginning of a piece of memory.\<close>

definition c_text :: "byte list \<Rightarrow> byte list" where
  "c_text mem = takeWhile (\<lambda>b. b \<noteq> 0) mem"

section \<open>The context\<close>

record ('x, 'k) mbedtls_context =
  m_ca_chain :: "'x list"
  m_conf_own :: "('x list \<times> 'k) option"
  m_conf_alpn :: "byte list list option"
  m_own_key :: "'k option"
  m_own_cert :: "'x list option"
  m_alpn_protocols :: "byte list list option"
  m_cert_verify_f :: "('x \<Rightarrow> int) option"

definition caFiles :: "string list" where
  "caFiles =
     [''/etc/ssl/certs/ca-certificates.crt'', ''/etc/pki/tls/certs/ca-bundle.crt'', ''/etc/ssl/ca-bundle.pem'',
      ''/etc/pki/tls/cacert.pem'', ''/etc/pki/ca-trust/extracted/pem/tls-ca-bundle.pem'', ''/etc/ssl/cert.pem'']"

definition bytes_of :: "string \<Rightarrow> byte list" where "bytes_of s = map (\<lambda>c. of_nat (of_char c)) s"

text \<open>
  \<open>ca\<close> is the memory of the text and the length given for it. A text that does not parse is taken as the name
  of a file; the chain starts anew then. Without a text, the first readable of the known files
  counts.
\<close>

definition mbed_init_ssl_context :: "('x, 'k) mbed_x509_lib \<Rightarrow> (string \<Rightarrow> bool) \<Rightarrow> (byte list \<times> nat) option \<Rightarrow> 'x list" where
  "mbed_init_ssl_context lib readable ca =
     (case ca of
        Some (mem, len) \<Rightarrow>
          (let (rc, certs) = (if len > 0 then crt_parse lib (take len mem) else (0, []))
           in if rc < 0 then snd (crt_parse_path lib (c_text mem)) else certs)
      | None \<Rightarrow> (case find readable caFiles of None \<Rightarrow> [] | Some f \<Rightarrow> snd (crt_parse_path lib (bytes_of f))))"

definition new_mbedtls_ctx :: "('x, 'k) mbed_x509_lib \<Rightarrow> (string \<Rightarrow> bool) \<Rightarrow> (byte list \<times> nat) option \<Rightarrow> ('x, 'k) mbedtls_context" where
  "new_mbedtls_ctx lib readable ca =
     \<lparr>m_ca_chain = mbed_init_ssl_context lib readable ca, m_conf_own = None, m_conf_alpn = None, m_own_key = None,
      m_own_cert = None, m_alpn_protocols = None, m_cert_verify_f = None\<rparr>"

definition mbedtls_set_cert_verify :: "('x, 'k) mbedtls_context \<Rightarrow> ('x \<Rightarrow> int) option \<Rightarrow> ('x, 'k) mbedtls_context" where
  "mbedtls_set_cert_verify c f = c\<lparr>m_cert_verify_f := f\<rparr>"

text \<open>
  The list of the old protocols is released. The library takes the new list unless it refuses one of its names;
  what it says is ignored.
\<close>

definition mbedtls_set_alpn_protocols ::
  "('x, 'k) mbed_x509_lib \<Rightarrow> ('x, 'k) mbedtls_context \<Rightarrow> byte list list \<Rightarrow> ('x, 'k) mbedtls_context \<times> byte list list" where
  "mbedtls_set_alpn_protocols lib c protos =
     (c\<lparr>m_alpn_protocols := Some protos,
        m_conf_alpn := (if conf_alpn_ok lib protos then Some protos else m_conf_alpn c)\<rparr>,
      case m_alpn_protocols c of None \<Rightarrow> [] | Some old \<Rightarrow> old)"

section \<open>The peer's certificate\<close>

text \<open>What a new engine keeps for the check: the address the host name stands for, and the application's function.\<close>

record ('s, 'n, 'x) mbedtls_peer_engine = "('s, 'n) mbedtls_engine" +
  eng_ip_len :: nat
  eng_addr :: "byte list"
  eng_cert_verify_f :: "('x \<Rightarrow> int) option"

definition mbed_peer_engine ::
  "('x, 'k) mbed_x509_lib \<Rightarrow> ('x, 'k) mbedtls_context \<Rightarrow> 's \<Rightarrow> string \<Rightarrow> ('s, 'n, 'x) mbedtls_peer_engine" where
  "mbed_peer_engine lib ctx ssl host =
     (let (len, addr) = (case inet_pton6 lib host of
                           Some a \<Rightarrow> (16, a)
                         | None \<Rightarrow> (case inet_pton4 lib host of
                                      Some a \<Rightarrow> (4, a @ replicate 12 0)
                                    | None \<Rightarrow> (0, replicate 16 0)))
      in mbedtls_engine.extend (new_mbedtls_engine ssl)
           \<lparr>eng_ip_len = len, eng_addr = addr, eng_cert_verify_f = m_cert_verify_f ctx\<rparr>)"

definition san_matches :: "('s, 'n, 'x) mbedtls_peer_engine \<Rightarrow> byte \<times> byte list \<Rightarrow> bool" where
  "san_matches eng san =
     (fst san AND ASN1_TAG_VALUE_MASK = X509_SAN_IP_ADDRESS \<and>
      length (snd san) = eng_ip_len eng \<and> snd san = take (eng_ip_len eng) (eng_addr eng))"

definition internal_cert_verify ::
  "('x, 'k) mbed_x509_lib \<Rightarrow> ('s, 'n, 'x) mbedtls_peer_engine \<Rightarrow> 'x \<Rightarrow> nat \<Rightarrow> uint32 \<Rightarrow> uint32" where
  "internal_cert_verify lib eng crt depth flags =
     (let flags1 =
            (if depth = 0 \<and> eng_ip_len eng > 0 \<and> flags AND X509_BADCERT_CN_MISMATCH \<noteq> 0 \<and>
                list_ex (san_matches eng) (crt_alt_names lib crt)
             then flags AND NOT X509_BADCERT_CN_MISMATCH else flags)
      in case eng_cert_verify_f eng of
           None \<Rightarrow> flags1
         | Some f \<Rightarrow>
             if depth > 0 then flags1 AND NOT X509_BADCERT_NOT_TRUSTED
             else if f crt = 0 then flags1 AND NOT X509_BADCERT_NOT_TRUSTED
             else flags1 OR X509_BADCERT_NOT_TRUSTED)"

section \<open>Own key and certificate\<close>

text \<open>A certificate that is set without a null key behind it is handed to the library together with the key.\<close>

definition mbedtls_set_own_key ::
  "('x, 'k) mbed_x509_lib \<Rightarrow> ('x, 'k) mbedtls_context \<Rightarrow> 'k option \<Rightarrow> ub + int \<times> ('x, 'k) mbedtls_context" where
  "mbedtls_set_own_key lib c key =
     (let c1 = c\<lparr>m_own_key := key\<rparr>
      in case m_own_cert c1 of
           None \<Rightarrow> Inr (0, c1)
         | Some crt \<Rightarrow>
             (case key of
                None \<Rightarrow> Inl Null_Deref
              | Some k \<Rightarrow> if conf_own_cert lib crt k \<noteq> 0 then Inr (-1, c1)
                           else Inr (0, c1\<lparr>m_conf_own := Some (crt, k)\<rparr>)))"

text \<open>Parsing of memory, and of the file it names when that fails.\<close>

definition mbed_parse_or_path :: "('x, 'k) mbed_x509_lib \<Rightarrow> byte list \<Rightarrow> nat \<Rightarrow> int \<times> 'x list" where
  "mbed_parse_or_path lib mem len =
     (let (rc, certs) = crt_parse lib (take len mem)
      in if rc < 0 then (let (rc2, certs2) = crt_parse_path lib (c_text mem) in (rc2, certs @ certs2))
         else (rc, certs))"

text \<open>
  \<open>mem\<close> is the memory behind the pointer, \<open>len\<close> the length the caller gives. A missing zero byte at the end is
  taken to come right after the text.
\<close>

definition mbedtls_load_cert :: "('x, 'k) mbed_x509_lib \<Rightarrow> byte list \<Rightarrow> nat \<Rightarrow> ub + int \<times> 'x list option" where
  "mbedtls_load_cert lib mem len =
     (if len = 0 \<or> len > length mem then Inl Out_Of_Bounds_Read
      else
        (let len1 = (if mem ! (len - 1) \<noteq> 0 then len + 1 else len)
         in if len1 > length mem then Inl Out_Of_Bounds_Read
            else (let (rc, certs) = mbed_parse_or_path lib mem len1
                  in Inr (rc, if rc < 0 then None else Some certs))))"

text \<open>The last component lists the keys that are released.\<close>

definition mbedtls_set_own_cert ::
  "('x, 'k) mbed_x509_lib \<Rightarrow> ('x, 'k) mbedtls_context \<Rightarrow> byte list \<Rightarrow> nat \<Rightarrow>
     ub + int \<times> ('x, 'k) mbedtls_context \<times> 'k list" where
  "mbedtls_set_own_cert lib c mem len =
     (if len > length mem then Inl Out_Of_Bounds_Read
      else
        (let (rc, certs) = mbed_parse_or_path lib mem len
         in if rc < 0
            then (case m_own_key c of
                    None \<Rightarrow> Inl Null_Deref
                  | Some k \<Rightarrow> Inr (rc, c\<lparr>m_own_cert := None, m_own_key := None\<rparr>, [k]))
            else
              (let c1 = c\<lparr>m_own_cert := Some certs\<rparr>
               in case m_own_key c1 of
                    None \<Rightarrow> Inr (rc, c1, [])
                  | Some k \<Rightarrow>
                      (let rc2 = conf_own_cert lib certs k
                       in Inr (rc2, if rc2 = 0 then c1\<lparr>m_conf_own := Some (certs, k)\<rparr> else c1, [])))))"

text \<open>What is released with a context: trusted certificates, protocols, the key and the own certificates.\<close>

definition mbedtls_free_ctx ::
  "('x, 'k) mbedtls_context \<Rightarrow> 'x list \<times> byte list list \<times> 'k list \<times> 'x list" where
  "mbedtls_free_ctx c =
     (m_ca_chain c, case m_alpn_protocols c of None \<Rightarrow> [] | Some ps \<Rightarrow> ps,
      case m_own_key c of None \<Rightarrow> [] | Some k \<Rightarrow> [k], case m_own_cert c of None \<Rightarrow> [] | Some cs \<Rightarrow> cs)"

definition mbedtls_free_cert :: "'x list option \<Rightarrow> 'x list \<times> 'x list option" where
  "mbedtls_free_cert cert = (case cert of None \<Rightarrow> [] | Some cs \<Rightarrow> cs, None)"

section \<open>Signatures\<close>

text \<open>
  A raw signature is the two numbers of an elliptic curve signature one after the other; this is its
  standard form. \<open>max_len\<close> is \<open>MBEDTLS_ECDSA_MAX_LEN\<close>: when the result does not fit, the negative result of the
  library becomes a length beyond every buffer.
\<close>

definition mbedtls_sig_to_asn1 :: "('x, 'k) mbed_x509_lib \<Rightarrow> nat \<Rightarrow> byte list \<Rightarrow> ub + byte list" where
  "mbedtls_sig_to_asn1 lib max_len sig =
     (let coordlen = length sig div 2;
          r = bin_value (take coordlen sig);
          s = bin_value (take coordlen (drop coordlen sig));
          body = asn1_mpi lib r @ asn1_mpi lib s;
          out = ASN1_SEQUENCE # asn1_len lib (length body) @ body
      in if length out > max_len then Inl Out_Of_Bounds_Read else Inr out)"

definition mbedtls_verify_signature ::
  "('x, 'k) mbed_x509_lib \<Rightarrow> nat \<Rightarrow> 'x \<Rightarrow> hash_algo \<Rightarrow> byte list \<Rightarrow> byte list \<Rightarrow> ub + int" where
  "mbedtls_verify_signature lib max_len crt md data sig =
     (case message_digest lib md data of
        None \<Rightarrow> Inr (-1)
      | Some hash \<Rightarrow>
          (let rc = pk_verify lib crt md hash sig
           in if rc = 0 then Inr 0
              else if crt_is_ec lib crt
              then ub_bind (mbedtls_sig_to_asn1 lib max_len sig)
                     (\<lambda>asn1sig. Inr (if pk_verify lib crt md hash asn1sig \<noteq> 0 then -1 else 0))
              else Inr (-1)))"

section \<open>PKCS#7\<close>

text \<open>
  One element of the header of the container: \<open>mbed_tag\<close> enters an element with the given tag, \<open>mbed_oid\<close> skips
  an object identifier, and refuses the one it is given.
\<close>

definition mbed_tag :: "('x, 'k) mbed_x509_lib \<Rightarrow> byte \<Rightarrow> byte list \<Rightarrow> int + byte list" where
  "mbed_tag lib tag p = (case asn1_get_tag lib p tag of Inl rc \<Rightarrow> Inl rc | Inr (len, q) \<Rightarrow> Inr q)"

definition mbed_oid :: "('x, 'k) mbed_x509_lib \<Rightarrow> byte list \<Rightarrow> byte list \<Rightarrow> int + byte list" where
  "mbed_oid lib oid p =
     (case asn1_get_tag lib p ASN1_OID of
        Inl rc \<Rightarrow> Inl rc
      | Inr (len, q) \<Rightarrow> if length oid = len \<and> take len q = oid then Inl (-1) else Inr (drop len q))"

definition mbed_int :: "('x, 'k) mbed_x509_lib \<Rightarrow> byte list \<Rightarrow> int + byte list" where
  "mbed_int lib p = (case asn1_get_int lib p of Inl rc \<Rightarrow> Inl rc | Inr (ver, q) \<Rightarrow> Inr q)"

definition then_step :: "int + byte list \<Rightarrow> (byte list \<Rightarrow> int + byte list) \<Rightarrow> int + byte list" where
  "then_step x f = (case x of Inl rc \<Rightarrow> Inl rc | Inr p \<Rightarrow> f p)"

text \<open>The way to the first certificate. The set of digest algorithms is entered and not skipped.\<close>

definition pkcs7_header :: "('x, 'k) mbed_x509_lib \<Rightarrow> byte list \<Rightarrow> int + byte list" where
  "pkcs7_header lib der =
     foldl then_step (Inr der)
       [mbed_tag lib ASN1_SEQUENCE, mbed_oid lib OID_PKCS7_SIGNED_DATA, mbed_tag lib ASN1_CONTEXT_0,
        mbed_tag lib ASN1_SEQUENCE, mbed_int lib, mbed_tag lib ASN1_SET, mbed_tag lib ASN1_SEQUENCE,
        mbed_oid lib OID_PKCS7_DATA, mbed_tag lib ASN1_CONTEXT_0]"

text \<open>The certificates one after the other, up to the first byte that does not start one.\<close>

partial_function (option) pkcs7_certs ::
  "('x, 'k) mbed_x509_lib \<Rightarrow> byte list \<Rightarrow> 'x list option \<Rightarrow> (int \<times> 'x list option) option" where
  "pkcs7_certs lib buf certs =
     (case asn1_get_tag lib buf ASN1_SEQUENCE of
        Inl rc \<Rightarrow> Some (0, certs)
      | Inr (len, cbp) \<Rightarrow>
          (let cert_len = len + (length buf - length cbp);
               (rc, new) = crt_parse lib (take cert_len buf)
           in if rc \<noteq> 0 then Some (rc, None)
              else pkcs7_certs lib (drop cert_len buf) (Some ((case certs of None \<Rightarrow> [] | Some cs \<Rightarrow> cs) @ new))))"

declare pkcs7_certs.simps [code]

text \<open>\<open>chain\<close> is the caller's variable, which is left alone when the header is wrong.\<close>

definition mbed_parse_pkcs7_certs ::
  "('x, 'k) mbed_x509_lib \<Rightarrow> byte list \<Rightarrow> 'x list option \<Rightarrow> ub + int \<times> 'x list option" where
  "mbed_parse_pkcs7_certs lib pkcs7 chain =
     (case base64_decode lib pkcs7 of
        Inl rc \<Rightarrow> Inr (rc, chain)
      | Inr der \<Rightarrow>
          (case pkcs7_header lib der of
             Inl rc \<Rightarrow> Inr (rc, chain)
           | Inr buf \<Rightarrow> (case pkcs7_certs lib buf None of None \<Rightarrow> Inl Endless_Loop | Some r \<Rightarrow> Inr r)))"

section \<open>PEM\<close>

text \<open>
  \<open>mbedtls_pem_write_buffer\<close> with \<open>avail\<close> bytes at the position \<open>off\<close> of a buffer: the length written or needed, with the
  final zero byte, and the buffer.
\<close>

definition pem_write_buffer :: "('x, 'k) mbed_x509_lib \<Rightarrow> byte list \<Rightarrow> byte list \<Rightarrow> nat \<Rightarrow> nat \<Rightarrow> nat \<times> byte list" where
  "pem_write_buffer lib der buf off avail =
     (let t = pem_text lib der @ [0]
      in (length t, if length t > avail then buf else take off buf @ t @ drop (off + length t) buf))"

primrec pem_write_loop :: "('x, 'k) mbed_x509_lib \<Rightarrow> 'x list \<Rightarrow> nat \<Rightarrow> byte list \<Rightarrow> nat \<Rightarrow> byte list" where
  "pem_write_loop lib [] total_len buf p = buf"
| "pem_write_loop lib (c # cs) total_len buf p =
     (let (len, buf1) = pem_write_buffer lib (crt_raw lib c) buf p (total_len - p)
      in pem_write_loop lib cs total_len buf1 (p + (len - 1)))"

text \<open>\<open>junk\<close> is what the new buffer holds. Without the full chain only the first certificate counts.\<close>

definition mbed_write_cert_pem ::
  "('x, 'k) mbed_x509_lib \<Rightarrow> (nat \<Rightarrow> byte list) \<Rightarrow> 'x list option \<Rightarrow> bool \<Rightarrow> int \<times> byte list \<times> nat" where
  "mbed_write_cert_pem lib junk cert full_chain =
     (let cs = (case cert of None \<Rightarrow> [] | Some cs \<Rightarrow> if full_chain then cs else take 1 cs);
          total_len = sum_list (map (\<lambda>c. fst (pem_write_buffer lib (crt_raw lib c) [] 0 0)) cs)
      in (0, pem_write_loop lib cs total_len (junk (total_len + 1)) 0, total_len))"

section \<open>Signing requests\<close>

text \<open>
  The subject is put together in a buffer of \<open>max_dn\<close> bytes (\<open>MBEDTLS_X509_MAX_DN_NAME_SIZE\<close>), without regard to its
  size. \<open>write_csr\<close> stands for the library: the text of the request for a subject, or an error.
\<close>

fun csr_pairs :: "byte list option list \<Rightarrow> (byte list \<times> byte list) list" where
  "csr_pairs (Some name # Some val # args) = (name, val) # csr_pairs args"
| "csr_pairs _ = []"

primrec csr_dn :: "(byte list \<times> byte list) list \<Rightarrow> bool \<Rightarrow> byte list" where
  "csr_dn [] fst_pair = []"
| "csr_dn (p # ps) fst_pair =
     (if fst_pair then [] else [0x2C]) @ fst p @ [0x3D] @ snd p @ csr_dn ps False"

definition mbed_generate_csr ::
  "nat \<Rightarrow> int \<Rightarrow> (byte list \<Rightarrow> int + byte list) \<Rightarrow> byte list option list \<Rightarrow> ub + int \<times> (byte list \<times> nat) option" where
  "mbed_generate_csr max_dn seed_rc write_csr args =
     (let subject = csr_dn (csr_pairs args) True
      in if length subject + 1 > max_dn then Inl Out_Of_Bounds_Write
         else if seed_rc \<noteq> 0 then Inr (seed_rc, None)
         else (case write_csr subject of Inl rc \<Rightarrow> Inr (rc, None) | Inr pem \<Rightarrow> Inr (0, Some (pem, length pem + 1))))"

section \<open>The check of the peer\<close>

lemma x509_flags: "bit X509_BADCERT_CN_MISMATCH n \<longleftrightarrow> n = 2" "bit X509_BADCERT_NOT_TRUSTED n \<longleftrightarrow> n = 3"
proof -
  have p: "bit (2 ^ k :: uint32) n \<longleftrightarrow> n = k" if "k < 32" for k using that by (auto simp: bit_exp_iff)
  have "X509_BADCERT_CN_MISMATCH = 2 ^ 2" "X509_BADCERT_NOT_TRUSTED = 2 ^ 3"
    by (simp_all add: X509_BADCERT_CN_MISMATCH_def X509_BADCERT_NOT_TRUSTED_def)
  then show "bit X509_BADCERT_CN_MISMATCH n \<longleftrightarrow> n = 2" "bit X509_BADCERT_NOT_TRUSTED n \<longleftrightarrow> n = 3"
    using p [of 2] p [of 3] by simp_all
qed

lemma cn_mismatch_bit: "flags AND X509_BADCERT_CN_MISMATCH \<noteq> 0 \<longleftrightarrow> bit flags 2"
  using bit_iff_and_push_bit_not_eq_0 [of flags 2] by (simp add: X509_BADCERT_CN_MISMATCH_def)

lemma flag_bits:
  "bit (w AND NOT X509_BADCERT_CN_MISMATCH) n \<longleftrightarrow> bit w n \<and> n \<noteq> 2"
  "bit (w AND NOT X509_BADCERT_NOT_TRUSTED) n \<longleftrightarrow> bit w n \<and> n \<noteq> 3"
  "bit (w OR X509_BADCERT_NOT_TRUSTED) n \<longleftrightarrow> bit w n \<or> n = 3"
  by (auto simp: x509_flags bit_and_iff bit_or_iff bit_not_iff dest: bit_imp_le_length)

text \<open>The address that a host name is.\<close>

definition host_address :: "('x, 'k) mbed_x509_lib \<Rightarrow> string \<Rightarrow> byte list option" where
  "host_address lib host = (case inet_pton6 lib host of Some a \<Rightarrow> Some a | None \<Rightarrow> inet_pton4 lib host)"

definition pton_laws :: "('x, 'k) mbed_x509_lib \<Rightarrow> bool" where
  "pton_laws lib \<longleftrightarrow> (\<forall>h a. inet_pton6 lib h = Some a \<longrightarrow> length a = 16) \<and> (\<forall>h a. inet_pton4 lib h = Some a \<longrightarrow> length a = 4)"

lemma peer_engine_matches:
  assumes "pton_laws lib"
  shows "eng_ip_len (mbed_peer_engine lib ctx ssl host) > 0 \<and> san_matches (mbed_peer_engine lib ctx ssl host) (t, b) \<longleftrightarrow>
    t AND 0x1F = 7 \<and> host_address lib host = Some b"
proof (cases "inet_pton6 lib host")
  case None
  show ?thesis
  proof (cases "inet_pton4 lib host")
    case None
    with \<open>inet_pton6 lib host = None\<close> show ?thesis
      by (simp add: mbed_peer_engine_def host_address_def mbedtls_engine.defs)
  next
    case (Some a)
    with assms have "length a = 4" by (simp add: pton_laws_def)
    with Some None show ?thesis
      by (auto simp: mbed_peer_engine_def host_address_def mbedtls_engine.defs new_mbedtls_engine_def san_matches_def
          X509_SAN_IP_ADDRESS_def ASN1_TAG_VALUE_MASK_def)
  qed
next
  case (Some a)
  with assms have "length a = 16" by (simp add: pton_laws_def)
  with Some show ?thesis
    by (auto simp: mbed_peer_engine_def host_address_def mbedtls_engine.defs new_mbedtls_engine_def san_matches_def
        X509_SAN_IP_ADDRESS_def ASN1_TAG_VALUE_MASK_def)
qed

lemma peer_engine_verify_f [simp]:
  "eng_cert_verify_f (mbed_peer_engine lib ctx ssl host) = m_cert_verify_f ctx"
  by (simp add: mbed_peer_engine_def mbedtls_engine.defs Let_def split: prod.splits)

section \<open>Containers of certificates\<close>

text \<open>
  An element of the encoding, and the container in which certificates are exchanged: signed data without
  signers, and with the true identifiers of the two content types.
\<close>

definition tlv :: "('x, 'k) mbed_x509_lib \<Rightarrow> byte \<Rightarrow> byte list \<Rightarrow> byte list" where
  "tlv lib tag body = tag # asn1_len lib (length body) @ body"

definition signed_certs :: "('x, 'k) mbed_x509_lib \<Rightarrow> byte list list \<Rightarrow> byte list \<Rightarrow> byte list" where
  "signed_certs lib ders rest =
     tlv lib 0x30 (tlv lib 0x06 (OID_PKCS7 @ [2]) @
       tlv lib 0xA0 (tlv lib 0x30
         ([2, 1, 1] @ tlv lib 0x31 [] @ tlv lib 0x30 (tlv lib 0x06 (OID_PKCS7 @ [1])) @
          tlv lib 0xA0 (concat ders) @ rest)))"

definition asn1_laws :: "('x, 'k) mbed_x509_lib \<Rightarrow> bool" where
  "asn1_laws lib \<longleftrightarrow>
     (\<forall>tag body rest. length body < 2 ^ 24 \<longrightarrow> asn1_get_tag lib (tlv lib tag body @ rest) tag = Inr (length body, body @ rest)) \<and>
     (\<forall>tag p. p = [] \<or> hd p \<noteq> tag \<longrightarrow> (\<exists>rc. asn1_get_tag lib p tag = Inl rc)) \<and>
     (\<forall>v rest. v < 128 \<longrightarrow> asn1_get_int lib (2 # 1 # v # rest) = Inr (uint v, rest))"

lemma length_tlv: "length (tlv lib tag body) \<ge> length body + 1"
  by (simp add: tlv_def)

lemma mbed_tag_tlv:
  "asn1_laws lib \<Longrightarrow> length body < 2 ^ 24 \<Longrightarrow> mbed_tag lib tag (tlv lib tag body @ rest) = Inr (body @ rest)"
  by (simp add: mbed_tag_def asn1_laws_def)

lemma mbed_oid_tlv:
  "asn1_laws lib \<Longrightarrow> length body < 2 ^ 24 \<Longrightarrow> body \<noteq> oid \<Longrightarrow> mbed_oid lib oid (tlv lib 0x06 body @ rest) = Inr rest"
  by (simp add: mbed_oid_def asn1_laws_def ASN1_OID_def)

lemma pkcs7_header_result:
  assumes "asn1_laws lib" and "length (signed_certs lib ders rest) < 2 ^ 24"
  shows "pkcs7_header lib (signed_certs lib ders rest) = Inr (concat ders @ rest)"
proof -
  let ?c = "tlv lib 0xA0 (concat ders) @ rest"
  let ?b4 = "[2, 1, 1] @ tlv lib 0x31 [] @ tlv lib 0x30 (tlv lib 0x06 (OID_PKCS7 @ [1])) @ ?c"
  let ?b3 = "tlv lib 0x30 ?b4"
  let ?b1 = "tlv lib 0x06 (OID_PKCS7 @ [2]) @ tlv lib 0xA0 ?b3"
  have s: "signed_certs lib ders rest = tlv lib 0x30 ?b1" by (simp add: signed_certs_def)
  have l1: "length ?b1 < 2 ^ 24" using assms(2) length_tlv [of ?b1 lib "0x30"] unfolding s by linarith
  have l3: "length ?b3 < 2 ^ 24" using l1 length_tlv [of ?b3 lib "0xA0"] unfolding length_append by linarith
  have l4: "length ?b4 < 2 ^ 24" using l3 length_tlv [of ?b4 lib "0x30"] by linarith
  have lc: "length (concat ders) < 2 ^ 24" "length (tlv lib 0x06 (OID_PKCS7 @ [1])) < 2 ^ 24"
    using l4 length_tlv [of "concat ders" lib "0xA0"] length_tlv [of "tlv lib 0x06 (OID_PKCS7 @ [1])" lib "0x30"]
    unfolding length_append by linarith+
  have o: "length (OID_PKCS7 @ [x]) < 2 ^ 24" for x by (simp add: OID_PKCS7_def)
  have d: "OID_PKCS7 @ [2] \<noteq> OID_PKCS7_SIGNED_DATA" "OID_PKCS7 @ [1] \<noteq> OID_PKCS7_DATA"
    by (simp_all add: OID_PKCS7_SIGNED_DATA_def OID_PKCS7_DATA_def)
  note t = mbed_tag_tlv [OF assms(1)] and i = mbed_oid_tlv [OF assms(1) o]
  have "mbed_tag lib 0x30 (signed_certs lib ders rest) = Inr ?b1" using t [OF l1, of _ "[]"] by (simp add: s)
  moreover have "mbed_oid lib OID_PKCS7_SIGNED_DATA ?b1 = Inr (tlv lib 0xA0 ?b3)" by (rule i [OF d(1)])
  moreover have "mbed_tag lib 0xA0 (tlv lib 0xA0 ?b3) = Inr ?b3" using t [OF l3, of _ "[]"] by simp
  moreover have "mbed_tag lib 0x30 ?b3 = Inr ?b4" using t [OF l4, of _ "[]"] by simp
  moreover have "mbed_int lib ?b4 = Inr (tlv lib 0x31 [] @ tlv lib 0x30 (tlv lib 0x06 (OID_PKCS7 @ [1])) @ ?c)"
    using assms(1) by (simp add: mbed_int_def asn1_laws_def)
  moreover have "mbed_tag lib 0x31 (tlv lib 0x31 [] @ tlv lib 0x30 (tlv lib 0x06 (OID_PKCS7 @ [1])) @ ?c) =
      Inr (tlv lib 0x30 (tlv lib 0x06 (OID_PKCS7 @ [1])) @ ?c)" using t [of "[]"] by simp
  moreover have "mbed_tag lib 0x30 (tlv lib 0x30 (tlv lib 0x06 (OID_PKCS7 @ [1])) @ ?c) =
      Inr (tlv lib 0x06 (OID_PKCS7 @ [1]) @ ?c)" by (rule t [OF lc(2)])
  moreover have "mbed_oid lib OID_PKCS7_DATA (tlv lib 0x06 (OID_PKCS7 @ [1]) @ ?c) = Inr ?c" by (rule i [OF d(2)])
  moreover have "mbed_tag lib 0xA0 ?c = Inr (concat ders @ rest)" by (rule t [OF lc(1)])
  ultimately show ?thesis
    by (simp add: pkcs7_header_def then_step_def ASN1_SEQUENCE_def ASN1_SET_def ASN1_CONTEXT_0_def)
qed

text \<open>The encodings of certificates, and what the library makes of them.\<close>

definition certs_encoded :: "('x, 'k) mbed_x509_lib \<Rightarrow> byte list list \<Rightarrow> 'x list \<Rightarrow> bool" where
  "certs_encoded lib ders cs \<longleftrightarrow>
     list_all2 (\<lambda>der c. (\<exists>body. length body < 2 ^ 24 \<and> der = tlv lib 0x30 body) \<and> crt_parse lib der = (0, [c])) ders cs"

lemma pkcs7_certs_result:
  assumes "asn1_laws lib" and "certs_encoded lib ders cs" and "rest = [] \<or> hd rest \<noteq> 0x30"
  shows "pkcs7_certs lib (concat ders @ rest) acc =
    Some (0, if cs = [] then acc else Some ((case acc of None \<Rightarrow> [] | Some xs \<Rightarrow> xs) @ cs))"
  using assms(2) unfolding certs_encoded_def
proof (induction ders cs arbitrary: acc rule: list_all2_induct)
  case Nil
  obtain rc where "asn1_get_tag lib rest 0x30 = Inl rc" using assms(1,3) unfolding asn1_laws_def by metis
  then show ?case by (simp add: pkcs7_certs.simps [of lib rest] ASN1_SEQUENCE_def)
next
  case (Cons der ders c cs)
  then obtain body where b: "length body < 2 ^ 24" "der = tlv lib 0x30 body" "crt_parse lib der = (0, [c])" by blast
  let ?r = "concat ders @ rest"
  have g: "asn1_get_tag lib (der @ ?r) 0x30 = Inr (length body, body @ ?r)" using assms(1) b(1,2) by (simp add: asn1_laws_def)
  have "length body + (length (der @ ?r) - length (body @ ?r)) = length der" using length_tlv [of body lib "0x30"] b(2) by simp
  with g b(3) have "pkcs7_certs lib (der @ ?r) acc =
      pkcs7_certs lib ?r (Some ((case acc of None \<Rightarrow> [] | Some xs \<Rightarrow> xs) @ [c]))"
    by (subst pkcs7_certs.simps) (simp add: ASN1_SEQUENCE_def)
  with Cons.IH show ?case by simp
qed

section \<open>PEM of a chain\<close>

abbreviation cert_texts :: "('x, 'k) mbed_x509_lib \<Rightarrow> 'x list \<Rightarrow> byte list list" where
  "cert_texts lib cs \<equiv> map (\<lambda>c. pem_text lib (crt_raw lib c)) cs"

lemma pem_write_loop_result:
  assumes "cs \<noteq> []" and "p + sum_list (map (\<lambda>t. length t + 1) (cert_texts lib cs)) \<le> tot" and "tot < length buf"
  shows "pem_write_loop lib cs tot buf p =
    take p buf @ concat (cert_texts lib cs) @ [0] @ drop (p + length (concat (cert_texts lib cs)) + 1) buf"
  using assms
proof (induction cs arbitrary: buf p)
  case (Cons c cs)
  let ?t = "pem_text lib (crt_raw lib c)"
  let ?buf = "take p buf @ (?t @ [0]) @ drop (p + length (?t @ [0])) buf"
  have fit: "\<not> length (?t @ [0]) > tot - p" using Cons.prems(2) by simp
  then have w: "pem_write_loop lib (c # cs) tot buf p = pem_write_loop lib cs tot ?buf (p + length ?t)"
    by (simp add: pem_write_buffer_def)
  have p: "p + length ?t + 1 \<le> length buf" using Cons.prems(2,3) by simp
  show ?case
  proof (cases "cs = []")
    case True
    with w show ?thesis by simp
  next
    case False
    have "length ?buf = length buf" using p by simp
    then have "pem_write_loop lib cs tot ?buf (p + length ?t) =
        take (p + length ?t) ?buf @ concat (cert_texts lib cs) @ [0] @
        drop (p + length ?t + length (concat (cert_texts lib cs)) + 1) ?buf"
      using Cons.IH [OF False, of "p + length ?t" ?buf] Cons.prems(2,3) by simp
    with w p show ?thesis by (simp add: ac_simps)
  qed
qed simp

lemma c_text_prefix: "0 \<notin> set t \<Longrightarrow> c_text (t @ 0 # rest) = t"
  by (induction t) (auto simp: c_text_def)

lemma write_cert_pem_result:
  assumes "\<And>n. length (junk n) = n" and "cs \<noteq> []" and "\<And>c. c \<in> set cs \<Longrightarrow> 0 \<notin> set (pem_text lib (crt_raw lib c))"
    and "used = (if full then cs else take 1 cs)"
  shows "\<exists>rest. mbed_write_cert_pem lib junk (Some cs) full =
      (0, concat (cert_texts lib used) @ 0 # rest, length (concat (cert_texts lib used)) + length used) \<and>
    length rest = length used \<and> c_text (concat (cert_texts lib used) @ 0 # rest) = concat (cert_texts lib used)"
proof -
  let ?ts = "cert_texts lib used"
  have u: "used \<noteq> []" "set used \<subseteq> set cs" using assms(2,4) by (auto dest: in_set_takeD)
  have tl: "sum_list (map (\<lambda>c. fst (pem_write_buffer lib (crt_raw lib c) [] 0 0)) used) = length (concat ?ts) + length used"
    by (induction used) (simp_all add: pem_write_buffer_def)
  have ts: "sum_list (map (\<lambda>t. length t + 1) ?ts) = length (concat ?ts) + length used"
    by (induction used) simp_all
  let ?n = "length (concat ?ts) + length used"
  have "pem_write_loop lib used ?n (junk (?n + 1)) 0 = concat ?ts @ 0 # drop (length (concat ?ts) + 1) (junk (?n + 1))"
    using pem_write_loop_result [OF u(1), of 0 lib ?n "junk (?n + 1)"] assms(1) [of "?n + 1"] unfolding ts by simp
  then have "mbed_write_cert_pem lib junk (Some cs) full = (0, concat ?ts @ 0 # drop (length (concat ?ts) + 1) (junk (?n + 1)), ?n)"
    using tl assms(4) by (simp add: mbed_write_cert_pem_def Let_def)
  moreover have "0 \<notin> set (concat ?ts)" using u(2) assms(3) by auto
  ultimately show ?thesis using assms(1) [of "?n + 1"] by (simp add: c_text_prefix)
qed

section \<open>A library\<close>

text \<open>
  The laws hold of the usual encoding of lengths, with three bytes for the long ones. In this library a
  certificate is its encoding, and its text is a dash and the encoding.
\<close>

definition toy_len :: "nat \<Rightarrow> byte list" where
  "toy_len n = (if n < 128 then [of_nat n] else [0x83, of_nat (n div 65536), of_nat (n div 256 mod 256), of_nat (n mod 256)])"

definition toy_get_tag :: "byte list \<Rightarrow> byte \<Rightarrow> int + nat \<times> byte list" where
  "toy_get_tag p tag =
     (case p of
        t # l # q \<Rightarrow>
          if t \<noteq> tag then Inl (-0x62)
          else if l < 128 then (if unat l > length q then Inl (-0x60) else Inr (unat l, q))
          else (case q of
             a # b # c # r \<Rightarrow> if l = 0x83 then Inr (65536 * unat a + 256 * unat b + unat c, r) else Inl (-0x64)
           | _ \<Rightarrow> Inl (-0x60))
      | _ \<Rightarrow> Inl (-0x60))"

definition toy_mbed :: "(byte list, nat) mbed_x509_lib" where
  "toy_mbed =
     \<lparr>crt_parse = (\<lambda>bs. case bs of [] \<Rightarrow> (-1, []) | b # r \<Rightarrow> if b = 0x30 then (0, [bs]) else if b = 0x2D then (0, [butlast r]) else (-1, [])),
      crt_parse_path = (\<lambda>p. (-1, [])), crt_raw = (\<lambda>c. c), crt_alt_names = (\<lambda>c. [(0x87, c)]), crt_is_ec = (\<lambda>c. True),
      pk_verify = (\<lambda>c h d s. 0), message_digest = (\<lambda>h d. Some d), conf_own_cert = (\<lambda>c k. 0),
      conf_alpn_ok = (\<lambda>ps. list_all (\<lambda>p. p \<noteq> [] \<and> length p < 256) ps), base64_decode = Inr, asn1_get_tag = toy_get_tag,
      asn1_get_int = (\<lambda>p. case p of a # b # v # r \<Rightarrow> Inr (uint v, r) | _ \<Rightarrow> Inl (-0x60)), asn1_mpi = (\<lambda>n. [2, 1, of_nat n]),
      asn1_len = toy_len, pem_text = (\<lambda>der. 0x2D # der), inet_pton4 = (\<lambda>h. if h = ''10.0.0.7'' then Some [10, 0, 0, 7] else None),
      inet_pton6 = (\<lambda>h. None)\<rparr>"

lemma toy_get_tag_tlv: "length body < 2 ^ 24 \<Longrightarrow> toy_get_tag (tlv toy_mbed tag body @ rest) tag = Inr (length body, body @ rest)"
proof (cases "length body < 128")
  case True
  then have "unat (of_nat (length body) :: byte) = length body" by (simp add: unat_of_nat take_bit_nat_eq_self)
  with True show ?thesis by (simp add: toy_get_tag_def tlv_def toy_mbed_def toy_len_def word_less_nat_alt)
next
  case False
  assume l: "length body < 2 ^ 24"
  let ?n = "length body"
  have b: "unat (of_nat k :: byte) = k" if "k < 256" for k using that by (simp add: unat_of_nat take_bit_nat_eq_self)
  have "?n div 65536 < 256" using l by (simp add: less_mult_imp_div_less)
  moreover have "65536 * (?n div 65536) + 256 * (?n div 256 mod 256) + ?n mod 256 = ?n"
  proof -
    have "?n div 65536 = ?n div 256 div 256" by (simp add: div_mult2_eq [symmetric])
    with mult_div_mod_eq [of 256 "?n div 256"] mult_div_mod_eq [of 256 ?n] show ?thesis by linarith
  qed
  ultimately show ?thesis using False
    by (simp add: toy_get_tag_def tlv_def toy_mbed_def toy_len_def b)
qed

lemma toy_mbed_laws: "asn1_laws toy_mbed" "pton_laws toy_mbed"
proof -
  have "asn1_get_tag toy_mbed = toy_get_tag" by (simp add: toy_mbed_def)
  moreover have "\<exists>rc. toy_get_tag p tag = Inl rc" if "p = [] \<or> hd p \<noteq> tag" for p tag
    using that by (auto simp: toy_get_tag_def split: list.splits)
  ultimately show "asn1_laws toy_mbed" unfolding asn1_laws_def using toy_get_tag_tlv by (auto simp: toy_mbed_def)
  show "pton_laws toy_mbed" by (simp add: pton_laws_def toy_mbed_def)
qed

section \<open>Defects\<close>

text \<open>
  The two content types are exchanged and the test is inverted: only the exchanged content type is refused, and
  every other one is accepted.
\<close>

lemma content_type_test_inverted:
  assumes "asn1_laws lib" and "length body < 2 ^ 24"
  shows "mbed_oid lib OID_PKCS7_SIGNED_DATA (tlv lib 0x06 body @ rest) = (if body = OID_PKCS7 @ [1] then Inl (-1) else Inr rest)"
  using assms mbed_oid_tlv [OF assms] by (auto simp: mbed_oid_def asn1_laws_def ASN1_OID_def OID_PKCS7_SIGNED_DATA_def)

text \<open>When the library refuses the new protocols, it goes on with the list that is released.\<close>

lemma refused_protocols_dangle:
  assumes "m_conf_alpn c = m_alpn_protocols c" and "m_alpn_protocols c = Some old" and "\<not> conf_alpn_ok lib protos"
  shows "m_conf_alpn (fst (mbedtls_set_alpn_protocols lib c protos)) = Some old" "snd (mbedtls_set_alpn_protocols lib c protos) = old"
  using assms by (simp_all add: mbedtls_set_alpn_protocols_def)

text \<open>
  A certificate that cannot be loaded makes the context release its key, also one that is not there, and one
  that the library goes on to use.
\<close>

lemma failed_cert_without_key:
  assumes "len \<le> length mem" and "fst (mbed_parse_or_path lib mem len) < 0" and "m_own_key c = None"
  shows "mbedtls_set_own_cert lib c mem len = Inl Null_Deref"
  using assms by (cases "mbed_parse_or_path lib mem len") (simp add: mbedtls_set_own_cert_def)

lemma failed_cert_releases_used_key:
  assumes "len \<le> length mem" and "fst (mbed_parse_or_path lib mem len) < 0" and "m_own_key c = Some k" and "m_conf_own c = Some (cs, k)"
  shows "\<exists>rc c'. mbedtls_set_own_cert lib c mem len = Inr (rc, c', [k]) \<and> m_conf_own c' = Some (cs, k)"
  using assms by (cases "mbed_parse_or_path lib mem len") (simp add: mbedtls_set_own_cert_def)

text \<open>A certificate without a zero byte at its end is read beyond its end, and so is an empty one.\<close>

lemma load_cert_reads_beyond:
  "mbedtls_load_cert lib [] 0 = Inl Out_Of_Bounds_Read"
  "mem \<noteq> [] \<Longrightarrow> last mem \<noteq> 0 \<Longrightarrow> mbedtls_load_cert lib mem (length mem) = Inl Out_Of_Bounds_Read"
  by (simp_all add: mbedtls_load_cert_def last_conv_nth)

text \<open>Removing the key while there is a certificate uses a null pointer.\<close>

lemma unset_key_undefined: "m_own_cert c = Some cs \<Longrightarrow> mbedtls_set_own_key lib c None = Inl Null_Deref"
  by (simp add: mbedtls_set_own_key_def)

text \<open>A subject that is too long is written beyond its buffer.\<close>

lemma long_subject_overflows:
  "length name + length val + 2 > max_dn \<Longrightarrow> mbed_generate_csr max_dn seed_rc write_csr [Some name, Some val, None] = Inl Out_Of_Bounds_Write"
  by (simp add: mbed_generate_csr_def)

section \<open>Properties\<close>

text \<open>
  C38. What the engine of a host makes of the library's verdict on a certificate. A certificate whose name
  does not match is let pass only if it is the peer's own and has an alternative name that is
  exactly the address the host name is; whether a certificate is trusted is left as it is, or decided by the
  application's function, which is asked about the peer's own certificate only; all other
  objections stay.
\<close>

theorem mbed_peer_check:
  assumes "pton_laws lib"
  shows "bit (internal_cert_verify lib (mbed_peer_engine lib ctx ssl host) crt depth flags) n \<longleftrightarrow>
    (if n = 2 then bit flags 2 \<and>
        \<not> (depth = 0 \<and> (\<exists>t a. host_address lib host = Some a \<and> (t, a) \<in> set (crt_alt_names lib crt) \<and> t AND 0x1F = 7))
     else if n = 3 then (case m_cert_verify_f ctx of None \<Rightarrow> bit flags 3 | Some f \<Rightarrow> depth = 0 \<and> f crt \<noteq> 0)
     else bit flags n)"
proof -
  let ?e = "mbed_peer_engine lib ctx ssl host"
  have m1: "eng_ip_len ?e > 0 \<and> san_matches ?e x \<longleftrightarrow> fst x AND 0x1F = 7 \<and> host_address lib host = Some (snd x)" for x
    using peer_engine_matches [OF assms, of ctx ssl host "fst x" "snd x"] by simp
  have m: "eng_ip_len ?e > 0 \<and> list_ex (san_matches ?e) sans \<longleftrightarrow>
      (\<exists>t a. host_address lib host = Some a \<and> (t, a) \<in> set sans \<and> t AND 0x1F = 7)" for sans
    unfolding list_ex_iff using m1 by (metis fst_conv prod.collapse snd_conv)
  have c: "depth = 0 \<and> eng_ip_len ?e > 0 \<and> flags AND X509_BADCERT_CN_MISMATCH \<noteq> 0 \<and> list_ex (san_matches ?e) (crt_alt_names lib crt) \<longleftrightarrow>
      bit flags 2 \<and> depth = 0 \<and> (\<exists>t a. host_address lib host = Some a \<and> (t, a) \<in> set (crt_alt_names lib crt) \<and> t AND 0x1F = 7)"
    unfolding cn_mismatch_bit using m by blast
  show ?thesis unfolding internal_cert_verify_def Let_def c peer_engine_verify_f
    by (auto simp: flag_bits split: option.splits)
qed

theorem mbed_peer_check_witness:
  "bit (internal_cert_verify toy_mbed (mbed_peer_engine toy_mbed (new_mbedtls_ctx toy_mbed (\<lambda>f. False) None) () ''10.0.0.7'')
     [10, 0, 0, 7] 0 0x0C) 2 = False \<and>
   bit (internal_cert_verify toy_mbed (mbed_peer_engine toy_mbed (new_mbedtls_ctx toy_mbed (\<lambda>f. False) None) () ''10.0.0.7'')
     [10, 0, 0, 8] 0 0x0C) 2 = True"
  unfolding mbed_peer_check [OF toy_mbed_laws(2)]
  by (simp add: host_address_def toy_mbed_def new_mbedtls_ctx_def)

text \<open>
  C39. The certificates of a container of the usual form, less than 16 MB of it, are read completely and in
  order; a container without certificates gives a null chain.
\<close>

theorem mbed_pkcs7_roundtrip:
  assumes "asn1_laws lib" and "certs_encoded lib ders cs" and "rest = [] \<or> hd rest \<noteq> 0x30"
    and "base64_decode lib text = Inr (signed_certs lib ders rest)" and "length (signed_certs lib ders rest) < 2 ^ 24"
  shows "mbed_parse_pkcs7_certs lib text chain = Inr (0, if cs = [] then None else Some cs)"
  using pkcs7_header_result [OF assms(1,5)] pkcs7_certs_result [OF assms(1-3), of None] assms(4)
  by (simp add: mbed_parse_pkcs7_certs_def)

theorem mbed_pkcs7_roundtrip_witness:
  "mbed_parse_pkcs7_certs toy_mbed (signed_certs toy_mbed [[0x30, 2, 7, 8], [0x30, 1, 9]] [0x31, 0]) None =
   Inr (0, Some [[0x30, 2, 7, 8], [0x30, 1, 9]])"
proof -
  have "[0x30, 2, 7, 8] = tlv toy_mbed 0x30 [7, 8]" "[0x30, 1, 9] = tlv toy_mbed 0x30 [9]"
    by (simp_all add: tlv_def toy_mbed_def toy_len_def)
  then have "\<exists>body. length body < 2 ^ 24 \<and> [0x30, 2, 7, 8] = tlv toy_mbed 0x30 body"
    "\<exists>body. length body < 2 ^ 24 \<and> [0x30, 1, 9] = tlv toy_mbed 0x30 body"
    by (intro exI [of _ "[7, 8]"] exI [of _ "[9]"]; simp)+
  then have "certs_encoded toy_mbed [[0x30, 2, 7, 8], [0x30, 1, 9]] [[0x30, 2, 7, 8], [0x30, 1, 9]]"
    by (simp add: certs_encoded_def toy_mbed_def)
  moreover have "length (signed_certs toy_mbed [[0x30, 2, 7, 8], [0x30, 1, 9]] [0x31, 0]) < 2 ^ 24"
    by (simp add: signed_certs_def tlv_def toy_mbed_def toy_len_def OID_PKCS7_def)
  moreover have "base64_decode toy_mbed x = Inr x" for x by (simp add: toy_mbed_def)
  ultimately show ?thesis using mbed_pkcs7_roundtrip [OF toy_mbed_laws(1), of "[[0x30, 2, 7, 8], [0x30, 1, 9]]"] by simp
qed

text \<open>
  Certificates written as PEM: the buffer holds, as a string, the texts of all certificates of the chain in
  order, or of the first one only, and the length that is returned, which counts a zero byte for
  every certificate, stays within the buffer. A single certificate loads back.
\<close>

lemma mbed_cert_pem_roundtrip:
  assumes "\<And>n. length (junk n) = n" and "cs \<noteq> []" and "\<And>c. c \<in> set cs \<Longrightarrow> 0 \<notin> set (pem_text lib (crt_raw lib c))"
    and "used = (if full then cs else take 1 cs)"
  shows "\<exists>buf len. mbed_write_cert_pem lib junk (Some cs) full = (0, buf, len) \<and>
    c_text buf = concat (cert_texts lib used) \<and> len = length (c_text buf) + length used \<and> length buf = len + 1 \<and>
    (length used = 1 \<and> crt_parse lib (c_text buf @ [0]) = (0, used) \<longrightarrow> mbedtls_load_cert lib buf len = Inr (0, Some used))"
proof -
  let ?t = "concat (cert_texts lib used)"
  obtain rest where r: "mbed_write_cert_pem lib junk (Some cs) full = (0, ?t @ 0 # rest, length ?t + length used)"
    "length rest = length used" "c_text (?t @ 0 # rest) = ?t"
    using write_cert_pem_result [OF assms] by blast
  have "mbedtls_load_cert lib (?t @ 0 # rest) (length ?t + length used) = Inr (0, Some used)"
    if "length used = 1" "crt_parse lib (?t @ [0]) = (0, used)"
    using that r(2) by (simp add: mbedtls_load_cert_def mbed_parse_or_path_def nth_append)
  with r show ?thesis by simp
qed

end
