(* ===== verification/Mbed_Keys.thy ===== *)
theory Mbed_Keys
  imports Mbed_Cert
begin

text \<open>
  Keys of the mbedTLS engine, from \<open>src/mbedtls/keys.c\<close>: signing and verifying, and keys read and written. The library is
  a parameter; private keys \<open>'p\<close> and public keys \<open>'u\<close> are abstract.
\<close>

section \<open>The library\<close>

text \<open>
  The texts are C strings without their zero byte; \<open>write_pub_text\<close> and \<open>pub_text_of\<close> are what the library writes if there
  is room for it, \<open>write_key_text\<close> gets the room and may fail, \<open>parse_key\<close> and \<open>parse_pub\<close> get the bytes of a text with its zero byte, and \<open>seed_rc\<close> is the result of seeding the
  random numbers.
\<close>

record ('p, 'u) mbed_pk_lib =
  md_hash :: "hash_algo \<Rightarrow> byte list \<Rightarrow> byte list option"
  pk_verify_hash :: "'u \<Rightarrow> hash_algo \<Rightarrow> byte list \<Rightarrow> byte list \<Rightarrow> int"
  pk_sign_hash :: "'p \<Rightarrow> hash_algo \<Rightarrow> byte list \<Rightarrow> nat \<Rightarrow> byte list option"
  write_pub_text :: "'u \<Rightarrow> byte list"
  write_key_text :: "'p \<Rightarrow> nat \<Rightarrow> int + byte list"
  pub_text_of :: "'p \<Rightarrow> byte list"
  parse_key :: "byte list \<Rightarrow> int \<times> 'p option"
  parse_key_path :: "byte list \<Rightarrow> int \<times> 'p option"
  parse_pub :: "byte list \<Rightarrow> 'u option"
  seed_rc :: int
  ecp_gen_key :: "int \<times> 'p option"

section \<open>Operations\<close>

definition mbed_key_verify :: "('p, 'u) mbed_pk_lib \<Rightarrow> 'u \<Rightarrow> hash_algo \<Rightarrow> byte list \<Rightarrow> byte list \<Rightarrow> int" where
  "mbed_key_verify lib pk md data sig =
     (case md_hash lib md data of
        None \<Rightarrow> -1
      | Some hash \<Rightarrow> if pk_verify_hash lib pk md hash sig \<noteq> 0 then -1 else 0)"

text \<open>\<open>siglen\<close> is the room for the signature. The result of seeding is not looked at here.\<close>

definition mbed_privkey_sign ::
  "('p, 'u) mbed_pk_lib \<Rightarrow> 'p \<Rightarrow> hash_algo \<Rightarrow> byte list \<Rightarrow> nat \<Rightarrow> int \<times> byte list option" where
  "mbed_privkey_sign lib pk md data siglen =
     (case md_hash lib md data of
        None \<Rightarrow> (-1, None)
      | Some hash \<Rightarrow> (case pk_sign_hash lib pk md hash siglen of None \<Rightarrow> (-1, None) | Some sig \<Rightarrow> (0, Some sig)))"

definition mbed_pubkey_pem :: "('p, 'u) mbed_pk_lib \<Rightarrow> 'u \<Rightarrow> int \<times> (byte list \<times> nat) option" where
  "mbed_pubkey_pem lib pk =
     (let t = write_pub_text lib pk in if length t + 1 > 1024 then (-1, None) else (0, Some (t, length t)))"

text \<open>
  The public key of a private one, by way of a text of at most 4095 bytes. When it is longer, the buffer holds what was on
  the stack, \<open>junk\<close>, which is taken as a text.
\<close>

definition mbed_privkey_pubkey :: "('p, 'u) mbed_pk_lib \<Rightarrow> byte list \<Rightarrow> 'p \<Rightarrow> ub + 'u option" where
  "mbed_privkey_pubkey lib junk pk =
     (let t = pub_text_of lib pk;
          buf = (if length t + 1 > 4096 then take 4096 junk else t @ [0])
      in if 0 \<in> set buf then Inr (parse_pub lib (c_text buf @ [0])) else Inl Out_Of_Bounds_Read)"

definition mbed_privkey_to_pem :: "('p, 'u) mbed_pk_lib \<Rightarrow> 'p \<Rightarrow> int \<times> (byte list \<times> nat) option" where
  "mbed_privkey_to_pem lib pk =
     (case write_key_text lib pk 4096 of
        Inl rc \<Rightarrow> (rc, None)
      | Inr t \<Rightarrow> (0, Some (t @ [0], length t + 1)))"

text \<open>
  \<open>mem\<close> is the memory behind the pointer. As for certificates, a missing zero byte is taken to follow the text, and a text
  that is no key is taken as the name of a file.
\<close>

definition mbed_load_key :: "('p, 'u) mbed_pk_lib \<Rightarrow> byte list \<Rightarrow> nat \<Rightarrow> ub + int \<times> 'p option" where
  "mbed_load_key lib mem len =
     (if seed_rc lib \<noteq> 0 then Inr (seed_rc lib, None)
      else if len = 0 \<or> len > length mem then Inl Out_Of_Bounds_Read
      else
        (let keylen = (if mem ! (len - 1) = 0 then len else len + 1)
         in if keylen > length mem then Inl Out_Of_Bounds_Read
            else
              (let (rc, k) = parse_key lib (take keylen mem)
               in if rc < 0
                  then (let (rc2, k2) = parse_key_path lib (c_text mem) in Inr (rc2, if rc2 < 0 then None else k2))
                  else Inr (rc, k))))"

definition mbed_gen_key :: "('p, 'u) mbed_pk_lib \<Rightarrow> int \<times> 'p option" where
  "mbed_gen_key lib =
     (if seed_rc lib \<noteq> 0 then (seed_rc lib, None)
      else (let (rc, k) = ecp_gen_key lib in (rc, if rc \<noteq> 0 then None else k)))"

text \<open>Keys on tokens are not supported by this engine.\<close>

definition mbed_load_key_p11 :: "int \<times> 'p option" where
  "mbed_load_key_p11 = (-1, None)"

section \<open>Lemmas\<close>

text \<open>A key that is written as text is loaded back, from the memory and with the length that were returned.\<close>

lemma key_pem_roundtrip:
  assumes "mbed_privkey_to_pem lib pk = (0, Some (mem, len))" and "seed_rc lib = 0"
    and "\<And>t. write_key_text lib pk 4096 = Inr t \<Longrightarrow> parse_key lib (t @ [0]) = (0, Some pk)"
  shows "mbed_load_key lib mem len = Inr (0, Some pk)"
  using assms by (auto simp: mbed_privkey_to_pem_def mbed_load_key_def split: sum.splits if_splits)

text \<open>
  A signature is accepted by the public key of its key if the library accepts the signatures it makes and reads the texts it
  writes.
\<close>

lemma signature_accepted:
  assumes "mbed_privkey_sign lib pk md data siglen = (0, Some sig)" and "length (pub_text_of lib pk) < 4096"
    and "0 \<notin> set (pub_text_of lib pk)" and "parse_pub lib (pub_text_of lib pk @ [0]) = Some u"
    and "\<And>h s. pk_sign_hash lib pk md h siglen = Some s \<Longrightarrow> pk_verify_hash lib u md h s = 0"
  shows "mbed_privkey_pubkey lib junk pk = Inr (Some u)" and "mbed_key_verify lib u md data sig = 0"
proof -
  show "mbed_privkey_pubkey lib junk pk = Inr (Some u)"
    using assms(2-4) c_text_prefix [of "pub_text_of lib pk" "[]"] by (simp add: mbed_privkey_pubkey_def)
  show "mbed_key_verify lib u md data sig = 0"
    using assms(1,5) by (auto simp: mbed_privkey_sign_def mbed_key_verify_def split: option.splits)
qed

section \<open>Defects\<close>

text \<open>A key text without a zero byte at its end is read beyond its end.\<close>

lemma load_key_reads_beyond:
  "seed_rc lib = 0 \<Longrightarrow> mem \<noteq> [] \<Longrightarrow> last mem \<noteq> 0 \<Longrightarrow> mbed_load_key lib mem (length mem) = Inl Out_Of_Bounds_Read"
  by (simp add: mbed_load_key_def last_conv_nth)

text \<open>The public key of a key whose text is too long is read from uninitialised memory, possibly beyond it.\<close>

lemma long_public_key_reads_stack:
  "length (pub_text_of lib pk) \<ge> 4096 \<Longrightarrow> 0 \<notin> set junk \<Longrightarrow> mbed_privkey_pubkey lib junk pk = Inl Out_Of_Bounds_Read"
  by (auto simp: mbed_privkey_pubkey_def Let_def dest: in_set_takeD)

end
