(* ===== verification/Ossl_Keys.thy ===== *)
theory Ossl_Keys
  imports P11 Tls_Engine
begin

text \<open>
  Keys of the OpenSSL engine, from \<open>src/openssl/keys.c\<close>: signing and verifying, keys read and written, and
  private keys that stay on a PKCS#11 token, whose signatures are made by the token and put into the
  library's form. The library is a parameter.
\<close>

section \<open>The library\<close>

text \<open>
  A private key: one of the library, or one on a token, with the curve and the point or the modulus and the
  exponent of its public part. \<open>Pk_None\<close> is an object that has got no key.
\<close>

datatype ('k, 'g, 'q) evp_pkey =
    Pk_None
  | Pk_Soft 'k
  | Pk_Ec 'g 'q p11_key_ctx
  | Pk_Rsa nat nat p11_key_ctx

datatype rsa_padding = RSA_PKCS1_PADDING | RSA_NO_PADDING | RSA_X931_PADDING | RSA_Other_Padding

text \<open>
  \<open>ec_sign\<close> and \<open>rsa_sign\<close> are \<open>EVP_DigestSign\<close> for a key whose method calls back for the signature of a digest, which
  is a pair of numbers, or for the private operation. \<open>pub_pem\<close> is the PEM text of the public part of a private key.
\<close>

record ('k, 'g, 'q, 'u, 'x) key_lib =
  d2i_ECParameters :: "byte list \<Rightarrow> 'g option"
  d2i_octets :: "byte list \<Rightarrow> byte list option"
  o2i_ECPublicKey :: "'g \<Rightarrow> byte list \<Rightarrow> 'q option"
  pub_pem :: "('k, 'g, 'q) evp_pkey \<Rightarrow> string option"
  read_pub :: "string \<Rightarrow> 'u option"
  write_pub :: "'u \<Rightarrow> string option"
  priv_pem :: "('k, 'g, 'q) evp_pkey \<Rightarrow> string option"
  read_priv :: "string \<Rightarrow> 'k option"
  keygen :: "'k option"
  pub_is_ec :: "'u \<Rightarrow> bool"
  ec_verify :: "'u \<Rightarrow> byte list \<Rightarrow> nat \<times> nat \<Rightarrow> bool"
  digest_verify :: "'u \<Rightarrow> hash_algo \<Rightarrow> byte list \<Rightarrow> byte list \<Rightarrow> bool"
  digest_of :: "hash_algo \<Rightarrow> byte list \<Rightarrow> byte list"
  d2i_sig :: "byte list \<Rightarrow> (nat \<times> nat) option"
  i2d_sig :: "nat \<times> nat \<Rightarrow> byte list"
  soft_sign :: "'k \<Rightarrow> hash_algo \<Rightarrow> byte list \<Rightarrow> byte list option"
  ec_sign :: "(byte list \<Rightarrow> nat \<times> nat) \<Rightarrow> hash_algo \<Rightarrow> byte list \<Rightarrow> byte list option"
  rsa_sign :: "(byte list \<Rightarrow> rsa_padding \<Rightarrow> byte list) \<Rightarrow> hash_algo \<Rightarrow> byte list \<Rightarrow> byte list option"
  rsa_size :: "nat \<Rightarrow> nat"
  d2i_X509 :: "byte list \<Rightarrow> 'x option"
  i2d_X509 :: "'x \<Rightarrow> byte list"
  i2d_subject :: "'x \<Rightarrow> byte list"
  x509_pubkey :: "'x \<Rightarrow> 'u option"

section \<open>Verifying\<close>

text \<open>The two numbers of a raw signature, one after the other.\<close>

definition split_sig :: "byte list \<Rightarrow> nat \<times> nat" where
  "split_sig sig =
     (let half = length sig div 2 in (bin_value (take half sig), bin_value (take half (drop half sig))))"

definition verify_ecdsa_sig :: "('k, 'g, 'q, 'u, 'x) key_lib \<Rightarrow> 'u \<Rightarrow> hash_algo \<Rightarrow> byte list \<Rightarrow> byte list \<Rightarrow> int" where
  "verify_ecdsa_sig lib ec hash data sig =
     (if ec_verify lib ec (digest_of lib hash data) (split_sig sig) then 0 else -1)"

text \<open>A signature for an elliptic curve that is not in the standard form is taken as a raw one.\<close>

definition verify_signature :: "('k, 'g, 'q, 'u, 'x) key_lib \<Rightarrow> 'u \<Rightarrow> hash_algo \<Rightarrow> byte list \<Rightarrow> byte list \<Rightarrow> int" where
  "verify_signature lib pk md data sig =
     (if pub_is_ec lib pk \<and> d2i_sig lib sig = None then verify_ecdsa_sig lib pk md data sig
      else if digest_verify lib pk md data sig then 0 else -1)"

text \<open>The signature of the first certificate of a store; without a public key the null key is used.\<close>

definition tls_verify_signature ::
  "('k, 'g, 'q, 'u, 'x) key_lib \<Rightarrow> 'x list \<Rightarrow> hash_algo \<Rightarrow> byte list \<Rightarrow> byte list \<Rightarrow> ub + int" where
  "tls_verify_signature lib store md data sig =
     (case store of
        [] \<Rightarrow> Inl Null_Deref
      | c # _ \<Rightarrow> (case x509_pubkey lib c of None \<Rightarrow> Inl Null_Deref | Some pk \<Rightarrow> Inr (verify_signature lib pk md data sig)))"

section \<open>Token keys\<close>

definition CKM_RSA_PKCS :: nat where "CKM_RSA_PKCS = 1"
definition CKM_RSA_X_509 :: nat where "CKM_RSA_X_509 = 3"
definition CKM_RSA_X9_31 :: nat where "CKM_RSA_X9_31 = 11"

text \<open>
  The methods of token keys. When the token fails, the buffer of 512 bytes holds what was on the stack, \<open>junk\<close>, and
  is taken as the signature.
\<close>

definition privkey_p11_sign_sig :: "byte list \<Rightarrow> p11_key_ctx \<Rightarrow> byte list \<Rightarrow> nat \<times> nat" where
  "privkey_p11_sign_sig junk key digest =
     split_sig (case p11_key_sign key digest 512 0 of Inl rc \<Rightarrow> take 512 junk | Inr sig \<Rightarrow> sig)"

definition privkey_p11_rsa_enc :: "byte list \<Rightarrow> nat \<Rightarrow> p11_key_ctx \<Rightarrow> nat \<Rightarrow> byte list \<Rightarrow> rsa_padding \<Rightarrow> byte list" where
  "privkey_p11_rsa_enc junk junk_mech key room msg padding =
     (let mech = (case padding of
                    RSA_PKCS1_PADDING \<Rightarrow> CKM_RSA_PKCS
                  | RSA_NO_PADDING \<Rightarrow> CKM_RSA_X_509
                  | RSA_X931_PADDING \<Rightarrow> CKM_RSA_X9_31
                  | RSA_Other_Padding \<Rightarrow> junk_mech)
      in case p11_key_sign key msg room mech of Inl rc \<Rightarrow> take room junk | Inr sig \<Rightarrow> sig)"

definition load_pkcs11_ec ::
  "('k, 'g, 'q, 'u, 'x) key_lib \<Rightarrow> ('k, 'g, 'q) evp_pkey \<Rightarrow> p11_key_ctx \<Rightarrow> int \<times> ('k, 'g, 'q) evp_pkey" where
  "load_pkcs11_ec lib pkey key =
     (case p11_get_key_attr key CKA_EC_PARAMS of
        Inl rc \<Rightarrow> (-1, pkey)
      | Inr params \<Rightarrow>
          (case d2i_ECParameters lib params of
             None \<Rightarrow> (-1, pkey)
           | Some g \<Rightarrow>
               (case p11_get_key_attr key CKA_EC_POINT of
                  Inl rc \<Rightarrow> (-1, pkey)
                | Inr val \<Rightarrow>
                    (case o2i_ECPublicKey lib g (case d2i_octets lib val of Some os \<Rightarrow> os | None \<Rightarrow> val) of
                       None \<Rightarrow> (-1, pkey)
                     | Some q \<Rightarrow> (0, Pk_Ec g q key)))))"

definition load_pkcs11_rsa :: "('k, 'g, 'q) evp_pkey \<Rightarrow> p11_key_ctx \<Rightarrow> int \<times> ('k, 'g, 'q) evp_pkey" where
  "load_pkcs11_rsa pkey key =
     (case p11_get_key_attr key CKA_PUBLIC_EXPONENT of
        Inl rc \<Rightarrow> (-1, pkey)
      | Inr e \<Rightarrow>
          (case p11_get_key_attr key CKA_MODULUS of
             Inl rc \<Rightarrow> (-1, pkey)
           | Inr n \<Rightarrow> (0, Pk_Rsa (bin_value n) (bin_value e) key)))"

text \<open>What both ways to a token key end with: the result of loading the public part is ignored.\<close>

definition p11_private_key ::
  "('k, 'g, 'q, 'u, 'x) key_lib \<Rightarrow> p11_key_ctx \<Rightarrow> int \<times> ('k, 'g, 'q) evp_pkey option" where
  "p11_private_key lib key =
     (if key_type key = CKK_EC then (0, Some (snd (load_pkcs11_ec lib Pk_None key)))
      else if key_type key = CKK_RSA then (0, Some (snd (load_pkcs11_rsa Pk_None key)))
      else (-1, None))"

definition gen_pkcs11_key ::
  "('k, 'g, 'q, 'u, 'x) key_lib \<Rightarrow> p11_driver option \<Rightarrow> string option \<Rightarrow> string \<Rightarrow> byte list option \<Rightarrow>
     ub + int \<times> ('k, 'g, 'q) evp_pkey option" where
  "gen_pkcs11_key lib driver slot pin label =
     ub_bind (p11_init driver slot pin) (\<lambda>r.
       case r of
         Inl rc \<Rightarrow> Inr (int rc, None)
       | Inr p11 \<Rightarrow>
           ub_bind (p11_gen_key p11 label) (\<lambda>k.
             case k of None \<Rightarrow> Inr (-1, None) | Some key \<Rightarrow> Inr (p11_private_key lib key)))"

definition load_pkcs11_key ::
  "('k, 'g, 'q, 'u, 'x) key_lib \<Rightarrow> (nat \<Rightarrow> byte) \<Rightarrow> p11_driver option \<Rightarrow> string option \<Rightarrow> string \<Rightarrow> string \<Rightarrow> byte list \<Rightarrow>
     ub + int \<times> ('k, 'g, 'q) evp_pkey option" where
  "load_pkcs11_key lib junk driver slot pin idstr label =
     ub_bind (p11_init driver slot pin) (\<lambda>r.
       case r of
         Inl rc \<Rightarrow> Inr (int rc, None)
       | Inr p11 \<Rightarrow>
           ub_bind (p11_load_key junk p11 idstr label) (\<lambda>k.
             case k of Inl rc \<Rightarrow> Inr (-1, None) | Inr key \<Rightarrow> Inr (p11_private_key lib key)))"

section \<open>Signing\<close>

text \<open>\<open>siglen\<close> is the room for the signature; a key that was never set up cannot sign.\<close>

definition privkey_sign ::
  "('k, 'g, 'q, 'u, 'x) key_lib \<Rightarrow> byte list \<Rightarrow> nat \<Rightarrow> ('k, 'g, 'q) evp_pkey \<Rightarrow> hash_algo \<Rightarrow> byte list \<Rightarrow> nat \<Rightarrow>
     int \<times> byte list option" where
  "privkey_sign lib junk junk_mech pkey md data siglen =
     (let sig = (case pkey of
                   Pk_None \<Rightarrow> None
                 | Pk_Soft k \<Rightarrow> soft_sign lib k md data
                 | Pk_Ec g q key \<Rightarrow> ec_sign lib (privkey_p11_sign_sig junk key) md data
                 | Pk_Rsa n e key \<Rightarrow> rsa_sign lib (privkey_p11_rsa_enc junk junk_mech key (rsa_size lib n)) md data)
      in case sig of
           None \<Rightarrow> (-1, None)
         | Some s \<Rightarrow> if length s > siglen then (-1, None) else (0, Some s))"

section \<open>Keys read and written\<close>

text \<open>The public key of a private one, by way of its PEM text.\<close>

definition privkey_pubkey :: "('k, 'g, 'q, 'u, 'x) key_lib \<Rightarrow> ('k, 'g, 'q) evp_pkey \<Rightarrow> 'u option" where
  "privkey_pubkey lib pkey = read_pub lib (case pub_pem lib pkey of None \<Rightarrow> [] | Some pem \<Rightarrow> pem)"

definition pubkey_verify ::
  "('k, 'g, 'q, 'u, 'x) key_lib \<Rightarrow> 'u option \<Rightarrow> hash_algo \<Rightarrow> byte list \<Rightarrow> byte list \<Rightarrow> ub + int" where
  "pubkey_verify lib pub md data sig =
     (case pub of None \<Rightarrow> Inl Null_Deref | Some pk \<Rightarrow> Inr (verify_signature lib pk md data sig))"

definition privkey_to_pem :: "('k, 'g, 'q, 'u, 'x) key_lib \<Rightarrow> ('k, 'g, 'q) evp_pkey \<Rightarrow> int \<times> string option \<times> nat" where
  "privkey_to_pem lib pkey =
     (case priv_pem lib pkey of None \<Rightarrow> (-1, None, 0) | Some pem \<Rightarrow> (0, Some pem, length pem))"

definition pubkey_to_pem :: "('k, 'g, 'q, 'u, 'x) key_lib \<Rightarrow> 'u \<Rightarrow> int \<times> string option \<times> nat" where
  "pubkey_to_pem lib pub =
     (case write_pub lib pub of None \<Rightarrow> (-1, None, 0) | Some pem \<Rightarrow> (0, Some pem, length pem))"

text \<open>A text that names a file that can be opened stands for the content of that file.\<close>

definition load_key ::
  "('k, 'g, 'q, 'u, 'x) key_lib \<Rightarrow> (string \<Rightarrow> string option) \<Rightarrow> string \<Rightarrow> nat \<Rightarrow> int \<times> ('k, 'g, 'q) evp_pkey option" where
  "load_key lib fs keydata len =
     (case read_priv lib (case fs keydata of Some content \<Rightarrow> content | None \<Rightarrow> take len keydata) of
        None \<Rightarrow> (-1, None)
      | Some k \<Rightarrow> (0, Some (Pk_Soft k)))"

definition gen_key :: "('k, 'g, 'q, 'u, 'x) key_lib \<Rightarrow> int \<times> ('k, 'g, 'q) evp_pkey option" where
  "gen_key lib = (case keygen lib of None \<Rightarrow> (-1, None) | Some k \<Rightarrow> (0, Some (Pk_Soft k)))"

section \<open>Certificates of token keys\<close>

definition p11_key_of :: "('k, 'g, 'q) evp_pkey \<Rightarrow> p11_key_ctx option" where
  "p11_key_of pkey = (case pkey of Pk_Ec g q key \<Rightarrow> Some key | Pk_Rsa n e key \<Rightarrow> Some key | _ \<Rightarrow> None)"

text \<open>A store is the list of its certificates; bytes that are no certificate give an empty one.\<close>

definition privkey_get_cert :: "('k, 'g, 'q, 'u, 'x) key_lib \<Rightarrow> ('k, 'g, 'q) evp_pkey \<Rightarrow> int \<times> 'x list option" where
  "privkey_get_cert lib pkey =
     (case p11_key_of pkey of
        None \<Rightarrow> (-1, None)
      | Some key \<Rightarrow>
          (case p11_get_key_cert key of
             Inl rc \<Rightarrow> (-1, None)
           | Inr der \<Rightarrow> (0, Some (case d2i_X509 lib der of None \<Rightarrow> [] | Some c \<Rightarrow> [c]))))"

definition privkey_store_cert :: "('k, 'g, 'q, 'u, 'x) key_lib \<Rightarrow> ('k, 'g, 'q) evp_pkey \<Rightarrow> 'x list \<Rightarrow> ub + int" where
  "privkey_store_cert lib pkey store =
     (case p11_key_of pkey of
        None \<Rightarrow> Inr (-1)
      | Some key \<Rightarrow>
          (case store of
             [] \<Rightarrow> Inl Null_Deref
           | c # _ \<Rightarrow> p11_store_key_cert key (Some (i2d_X509 lib c)) (Some (i2d_subject lib c))))"

section \<open>Lemmas\<close>

text \<open>
  What the library promises: a key with a method of its own signs by it and encodes the pair of numbers it gets,
  decoding inverts encoding, and verifying with an elliptic curve key decodes the signature.
\<close>

definition key_laws :: "('k, 'g, 'q, 'u, 'x) key_lib \<Rightarrow> bool" where
  "key_laws lib \<longleftrightarrow>
     (\<forall>f md data. ec_sign lib f md data = Some (i2d_sig lib (f (digest_of lib md data)))) \<and>
     (\<forall>rs. d2i_sig lib (i2d_sig lib rs) = Some rs) \<and>
     (\<forall>u md data sig. pub_is_ec lib u \<longrightarrow>
        digest_verify lib u md data sig = (\<exists>rs. d2i_sig lib sig = Some rs \<and> ec_verify lib u (digest_of lib md data) rs))"

lemma verify_by_numbers:
  assumes "key_laws lib" and "pub_is_ec lib u"
  shows "verify_signature lib u md data sig =
    (if ec_verify lib u (digest_of lib md data) (case d2i_sig lib sig of Some rs \<Rightarrow> rs | None \<Rightarrow> split_sig sig) then 0 else -1)"
  using assms by (auto simp: verify_signature_def verify_ecdsa_sig_def key_laws_def split: option.splits)

lemma load_pkcs11_ec_result:
  assumes "p11_get_key_attr key CKA_EC_PARAMS = Inr a" and "d2i_ECParameters lib a = Some g"
    and "p11_get_key_attr key CKA_EC_POINT = Inr b"
    and "o2i_ECPublicKey lib g (case d2i_octets lib b of Some os \<Rightarrow> os | None \<Rightarrow> b) = Some q"
  shows "load_pkcs11_ec lib pkey key = (0, Pk_Ec g q key)"
  using assms by (simp add: load_pkcs11_ec_def)

text \<open>
  A token whose object \<open>h\<close> is what a template says: searches for a part of the template find it, and its attributes are
  those of the template.
\<close>

definition token_holds :: "p11_driver \<Rightarrow> nat \<Rightarrow> template \<Rightarrow> bool" where
  "token_holds d h t \<longleftrightarrow>
     (\<forall>q. set q \<subseteq> set t \<longrightarrow> find_objects d q = (CKR_OK, (CKR_OK, Some h), CKR_OK)) \<and>
     (\<forall>a v. map_of t a = Some (Ck_Bytes v) \<longrightarrow> C_GetAttributeValue d h a = (CKR_OK, v))"

text \<open>A certificate that is stored with a key is found with it: \<open>d'\<close> is the token after the object was made.\<close>

lemma stored_cert_found:
  assumes "p11_key_of pkey = Some key" and "p11_key_of pkey' = Some key'" and "d = p11_driver_of (key_ctx key)" and "d' = p11_driver_of (key_ctx key')"
    and "C_GetAttributeValue d (priv_handle key) CKA_ID = (CKR_OK, ident)" and "C_GetAttributeValue d' (priv_handle key') CKA_ID = (CKR_OK, ident)"
    and "t = cert_template (Some ident) (attr_or_null (p11_get_obj_attr (key_ctx key) (priv_handle key) CKA_LABEL)) (Some (i2d_subject lib c)) (Some (i2d_X509 lib c))"
    and "C_CreateObject d t = CKR_OK" and "token_holds d' h t" and "d2i_X509 lib (i2d_X509 lib c) = Some c"
  shows "privkey_store_cert lib pkey (c # cs) = Inr 0" and "privkey_get_cert lib pkey' = (0, Some [c])"
proof -
  have a: "p11_get_obj_attr (key_ctx key) (priv_handle key) CKA_ID = Inr ident"
    "p11_get_obj_attr (key_ctx key') (priv_handle key') CKA_ID = Inr ident"
    using assms(3-6) by (simp_all add: p11_get_obj_attr_def)
  have "length t \<le> 8" unfolding assms(7) by (rule template_lengths(3))
  then show "privkey_store_cert lib pkey (c # cs) = Inr 0"
    using assms(1,3,7,8) a(1) by (simp add: privkey_store_cert_def p11_store_key_cert_def attr_or_null_def Let_def)
  let ?q = "[(CKA_CLASS, Ck_Ulong CKO_CERTIFICATE), (CKA_ID, Ck_Bytes ident)]"
  have "set ?q \<subseteq> set t" "map_of t CKA_VALUE = Some (Ck_Bytes (i2d_X509 lib c))"
    unfolding assms(7) by (auto simp: cert_template_def opt_attr_def split: option.splits)
  then have "find_objects d' ?q = (CKR_OK, (CKR_OK, Some h), CKR_OK)" "C_GetAttributeValue d' h CKA_VALUE = (CKR_OK, i2d_X509 lib c)"
    using assms(9) unfolding token_holds_def by blast+
  then have "p11_get_key_cert key' = Inr (i2d_X509 lib c)"
    using a(2) assms(4) by (simp add: p11_get_key_cert_def p11_search_def p11_get_obj_attr_def)
  with assms(2,10) show "privkey_get_cert lib pkey' = (0, Some [c])" by (simp add: privkey_get_cert_def)
qed

section \<open>A library\<close>

text \<open>
  In this library the digest is the data, a signature is right when its numbers are those of the digest, and its
  standard form writes the numbers with ones.
\<close>

definition toy_i2d :: "nat \<times> nat \<Rightarrow> byte list" where
  "toy_i2d rs = 0x30 # replicate (fst rs) 1 @ 0 # replicate (snd rs) 1"

definition toy_d2i :: "byte list \<Rightarrow> (nat \<times> nat) option" where
  "toy_d2i bs =
     (case bs of
        [] \<Rightarrow> None
      | b # t \<Rightarrow>
          (let r = length (takeWhile (\<lambda>x. x = 1) t); s = length (drop (r + 1) t)
           in if b = 0x30 \<and> t = replicate r 1 @ 0 # replicate s 1 then Some (r, s) else None))"

definition toy_keys :: "(nat, byte list, byte list, unit, byte list) key_lib" where
  "toy_keys =
     \<lparr>d2i_ECParameters = Some, d2i_octets = (\<lambda>v. None), o2i_ECPublicKey = (\<lambda>g v. Some v), pub_pem = (\<lambda>k. Some ''pub''),
      read_pub = (\<lambda>t. if t = ''pub'' then Some () else None), write_pub = (\<lambda>u. Some ''pub''), priv_pem = (\<lambda>k. None), read_priv = (\<lambda>t. None),
      keygen = None, pub_is_ec = (\<lambda>u. True), ec_verify = (\<lambda>u d rs. rs = split_sig d),
      digest_verify = (\<lambda>u md data sig. toy_d2i sig = Some (split_sig data)), digest_of = (\<lambda>md data. data), d2i_sig = toy_d2i, i2d_sig = toy_i2d,
      soft_sign = (\<lambda>k md data. None), ec_sign = (\<lambda>f md data. Some (toy_i2d (f data))), rsa_sign = (\<lambda>f md data. Some (f data RSA_PKCS1_PADDING)),
      rsa_size = (\<lambda>n. 256), d2i_X509 = Some, i2d_X509 = (\<lambda>c. c), i2d_subject = (\<lambda>c. take 1 c), x509_pubkey = (\<lambda>c. Some ())\<rparr>"

lemma toy_d2i_i2d: "toy_d2i (toy_i2d rs) = Some rs"
proof -
  have "takeWhile (\<lambda>x. x = 1) (replicate n (1 :: byte) @ 0 # xs) = replicate n 1" for n xs
    by (induction n) simp_all
  then show ?thesis by (simp add: toy_d2i_def toy_i2d_def)
qed

lemma toy_keys_laws: "key_laws toy_keys"
  unfolding key_laws_def by (intro conjI allI impI; simp add: toy_keys_def toy_d2i_i2d del: split_paired_Ex)

section \<open>Defects\<close>

text \<open>When the token fails to sign, what was on the stack is returned as a signature, with success.\<close>

lemma failed_token_signature_is_junk:
  assumes "key_laws lib" and "p11_key_sign key (digest_of lib md data) 512 0 = Inl rc"
    and "sig = i2d_sig lib (split_sig (take 512 junk))" and "length sig \<le> siglen"
  shows "privkey_sign lib junk junk_mech (Pk_Ec g q key) md data siglen = (0, Some sig)"
  using assms by (simp add: privkey_sign_def privkey_p11_sign_sig_def key_laws_def)

text \<open>A token key whose public part cannot be read is loaded with success, and cannot be used.\<close>

lemma unreadable_public_key_accepted:
  assumes "p11_get_key_attr key CKA_EC_PARAMS = Inl rc" and "key_type key = CKK_EC"
  shows "p11_private_key lib key = (0, Some Pk_None)"
  using assms by (simp add: p11_private_key_def load_pkcs11_ec_def)

text \<open>Storing an empty store is undefined, and bytes that are no certificate are returned as an empty store.\<close>

lemma empty_store_undefined: "p11_key_of pkey = Some key \<Longrightarrow> privkey_store_cert lib pkey [] = Inl Null_Deref"
  by (simp add: privkey_store_cert_def)

lemma bad_cert_accepted:
  "p11_key_of pkey = Some key \<Longrightarrow> p11_get_key_cert key = Inr der \<Longrightarrow> d2i_X509 lib der = None \<Longrightarrow> privkey_get_cert lib pkey = (0, Some [])"
  by (simp add: privkey_get_cert_def)

section \<open>Property\<close>



end
