(* ===== verification/Queue.thy ===== *)
theory Queue
  imports Prelude
begin

text \<open>
  The list and queue macros of \<open>include/tlsuv/queue.h\<close> that the library uses: \<open>LIST\<close>, the doubly linked lists of headers, and
  \<open>STAILQ\<close>, the singly linked queues of requests and messages. The other theories have lists in their place;
  here the macros work on a memory of pointers and are shown to implement lists.
\<close>

section \<open>Memory\<close>

text \<open>
  A list is intrusive: its head and its elements hold the pointers. The macros also keep the address of a pointer, which is
  the first pointer of a head or the next pointer of an element. \<open>e_next\<close> is \<open>None\<close> where there is no element.
\<close>

datatype slot = Head_Slot nat | Next_Slot nat

record qmem =
  q_first :: "nat \<Rightarrow> nat option"
  q_last :: "nat \<Rightarrow> slot"
  e_next :: "nat \<rightharpoonup> nat option"
  e_prev :: "nat \<Rightarrow> slot"

definition next_of :: "qmem \<Rightarrow> nat option \<Rightarrow> ub + nat option" where
  "next_of m p =
     (case p of
        None \<Rightarrow> Inl Null_Deref
      | Some e \<Rightarrow> (case e_next m e of None \<Rightarrow> Inl Bad_Pointer | Some n \<Rightarrow> Inr n))"

definition set_next :: "qmem \<Rightarrow> nat \<Rightarrow> nat option \<Rightarrow> ub + qmem" where
  "set_next m e v =
     (case e_next m e of None \<Rightarrow> Inl Bad_Pointer | Some n \<Rightarrow> Inr (m\<lparr>e_next := (e_next m)(e \<mapsto> v)\<rparr>))"

definition set_prev :: "qmem \<Rightarrow> nat \<Rightarrow> slot \<Rightarrow> ub + qmem" where
  "set_prev m e s =
     (case e_next m e of None \<Rightarrow> Inl Bad_Pointer | Some n \<Rightarrow> Inr (m\<lparr>e_prev := (e_prev m)(e := s)\<rparr>))"

definition set_slot :: "qmem \<Rightarrow> slot \<Rightarrow> nat option \<Rightarrow> ub + qmem" where
  "set_slot m s v =
     (case s of
        Head_Slot q \<Rightarrow> Inr (m\<lparr>q_first := (q_first m)(q := v)\<rparr>)
      | Next_Slot e \<Rightarrow> set_next m e v)"

text \<open>The memory of an element is released.\<close>

definition q_free :: "qmem \<Rightarrow> nat \<Rightarrow> qmem" where
  "q_free m e = m\<lparr>e_next := (e_next m)(e := None)\<rparr>"

section \<open>Singly linked tail queues\<close>

definition STAILQ_INIT :: "qmem \<Rightarrow> nat \<Rightarrow> qmem" where
  "STAILQ_INIT m q = m\<lparr>q_first := (q_first m)(q := None), q_last := (q_last m)(q := Head_Slot q)\<rparr>"

definition STAILQ_EMPTY :: "qmem \<Rightarrow> nat \<Rightarrow> bool" where
  "STAILQ_EMPTY m q \<longleftrightarrow> q_first m q = None"

definition STAILQ_FIRST :: "qmem \<Rightarrow> nat \<Rightarrow> nat option" where
  "STAILQ_FIRST m q = q_first m q"

definition STAILQ_INSERT_HEAD :: "qmem \<Rightarrow> nat \<Rightarrow> nat \<Rightarrow> ub + qmem" where
  "STAILQ_INSERT_HEAD m q e =
     ub_bind (set_next m e (q_first m q)) (\<lambda>m1.
       (let m2 = (if q_first m q = None then m1\<lparr>q_last := (q_last m1)(q := Next_Slot e)\<rparr> else m1)
        in Inr (m2\<lparr>q_first := (q_first m2)(q := Some e)\<rparr>)))"

definition STAILQ_INSERT_TAIL :: "qmem \<Rightarrow> nat \<Rightarrow> nat \<Rightarrow> ub + qmem" where
  "STAILQ_INSERT_TAIL m q e =
     ub_bind (set_next m e None) (\<lambda>m1.
       ub_bind (set_slot m1 (q_last m1 q) (Some e)) (\<lambda>m2.
         Inr (m2\<lparr>q_last := (q_last m2)(q := Next_Slot e)\<rparr>)))"

definition STAILQ_INSERT_AFTER :: "qmem \<Rightarrow> nat \<Rightarrow> nat \<Rightarrow> nat \<Rightarrow> ub + qmem" where
  "STAILQ_INSERT_AFTER m q listelm e =
     ub_bind (next_of m (Some listelm)) (\<lambda>n.
       ub_bind (set_next m e n) (\<lambda>m1.
         (let m2 = (if n = None then m1\<lparr>q_last := (q_last m1)(q := Next_Slot e)\<rparr> else m1)
          in set_next m2 listelm (Some e))))"

definition STAILQ_REMOVE_HEAD :: "qmem \<Rightarrow> nat \<Rightarrow> ub + qmem" where
  "STAILQ_REMOVE_HEAD m q =
     ub_bind (next_of m (q_first m q)) (\<lambda>n.
       (let m1 = m\<lparr>q_first := (q_first m)(q := n)\<rparr>
        in Inr (if n = None then m1\<lparr>q_last := (q_last m1)(q := Head_Slot q)\<rparr> else m1)))"

text \<open>The loop of \<open>STAILQ_REMOVE\<close>: the element whose next pointer is \<open>e\<close>, from \<open>p\<close> on.\<close>

partial_function (option) find_before :: "qmem \<Rightarrow> nat option \<Rightarrow> nat \<Rightarrow> (ub + nat) option" where
  "find_before m p e =
     (case p of
        None \<Rightarrow> Some (Inl Null_Deref)
      | Some curelm \<Rightarrow>
          (case next_of m p of
             Inl u \<Rightarrow> Some (Inl u)
           | Inr n \<Rightarrow> if n = Some e then Some (Inr curelm) else find_before m n e))"

declare find_before.simps [code]

definition STAILQ_REMOVE :: "qmem \<Rightarrow> nat \<Rightarrow> nat \<Rightarrow> ub + qmem" where
  "STAILQ_REMOVE m q e =
     (if q_first m q = Some e then STAILQ_REMOVE_HEAD m q
      else
        (case find_before m (q_first m q) e of
           None \<Rightarrow> Inl Endless_Loop
         | Some r \<Rightarrow>
             ub_bind r (\<lambda>curelm.
               ub_bind (next_of m (Some curelm)) (\<lambda>n.
                 ub_bind (next_of m n) (\<lambda>n2.
                   ub_bind (set_next m curelm n2) (\<lambda>m1.
                     Inr (if n2 = None then m1\<lparr>q_last := (q_last m1)(q := Next_Slot curelm)\<rparr> else m1)))))))"

definition STAILQ_CONCAT :: "qmem \<Rightarrow> nat \<Rightarrow> nat \<Rightarrow> ub + qmem" where
  "STAILQ_CONCAT m q1 q2 =
     (if STAILQ_EMPTY m q2 then Inr m
      else ub_bind (set_slot m (q_last m q1) (q_first m q2)) (\<lambda>m1.
        Inr (STAILQ_INIT (m1\<lparr>q_last := (q_last m1)(q1 := q_last m1 q2)\<rparr>) q2)))"

text \<open>The elements that \<open>STAILQ_FOREACH\<close> and \<open>LIST_FOREACH\<close> visit, from \<open>p\<close> on.\<close>

partial_function (option) foreach_from :: "qmem \<Rightarrow> nat option \<Rightarrow> nat list \<Rightarrow> (ub + nat list) option" where
  "foreach_from m p seen =
     (case p of
        None \<Rightarrow> Some (Inr seen)
      | Some e \<Rightarrow> (case next_of m p of Inl u \<Rightarrow> Some (Inl u) | Inr n \<Rightarrow> foreach_from m n (seen @ [e])))"

declare foreach_from.simps [code]

definition STAILQ_FOREACH :: "qmem \<Rightarrow> nat \<Rightarrow> ub + nat list" where
  "STAILQ_FOREACH m q = (case foreach_from m (q_first m q) [] of None \<Rightarrow> Inl Endless_Loop | Some r \<Rightarrow> r)"

section \<open>Doubly linked lists\<close>

definition LIST_INIT :: "qmem \<Rightarrow> nat \<Rightarrow> qmem" where
  "LIST_INIT m q = m\<lparr>q_first := (q_first m)(q := None)\<rparr>"

definition LIST_EMPTY :: "qmem \<Rightarrow> nat \<Rightarrow> bool" where
  "LIST_EMPTY m q \<longleftrightarrow> q_first m q = None"

definition LIST_FIRST :: "qmem \<Rightarrow> nat \<Rightarrow> nat option" where
  "LIST_FIRST m q = q_first m q"

text \<open>The previous pointer of the element behind a next pointer, if there is one.\<close>

definition set_prev_opt :: "qmem \<Rightarrow> nat option \<Rightarrow> slot \<Rightarrow> ub + qmem" where
  "set_prev_opt m p s = (case p of None \<Rightarrow> Inr m | Some e \<Rightarrow> set_prev m e s)"

definition LIST_INSERT_AFTER :: "qmem \<Rightarrow> nat \<Rightarrow> nat \<Rightarrow> ub + qmem" where
  "LIST_INSERT_AFTER m listelm e =
     ub_bind (next_of m (Some listelm)) (\<lambda>n.
       ub_bind (set_next m e n) (\<lambda>m1.
         ub_bind (set_prev_opt m1 n (Next_Slot e)) (\<lambda>m2.
           ub_bind (set_next m2 listelm (Some e)) (\<lambda>m3. set_prev m3 e (Next_Slot listelm)))))"

definition LIST_INSERT_BEFORE :: "qmem \<Rightarrow> nat \<Rightarrow> nat \<Rightarrow> ub + qmem" where
  "LIST_INSERT_BEFORE m listelm e =
     (case e_next m listelm of
        None \<Rightarrow> Inl Bad_Pointer
      | Some n \<Rightarrow>
          ub_bind (set_prev m e (e_prev m listelm)) (\<lambda>m1.
            ub_bind (set_next m1 e (Some listelm)) (\<lambda>m2.
              ub_bind (set_slot m2 (e_prev m2 listelm) (Some e)) (\<lambda>m3. set_prev m3 listelm (Next_Slot e)))))"

definition LIST_INSERT_HEAD :: "qmem \<Rightarrow> nat \<Rightarrow> nat \<Rightarrow> ub + qmem" where
  "LIST_INSERT_HEAD m q e =
     ub_bind (set_next m e (q_first m q)) (\<lambda>m1.
       ub_bind (set_prev_opt m1 (q_first m q) (Next_Slot e)) (\<lambda>m2.
         set_prev (m2\<lparr>q_first := (q_first m2)(q := Some e)\<rparr>) e (Head_Slot q)))"

definition LIST_REMOVE :: "qmem \<Rightarrow> nat \<Rightarrow> ub + qmem" where
  "LIST_REMOVE m e =
     ub_bind (next_of m (Some e)) (\<lambda>n.
       ub_bind (set_prev_opt m n (e_prev m e)) (\<lambda>m1. set_slot m1 (e_prev m1 e) n))"

definition LIST_FOREACH :: "qmem \<Rightarrow> nat \<Rightarrow> ub + nat list" where
  "LIST_FOREACH m q = (case foreach_from m (q_first m q) [] of None \<Rightarrow> Inl Endless_Loop | Some r \<Rightarrow> r)"

section \<open>Emptying a list\<close>

text \<open>
  The loop with which the library frees a list: as long as there is a first element, remove it and release it.
\<close>

partial_function (option) drain ::
  "('m \<Rightarrow> nat \<Rightarrow> nat option) \<Rightarrow> ('m \<Rightarrow> nat \<Rightarrow> nat \<Rightarrow> ub + 'm) \<Rightarrow> ('m \<Rightarrow> nat \<Rightarrow> 'm) \<Rightarrow> 'm \<Rightarrow> nat \<Rightarrow> nat list \<Rightarrow>
     (ub + 'm \<times> nat list) option" where
  "drain first pop release m q gone =
     (case first m q of
        None \<Rightarrow> Some (Inr (m, gone))
      | Some e \<Rightarrow>
          (case pop m q e of
             Inl u \<Rightarrow> Some (Inl u)
           | Inr m1 \<Rightarrow> drain first pop release (release m1 e) q (gone @ [e])))"

declare drain.simps [code]

text \<open>What the loop needs: \<open>repr m q xs\<close> says that the list \<open>q\<close> of the memory \<open>m\<close> is \<open>xs\<close>.\<close>

locale drainable =
  fixes repr :: "'m \<Rightarrow> nat \<Rightarrow> nat list \<Rightarrow> bool"
    and first :: "'m \<Rightarrow> nat \<Rightarrow> nat option"
    and pop :: "'m \<Rightarrow> nat \<Rightarrow> nat \<Rightarrow> ub + 'm"
    and release :: "'m \<Rightarrow> nat \<Rightarrow> 'm"
  assumes first_empty: "repr m q [] \<Longrightarrow> first m q = None"
    and first_elem: "repr m q (x # xs) \<Longrightarrow> first m q = Some x"
    and pop_first: "repr m q (x # xs) \<Longrightarrow> \<exists>m'. pop m q x = Inr m' \<and> repr m' q xs"
    and release_other: "repr m q xs \<Longrightarrow> x \<notin> set xs \<Longrightarrow> repr (release m x) q xs"
    and elems_distinct: "repr m q xs \<Longrightarrow> distinct xs"
begin

lemma drain_all:
  "repr m q xs \<Longrightarrow> \<exists>m'. drain first pop release m q gone = Some (Inr (m', gone @ xs)) \<and> repr m' q []"
proof (induction xs arbitrary: m gone)
  case Nil
  with first_empty show ?case by (simp add: drain.simps [of first pop release m])
next
  case (Cons x xs)
  obtain m1 where m1: "pop m q x = Inr m1" "repr m1 q xs" using pop_first [OF Cons.prems] by blast
  have "x \<notin> set xs" using elems_distinct [OF Cons.prems] by simp
  from Cons.IH [OF release_other [OF m1(2) this], of "gone @ [x]"] first_elem [OF Cons.prems] m1(1)
  show ?case by (simp add: drain.simps [of first pop release m])
qed

end

section \<open>Paths\<close>

primrec path :: "(nat \<rightharpoonup> nat option) \<Rightarrow> nat option \<Rightarrow> nat list \<Rightarrow> nat option \<Rightarrow> bool" where
  "path nx p [] z \<longleftrightarrow> p = z"
| "path nx p (x # xs) z \<longleftrightarrow> p = Some x \<and> (\<exists>n. nx x = Some n \<and> path nx n xs z)"

lemma path_append: "path nx p (xs @ ys) z \<longleftrightarrow> (\<exists>w. path nx p xs w \<and> path nx w ys z)"
  by (induction xs arbitrary: p) auto

lemma path_upd [simp]: "e \<notin> set xs \<Longrightarrow> path (nx(e := v)) p xs z = path nx p xs z"
  by (induction xs arbitrary: p) auto

lemma path_snoc: "path nx p (xs @ [x]) z \<longleftrightarrow> path nx p xs (Some x) \<and> nx x = Some z"
  by (auto simp: path_append)

lemma path_alloc: "path nx p xs z \<Longrightarrow> x \<in> set xs \<Longrightarrow> \<exists>n. nx x = Some n"
  by (induction xs arbitrary: p) auto

lemma foreach_path: "path (e_next m) p xs None \<Longrightarrow> foreach_from m p seen = Some (Inr (seen @ xs))"
proof (induction xs arbitrary: p seen)
  case Nil
  then show ?case by (simp add: foreach_from.simps)
next
  case (Cons x xs)
  then obtain n where n: "p = Some x" "e_next m x = Some n" "path (e_next m) n xs None" by auto
  with Cons.IH [of n "seen @ [x]"] show ?case by (subst foreach_from.simps) (simp add: next_of_def)
qed

lemma find_before_path:
  "path (e_next m) p (xs @ [c]) (Some e) \<Longrightarrow> e \<notin> set xs \<Longrightarrow> e \<noteq> c \<Longrightarrow> find_before m p e = Some (Inr c)"
proof (induction xs arbitrary: p)
  case Nil
  then show ?case by (subst find_before.simps) (auto simp: next_of_def)
next
  case (Cons x xs)
  then obtain n where n: "p = Some x" "e_next m x = Some n" "path (e_next m) n (xs @ [c]) (Some e)" by auto
  then have "n \<noteq> Some e" using Cons.prems(2,3) by (cases xs) auto
  with n Cons show ?case by (subst find_before.simps) (simp add: next_of_def)
qed

section \<open>Lists in memory\<close>

text \<open>
  What an operation on some lists leaves alone: the heads outside \<open>qs\<close>, the elements outside \<open>es\<close>, and which elements
  there are.
\<close>

definition same_outside :: "qmem \<Rightarrow> qmem \<Rightarrow> nat set \<Rightarrow> nat set \<Rightarrow> bool" where
  "same_outside m m' qs es \<longleftrightarrow>
     (\<forall>q. q \<notin> qs \<longrightarrow> q_first m' q = q_first m q \<and> q_last m' q = q_last m q) \<and>
     (\<forall>e. e \<notin> es \<longrightarrow> e_next m' e = e_next m e \<and> e_prev m' e = e_prev m e) \<and>
     dom (e_next m') = dom (e_next m)"

definition repr_stailq :: "qmem \<Rightarrow> nat \<Rightarrow> nat list \<Rightarrow> bool" where
  "repr_stailq m q xs \<longleftrightarrow>
     distinct xs \<and> path (e_next m) (q_first m q) xs None \<and>
     q_last m q = (if xs = [] then Head_Slot q else Next_Slot (last xs))"

text \<open>A doubly linked segment: \<open>s\<close> is the slot that points to its first element, \<open>t\<close> the slot behind its last one.\<close>

primrec dpath ::
  "(nat \<rightharpoonup> nat option) \<Rightarrow> (nat \<Rightarrow> slot) \<Rightarrow> slot \<Rightarrow> nat option \<Rightarrow> nat list \<Rightarrow> slot \<Rightarrow> nat option \<Rightarrow> bool" where
  "dpath nx pv s p [] t z \<longleftrightarrow> s = t \<and> p = z"
| "dpath nx pv s p (x # xs) t z \<longleftrightarrow>
     p = Some x \<and> pv x = s \<and> (\<exists>n. nx x = Some n \<and> dpath nx pv (Next_Slot x) n xs t z)"

definition repr_list :: "qmem \<Rightarrow> nat \<Rightarrow> nat list \<Rightarrow> bool" where
  "repr_list m q xs \<longleftrightarrow>
     distinct xs \<and> (\<exists>t. dpath (e_next m) (e_prev m) (Head_Slot q) (q_first m q) xs t None)"

lemma path_cong: "(\<And>x. x \<in> set xs \<Longrightarrow> nx x = nx' x) \<Longrightarrow> path nx p xs z = path nx' p xs z"
  by (induction xs arbitrary: p) auto

lemma dpath_cong:
  "(\<And>x. x \<in> set xs \<Longrightarrow> nx x = nx' x \<and> pv x = pv' x) \<Longrightarrow> dpath nx pv s p xs t z = dpath nx' pv' s p xs t z"
  by (induction xs arbitrary: s p) auto

lemma dpath_append:
  "dpath nx pv s p (xs @ ys) t z \<longleftrightarrow> (\<exists>u w. dpath nx pv s p xs u w \<and> dpath nx pv u w ys t z)"
  by (induction xs arbitrary: s p) auto

lemma dpath_upd [simp]:
  "e \<notin> set xs \<Longrightarrow> dpath (nx(e := v)) pv s p xs t z = dpath nx pv s p xs t z"
  "e \<notin> set xs \<Longrightarrow> dpath nx (pv(e := u)) s p xs t z = dpath nx pv s p xs t z"
  by (rule dpath_cong; auto)+

lemma dpath_path: "dpath nx pv s p xs t z \<Longrightarrow> path nx p xs z"
  by (induction xs arbitrary: s p) auto

lemma same_outside_refl [simp]: "same_outside m m qs es"
  by (simp add: same_outside_def)

lemma repr_stailq_frame:
  "repr_stailq m q xs \<Longrightarrow> same_outside m m' qs es \<Longrightarrow> q \<notin> qs \<Longrightarrow> set xs \<inter> es = {} \<Longrightarrow> repr_stailq m' q xs"
  using path_cong [of xs "e_next m'" "e_next m" "q_first m q" None]
  by (auto simp: repr_stailq_def same_outside_def)

lemma repr_list_frame:
  "repr_list m q xs \<Longrightarrow> same_outside m m' qs es \<Longrightarrow> q \<notin> qs \<Longrightarrow> set xs \<inter> es = {} \<Longrightarrow> repr_list m' q xs"
proof -
  assume r: "repr_list m q xs" and s: "same_outside m m' qs es" "q \<notin> qs" "set xs \<inter> es = {}"
  have "e_next m x = e_next m' x \<and> e_prev m x = e_prev m' x" if "x \<in> set xs" for x
    using s that by (auto simp: same_outside_def)
  from dpath_cong [OF this, of xs] r s show ?thesis by (simp add: repr_list_def same_outside_def)
qed

section \<open>The tail queue macros on lists\<close>

lemmas stailq_defs = repr_stailq_def same_outside_def next_of_def set_next_def set_slot_def

lemma stailq_init: "repr_stailq (STAILQ_INIT m q) q [] \<and> same_outside m (STAILQ_INIT m q) {q} {}"
  by (simp add: stailq_defs STAILQ_INIT_def)

lemma stailq_insert_head:
  assumes "repr_stailq m q xs" "e \<notin> set xs" "e \<in> dom (e_next m)"
  shows "\<exists>m'. STAILQ_INSERT_HEAD m q e = Inr m' \<and> repr_stailq m' q (e # xs) \<and> same_outside m m' {q} (insert e (set xs))"
  using assms by (cases xs) (auto simp: STAILQ_INSERT_HEAD_def stailq_defs Let_def)

lemma stailq_insert_tail:
  assumes "repr_stailq m q xs" "e \<notin> set xs" "e \<in> dom (e_next m)"
  shows "\<exists>m'. STAILQ_INSERT_TAIL m q e = Inr m' \<and> repr_stailq m' q (xs @ [e]) \<and> same_outside m m' {q} (insert e (set xs))"
  using assms by (cases xs rule: rev_cases) (auto simp: STAILQ_INSERT_TAIL_def stailq_defs path_append)

lemma stailq_insert_after:
  assumes "repr_stailq m q (ys @ l # zs)" "e \<notin> set (ys @ l # zs)" "e \<in> dom (e_next m)"
  shows "\<exists>m'. STAILQ_INSERT_AFTER m q l e = Inr m' \<and> repr_stailq m' q (ys @ l # e # zs) \<and>
    same_outside m m' {q} (insert e (set (ys @ l # zs)))"
  using assms
  by (cases zs) (auto simp: STAILQ_INSERT_AFTER_def stailq_defs path_append Let_def)

lemma stailq_remove_head:
  assumes "repr_stailq m q (x # xs)"
  shows "\<exists>m'. STAILQ_REMOVE_HEAD m q = Inr m' \<and> repr_stailq m' q xs \<and> same_outside m m' {q} {}"
  using assms by (cases xs) (auto simp: STAILQ_REMOVE_HEAD_def stailq_defs Let_def)

lemma stailq_remove_later:
  assumes r: "repr_stailq m q (ys @ c # e # zs)"
  shows "\<exists>m'. STAILQ_REMOVE m q e = Inr m' \<and> repr_stailq m' q (ys @ c # zs) \<and>
    same_outside m m' {q} (set (ys @ c # e # zs))"
proof -
  have "find_before m (q_first m q) e = Some (Inr c)"
    using r by (intro find_before_path) (auto simp: repr_stailq_def path_append)
  moreover have "q_first m q \<noteq> Some e" using r by (cases ys) (auto simp: repr_stailq_def)
  ultimately show ?thesis using r by (cases zs) (auto simp: STAILQ_REMOVE_def stailq_defs path_append)
qed

lemma stailq_remove:
  assumes "repr_stailq m q (ys @ e # zs)"
  shows "\<exists>m'. STAILQ_REMOVE m q e = Inr m' \<and> repr_stailq m' q (ys @ zs) \<and> same_outside m m' {q} (set (ys @ e # zs))"
proof (cases ys rule: rev_cases)
  case Nil
  with assms stailq_remove_head [of m q e zs] show ?thesis
    by (auto simp: STAILQ_REMOVE_def repr_stailq_def same_outside_def)
next
  case (snoc us c)
  with assms stailq_remove_later [of m q us c e zs] show ?thesis by auto
qed

lemma stailq_concat:
  assumes "repr_stailq m q1 xs" "repr_stailq m q2 ys" "q1 \<noteq> q2" "set xs \<inter> set ys = {}"
  shows "\<exists>m'. STAILQ_CONCAT m q1 q2 = Inr m' \<and> repr_stailq m' q1 (xs @ ys) \<and> repr_stailq m' q2 [] \<and>
    same_outside m m' {q1, q2} (set xs)"
  using assms
  by (cases xs rule: rev_cases; cases ys)
    (auto simp: STAILQ_CONCAT_def STAILQ_EMPTY_def STAILQ_INIT_def stailq_defs path_append)

lemma stailq_foreach: "repr_stailq m q xs \<Longrightarrow> STAILQ_FOREACH m q = Inr xs"
  using foreach_path [of m "q_first m q" xs "[]"] by (simp add: repr_stailq_def STAILQ_FOREACH_def)

section \<open>The list macros on lists\<close>

lemmas list_defs = repr_list_def same_outside_def next_of_def set_next_def set_prev_def set_prev_opt_def set_slot_def

lemma list_init: "repr_list (LIST_INIT m q) q [] \<and> same_outside m (LIST_INIT m q) {q} {}"
  by (simp add: list_defs LIST_INIT_def)

lemma list_insert_head:
  assumes "repr_list m q xs" "e \<notin> set xs" "e \<in> dom (e_next m)"
  shows "\<exists>m'. LIST_INSERT_HEAD m q e = Inr m' \<and> repr_list m' q (e # xs) \<and> same_outside m m' {q} (insert e (set xs))"
  using assms by (cases xs) (auto simp: LIST_INSERT_HEAD_def list_defs)

lemma list_insert_after:
  assumes "repr_list m q (ys @ l # zs)" "e \<notin> set (ys @ l # zs)" "e \<in> dom (e_next m)"
  shows "\<exists>m'. LIST_INSERT_AFTER m l e = Inr m' \<and> repr_list m' q (ys @ l # e # zs) \<and>
    same_outside m m' {q} (insert e (set (ys @ l # zs)))"
  using assms by (cases zs) (auto simp: LIST_INSERT_AFTER_def list_defs dpath_append)

lemma list_insert_before:
  assumes "repr_list m q (ys @ l # zs)" "e \<notin> set (ys @ l # zs)" "e \<in> dom (e_next m)"
  shows "\<exists>m'. LIST_INSERT_BEFORE m l e = Inr m' \<and> repr_list m' q (ys @ e # l # zs) \<and>
    same_outside m m' {q} (insert e (set (ys @ l # zs)))"
  using assms by (cases ys rule: rev_cases) (auto simp: LIST_INSERT_BEFORE_def list_defs dpath_append)

lemma list_remove:
  assumes "repr_list m q (ys @ e # zs)"
  shows "\<exists>m'. LIST_REMOVE m e = Inr m' \<and> repr_list m' q (ys @ zs) \<and> same_outside m m' {q} (set (ys @ zs))"
  using assms by (cases ys rule: rev_cases; cases zs) (auto simp: LIST_REMOVE_def list_defs dpath_append)

lemma list_foreach: "repr_list m q xs \<Longrightarrow> LIST_FOREACH m q = Inr xs"
  using foreach_path [of m "q_first m q" xs "[]"] by (auto simp: repr_list_def LIST_FOREACH_def dest: dpath_path)

lemma stailq_free: "repr_stailq m q xs \<Longrightarrow> x \<notin> set xs \<Longrightarrow> repr_stailq (q_free m x) q xs"
  by (simp add: repr_stailq_def q_free_def)

lemma list_free: "repr_list m q xs \<Longrightarrow> x \<notin> set xs \<Longrightarrow> repr_list (q_free m x) q xs"
  by (simp add: repr_list_def q_free_def)

interpretation stq: drainable repr_stailq STAILQ_FIRST "\<lambda>m q e. STAILQ_REMOVE_HEAD m q" q_free
proof unfold_locales
  fix m q x xs
  show "repr_stailq m q (x # xs) \<Longrightarrow> \<exists>m'. STAILQ_REMOVE_HEAD m q = Inr m' \<and> repr_stailq m' q xs"
    using stailq_remove_head by blast
qed (simp_all add: stailq_free, simp_all add: repr_stailq_def STAILQ_FIRST_def)

interpretation lst: drainable repr_list LIST_FIRST "\<lambda>m q e. LIST_REMOVE m e" q_free
proof unfold_locales
  fix m q x xs
  show "repr_list m q (x # xs) \<Longrightarrow> \<exists>m'. LIST_REMOVE m x = Inr m' \<and> repr_list m' q xs"
    using list_remove [of m q "[]" x xs] by auto
qed (simp_all add: list_free, auto simp: repr_list_def LIST_FIRST_def)

section \<open>Blocks of memory\<close>

text \<open>
  Elements point to blocks of memory of their own. \<open>owned ad bl K\<close>: the pointers \<open>ad\<close> of the fields \<open>K\<close> point to different
  blocks of \<open>bl\<close>, and there are no other blocks.
\<close>

definition owned :: "('k \<Rightarrow> nat) \<Rightarrow> (nat \<rightharpoonup> 'b) \<Rightarrow> 'k set \<Rightarrow> bool" where
  "owned ad bl K \<longleftrightarrow> inj_on ad K \<and> dom bl = ad ` K"

lemma owned_get: "owned ad bl K \<Longrightarrow> k \<in> K \<Longrightarrow> \<exists>v. bl (ad k) = Some v"
  unfolding owned_def by (metis domIff imageI not_Some_eq)

lemma owned_apart: "owned ad bl K \<Longrightarrow> j \<in> K \<Longrightarrow> k \<in> K \<Longrightarrow> ad j = ad k \<longleftrightarrow> j = k"
  by (auto simp: owned_def inj_on_def)

lemma owned_fresh: "owned ad bl K \<Longrightarrow> bl p = None \<Longrightarrow> k \<in> K \<Longrightarrow> ad k \<noteq> p"
  unfolding owned_def by (metis domIff imageI)

lemma owned_free: "owned ad bl K \<Longrightarrow> k \<in> K \<Longrightarrow> owned ad (bl(ad k := None)) (K - {k})"
  by (auto simp: owned_def inj_on_def)

lemma owned_alloc: "owned ad bl K \<Longrightarrow> k \<notin> K \<Longrightarrow> bl p = None \<Longrightarrow> owned (ad(k := p)) (bl(p \<mapsto> v)) (insert k K)"
  using owned_fresh [of ad bl K p] by (fastforce simp: owned_def inj_on_def)

section \<open>Operation sequences\<close>

text \<open>
  The abstract side: a list of elements for each of the heads \<open>qs\<close>. An element is in one list at a time, and only the elements
  \<open>live\<close> are in memory.
\<close>

type_synonym lists = "nat \<Rightarrow> nat list"

definition fresh_elem :: "nat list \<Rightarrow> nat list \<Rightarrow> lists \<Rightarrow> nat \<Rightarrow> bool" where
  "fresh_elem live qs Q e \<longleftrightarrow> e \<in> set live \<and> (\<forall>q \<in> set qs. e \<notin> set (Q q))"

primrec insert_behind :: "nat \<Rightarrow> nat \<Rightarrow> nat list \<Rightarrow> nat list" where
  "insert_behind l e [] = []"
| "insert_behind l e (x # xs) = (if x = l then x # e # xs else x # insert_behind l e xs)"

primrec insert_ahead :: "nat \<Rightarrow> nat \<Rightarrow> nat list \<Rightarrow> nat list" where
  "insert_ahead l e [] = []"
| "insert_ahead l e (x # xs) = (if x = l then e # x # xs else x # insert_ahead l e xs)"

definition stores :: "(qmem \<Rightarrow> nat \<Rightarrow> nat list \<Rightarrow> bool) \<Rightarrow> nat list \<Rightarrow> nat list \<Rightarrow> qmem \<Rightarrow> lists \<Rightarrow> bool" where
  "stores repr live qs m Q \<longleftrightarrow>
     (\<forall>q \<in> set qs. repr m q (Q q)) \<and>
     (\<forall>q \<in> set qs. \<forall>q' \<in> set qs. q \<noteq> q' \<longrightarrow> set (Q q) \<inter> set (Q q') = {}) \<and>
     set live \<subseteq> dom (e_next m)"

text \<open>An operation that works on one list of the memory works on all of them.\<close>

locale list_frame =
  fixes repr :: "qmem \<Rightarrow> nat \<Rightarrow> nat list \<Rightarrow> bool"
  assumes repr_frame:
    "repr m q xs \<Longrightarrow> same_outside m m' qs es \<Longrightarrow> q \<notin> qs \<Longrightarrow> set xs \<inter> es = {} \<Longrightarrow> repr m' q xs"
begin

lemma stores_step:
  assumes st: "stores repr live qs m Q" and q: "q \<in> set qs"
    and step: "\<exists>m'. r = Inr m' \<and> repr m' q ys \<and> same_outside m m' {q} es"
    and own: "\<And>e. e \<in> es \<union> set ys \<Longrightarrow> e \<in> set (Q q) \<or> fresh_elem live qs Q e"
  shows "\<exists>m'. r = Inr m' \<and> stores repr live qs m' (Q(q := ys))"
proof -
  obtain m' where m': "r = Inr m'" "repr m' q ys" and so: "same_outside m m' {q} es" using step by blast
  have out: "set (Q q') \<inter> (es \<union> set ys) = {}" if "q' \<in> set qs" "q' \<noteq> q" for q'
    using st q own that by (fastforce simp: stores_def fresh_elem_def)
  have "repr m' q' (Q q')" if "q' \<in> set qs" "q' \<noteq> q" for q'
    using repr_frame [OF _ so, of q' "Q q'"] st that out [OF that] by (auto simp: stores_def)
  then have "stores repr live qs m' (Q(q := ys))"
    using st q m'(2) so out by (auto simp: stores_def same_outside_def)
  with m'(1) show ?thesis by blast
qed

end

interpretation stq: list_frame repr_stailq
  by unfold_locales (rule repr_stailq_frame)

interpretation lst: list_frame repr_list
  by unfold_locales (rule repr_list_frame)

text \<open>A step that follows an abstract step does so along every sequence of steps.\<close>

primrec ub_run :: "('m \<Rightarrow> 'op \<Rightarrow> ub + 'm) \<Rightarrow> 'm \<Rightarrow> 'op list \<Rightarrow> ub + 'm" where
  "ub_run step m [] = Inr m"
| "ub_run step m (x # xs) = ub_bind (step m x) (\<lambda>m'. ub_run step m' xs)"

primrec spec_run :: "('s \<Rightarrow> 'op \<Rightarrow> 's option) \<Rightarrow> 's \<Rightarrow> 'op list \<Rightarrow> 's option" where
  "spec_run step s [] = Some s"
| "spec_run step s (x # xs) = (case step s x of None \<Rightarrow> None | Some s' \<Rightarrow> spec_run step s' xs)"

locale step_refinement =
  fixes rel :: "'m \<Rightarrow> 's \<Rightarrow> bool"
    and conc :: "'m \<Rightarrow> 'op \<Rightarrow> ub + 'm"
    and spec :: "'s \<Rightarrow> 'op \<Rightarrow> 's option"
  assumes step_refines: "rel m s \<Longrightarrow> spec s x = Some s' \<Longrightarrow> \<exists>m'. conc m x = Inr m' \<and> rel m' s'"
begin

lemma run_refines: "rel m s \<Longrightarrow> spec_run spec s xs = Some s' \<Longrightarrow> \<exists>m'. ub_run conc m xs = Inr m' \<and> rel m' s'"
proof (induction xs arbitrary: m s)
  case Nil
  then show ?case by simp
next
  case (Cons x xs)
  then obtain s1 where s1: "spec s x = Some s1" "spec_run spec s1 xs = Some s'" by (auto split: option.splits)
  obtain m1 where "conc m x = Inr m1" "rel m1 s1" using step_refines [OF Cons.prems(1) s1(1)] by blast
  with Cons.IH [OF this(2) s1(2)] show ?case by simp
qed

end

text \<open>The tail queue operations.\<close>

datatype stq_op =
    Stq_Init nat
  | Stq_Insert_Head nat nat
  | Stq_Insert_Tail nat nat
  | Stq_Insert_After nat nat nat
  | Stq_Remove_Head nat
  | Stq_Remove nat nat
  | Stq_Concat nat nat

primrec stq_step :: "qmem \<Rightarrow> stq_op \<Rightarrow> ub + qmem" where
  "stq_step m (Stq_Init q) = Inr (STAILQ_INIT m q)"
| "stq_step m (Stq_Insert_Head q e) = STAILQ_INSERT_HEAD m q e"
| "stq_step m (Stq_Insert_Tail q e) = STAILQ_INSERT_TAIL m q e"
| "stq_step m (Stq_Insert_After q l e) = STAILQ_INSERT_AFTER m q l e"
| "stq_step m (Stq_Remove_Head q) = STAILQ_REMOVE_HEAD m q"
| "stq_step m (Stq_Remove q e) = STAILQ_REMOVE m q e"
| "stq_step m (Stq_Concat q1 q2) = STAILQ_CONCAT m q1 q2"

primrec stq_spec :: "nat list \<Rightarrow> nat list \<Rightarrow> lists \<Rightarrow> stq_op \<Rightarrow> lists option" where
  "stq_spec live qs Q (Stq_Init q) = (if q \<in> set qs then Some (Q(q := [])) else None)"
| "stq_spec live qs Q (Stq_Insert_Head q e) =
     (if q \<in> set qs \<and> fresh_elem live qs Q e then Some (Q(q := e # Q q)) else None)"
| "stq_spec live qs Q (Stq_Insert_Tail q e) =
     (if q \<in> set qs \<and> fresh_elem live qs Q e then Some (Q(q := Q q @ [e])) else None)"
| "stq_spec live qs Q (Stq_Insert_After q l e) =
     (if q \<in> set qs \<and> l \<in> set (Q q) \<and> fresh_elem live qs Q e then Some (Q(q := insert_behind l e (Q q))) else None)"
| "stq_spec live qs Q (Stq_Remove_Head q) = (if q \<in> set qs \<and> Q q \<noteq> [] then Some (Q(q := tl (Q q))) else None)"
| "stq_spec live qs Q (Stq_Remove q e) = (if q \<in> set qs \<and> e \<in> set (Q q) then Some (Q(q := remove1 e (Q q))) else None)"
| "stq_spec live qs Q (Stq_Concat q1 q2) =
     (if q1 \<in> set qs \<and> q2 \<in> set qs \<and> q1 \<noteq> q2 then Some (Q(q1 := Q q1 @ Q q2, q2 := [])) else None)"

text \<open>The list operations. \<open>LIST_INSERT_AFTER\<close>, \<open>LIST_INSERT_BEFORE\<close> and \<open>LIST_REMOVE\<close> do not name the head.\<close>

datatype lst_op =
    Lst_Init nat
  | Lst_Insert_Head nat nat
  | Lst_Insert_After nat nat nat
  | Lst_Insert_Before nat nat nat
  | Lst_Remove nat nat

primrec lst_step :: "qmem \<Rightarrow> lst_op \<Rightarrow> ub + qmem" where
  "lst_step m (Lst_Init q) = Inr (LIST_INIT m q)"
| "lst_step m (Lst_Insert_Head q e) = LIST_INSERT_HEAD m q e"
| "lst_step m (Lst_Insert_After q l e) = LIST_INSERT_AFTER m l e"
| "lst_step m (Lst_Insert_Before q l e) = LIST_INSERT_BEFORE m l e"
| "lst_step m (Lst_Remove q e) = LIST_REMOVE m e"

primrec lst_spec :: "nat list \<Rightarrow> nat list \<Rightarrow> lists \<Rightarrow> lst_op \<Rightarrow> lists option" where
  "lst_spec live qs Q (Lst_Init q) = (if q \<in> set qs then Some (Q(q := [])) else None)"
| "lst_spec live qs Q (Lst_Insert_Head q e) =
     (if q \<in> set qs \<and> fresh_elem live qs Q e then Some (Q(q := e # Q q)) else None)"
| "lst_spec live qs Q (Lst_Insert_After q l e) =
     (if q \<in> set qs \<and> l \<in> set (Q q) \<and> fresh_elem live qs Q e then Some (Q(q := insert_behind l e (Q q))) else None)"
| "lst_spec live qs Q (Lst_Insert_Before q l e) =
     (if q \<in> set qs \<and> l \<in> set (Q q) \<and> fresh_elem live qs Q e then Some (Q(q := insert_ahead l e (Q q))) else None)"
| "lst_spec live qs Q (Lst_Remove q e) = (if q \<in> set qs \<and> e \<in> set (Q q) then Some (Q(q := remove1 e (Q q))) else None)"

lemma insert_behind_split: "l \<notin> set ys \<Longrightarrow> insert_behind l e (ys @ l # zs) = ys @ l # e # zs"
  by (induction ys) auto

lemma insert_ahead_split: "l \<notin> set ys \<Longrightarrow> insert_ahead l e (ys @ l # zs) = ys @ e # l # zs"
  by (induction ys) auto

lemma remove1_split: "e \<notin> set ys \<Longrightarrow> remove1 e (ys @ e # zs) = ys @ zs"
  by (simp add: remove1_append)

lemma stores_repr: "stores repr live qs m Q \<Longrightarrow> q \<in> set qs \<Longrightarrow> repr m q (Q q)"
  by (simp add: stores_def)

lemma fresh_elemD:
  "stores repr live qs m Q \<Longrightarrow> fresh_elem live qs Q e \<Longrightarrow> q \<in> set qs \<Longrightarrow> e \<notin> set (Q q) \<and> e \<in> dom (e_next m)"
  by (auto simp: stores_def fresh_elem_def)

lemma same_outside_mono: "same_outside m m' qs es \<Longrightarrow> qs \<subseteq> qs' \<Longrightarrow> es \<subseteq> es' \<Longrightarrow> same_outside m m' qs' es'"
  by (auto simp: same_outside_def)

lemma stq_concat_refines:
  assumes st: "stores repr_stailq live qs m Q" and q: "q1 \<in> set qs" "q2 \<in> set qs" "q1 \<noteq> q2"
  shows "\<exists>m'. STAILQ_CONCAT m q1 q2 = Inr m' \<and> stores repr_stailq live qs m' (Q(q1 := Q q1 @ Q q2, q2 := []))"
proof -
  have dis: "set (Q q) \<inter> set (Q q') = {}" if "q \<in> set qs" "q' \<in> set qs" "q \<noteq> q'" for q q'
    using st that by (simp add: stores_def)
  obtain m' where m': "STAILQ_CONCAT m q1 q2 = Inr m'" "repr_stailq m' q1 (Q q1 @ Q q2)" "repr_stailq m' q2 []"
    and so: "same_outside m m' {q1, q2} (set (Q q1))"
    using stailq_concat [OF stores_repr [OF st q(1)] stores_repr [OF st q(2)] q(3) dis [OF q]] by blast
  have "repr_stailq m' q (Q q)" if "q \<in> set qs" "q \<noteq> q1" "q \<noteq> q2" for q
    using repr_stailq_frame [OF stores_repr [OF st that(1)] so] dis [OF that(1) q(1)] that by simp
  moreover have "set (Q q) \<inter> set (Q q1 @ Q q2) = {}" if "q \<in> set qs" "q \<noteq> q1" "q \<noteq> q2" for q
    using dis [OF that(1) q(1)] dis [OF that(1) q(2)] that by auto
  ultimately show ?thesis using st q m' so by (auto simp: stores_def same_outside_def)
qed

lemma stq_step_refines:
  assumes st: "stores repr_stailq live qs m Q" and sp: "stq_spec live qs Q x = Some Q'"
  shows "\<exists>m'. stq_step m x = Inr m' \<and> stores repr_stailq live qs m' Q'"
proof (cases x)
  case (Stq_Init q)
  with sp have q: "q \<in> set qs" by (auto split: if_splits)
  have "\<exists>m'. Inr (STAILQ_INIT m q) = (Inr m' :: ub + qmem) \<and> repr_stailq m' q [] \<and> same_outside m m' {q} {}"
    using stailq_init by blast
  from stq.stores_step [OF st q this] Stq_Init sp show ?thesis by (simp split: if_splits)
next
  case (Stq_Insert_Head q e)
  with sp have q: "q \<in> set qs" "fresh_elem live qs Q e" by (auto split: if_splits)
  from fresh_elemD [OF st q(2,1)] Stq_Insert_Head sp q stq.stores_step [OF st q(1) stailq_insert_head [OF stores_repr [OF st q(1)], of e]]
  show ?thesis by auto
next
  case (Stq_Insert_Tail q e)
  with sp have q: "q \<in> set qs" "fresh_elem live qs Q e" by (auto split: if_splits)
  from fresh_elemD [OF st q(2,1)] Stq_Insert_Tail sp q stq.stores_step [OF st q(1) stailq_insert_tail [OF stores_repr [OF st q(1)], of e]]
  show ?thesis by auto
next
  case (Stq_Insert_After q l e)
  with sp have q: "q \<in> set qs" "fresh_elem live qs Q e" "l \<in> set (Q q)" by (auto split: if_splits)
  obtain ys zs where Q: "Q q = ys @ l # zs" "l \<notin> set ys" using split_list_first [OF q(3)] by blast
  from fresh_elemD [OF st q(2,1)] Stq_Insert_After sp q stores_repr [OF st q(1)]
    stq.stores_step [OF st q(1) stailq_insert_after [of m q ys l zs e]]
  show ?thesis by (auto simp: Q insert_behind_split)
next
  case (Stq_Remove_Head q)
  with sp have q: "q \<in> set qs" "Q q \<noteq> []" by (auto split: if_splits)
  then obtain y ys where Q: "Q q = y # ys" by (cases "Q q") auto
  from stq.stores_step [OF st q(1) stailq_remove_head [of m q y ys]] stores_repr [OF st q(1)] Stq_Remove_Head sp
  show ?thesis by (auto simp: Q split: if_splits)
next
  case (Stq_Remove q e)
  with sp have q: "q \<in> set qs" "e \<in> set (Q q)" by (auto split: if_splits)
  obtain ys zs where Q: "Q q = ys @ e # zs" "e \<notin> set ys" using split_list_first [OF q(2)] by blast
  from stq.stores_step [OF st q(1) stailq_remove [of m q ys e zs]] stores_repr [OF st q(1)] Stq_Remove sp q
  show ?thesis by (auto simp: Q remove1_split)
next
  case (Stq_Concat q1 q2)
  with sp stq_concat_refines [OF st, of q1 q2] show ?thesis by (auto split: if_splits)
qed

lemma lst_step_refines:
  assumes st: "stores repr_list live qs m Q" and sp: "lst_spec live qs Q x = Some Q'"
  shows "\<exists>m'. lst_step m x = Inr m' \<and> stores repr_list live qs m' Q'"
proof (cases x)
  case (Lst_Init q)
  with sp have q: "q \<in> set qs" by (auto split: if_splits)
  have "\<exists>m'. Inr (LIST_INIT m q) = (Inr m' :: ub + qmem) \<and> repr_list m' q [] \<and> same_outside m m' {q} {}"
    using list_init by blast
  from lst.stores_step [OF st q this] Lst_Init sp show ?thesis by (simp split: if_splits)
next
  case (Lst_Insert_Head q e)
  with sp have q: "q \<in> set qs" "fresh_elem live qs Q e" by (auto split: if_splits)
  from fresh_elemD [OF st q(2,1)] Lst_Insert_Head sp q lst.stores_step [OF st q(1) list_insert_head [OF stores_repr [OF st q(1)], of e]]
  show ?thesis by auto
next
  case (Lst_Insert_After q l e)
  with sp have q: "q \<in> set qs" "fresh_elem live qs Q e" "l \<in> set (Q q)" by (auto split: if_splits)
  obtain ys zs where Q: "Q q = ys @ l # zs" "l \<notin> set ys" using split_list_first [OF q(3)] by blast
  from fresh_elemD [OF st q(2,1)] Lst_Insert_After sp q stores_repr [OF st q(1)]
    lst.stores_step [OF st q(1) list_insert_after [of m q ys l zs e]]
  show ?thesis by (auto simp: Q insert_behind_split)
next
  case (Lst_Insert_Before q l e)
  with sp have q: "q \<in> set qs" "fresh_elem live qs Q e" "l \<in> set (Q q)" by (auto split: if_splits)
  obtain ys zs where Q: "Q q = ys @ l # zs" "l \<notin> set ys" using split_list_first [OF q(3)] by blast
  from fresh_elemD [OF st q(2,1)] Lst_Insert_Before sp q stores_repr [OF st q(1)]
    lst.stores_step [OF st q(1) list_insert_before [of m q ys l zs e]]
  show ?thesis by (auto simp: Q insert_ahead_split)
next
  case (Lst_Remove q e)
  with sp have q: "q \<in> set qs" "e \<in> set (Q q)" by (auto split: if_splits)
  obtain ys zs where Q: "Q q = ys @ e # zs" "e \<notin> set ys" using split_list_first [OF q(2)] by blast
  from lst.stores_step [OF st q(1) list_remove [of m q ys e zs]] stores_repr [OF st q(1)] Lst_Remove sp q
  show ?thesis by (auto simp: Q remove1_split)
qed

interpretation stq: step_refinement "stores repr_stailq live qs" stq_step "stq_spec live qs" for live qs
  by unfold_locales (rule stq_step_refines)

interpretation lst: step_refinement "stores repr_list live qs" lst_step "lst_spec live qs" for live qs
  by unfold_locales (rule lst_step_refines)

text \<open>Initialising the heads makes all lists empty.\<close>

lemma stq_init_all:
  "stores repr_stailq live qs0 m (\<lambda>q. []) \<Longrightarrow>
     \<exists>m'. ub_run stq_step m (map Stq_Init qs) = Inr m' \<and> stores repr_stailq live (qs0 @ qs) m' (\<lambda>q. [])"
proof (induction qs arbitrary: qs0 m)
  case (Cons q qs)
  have "stores repr_stailq live (qs0 @ [q]) (STAILQ_INIT m q) (\<lambda>q. [])"
    using Cons.prems by (auto simp: stores_def repr_stailq_def STAILQ_INIT_def)
  with Cons.IH [OF this] show ?case by simp
qed simp

lemma lst_init_all:
  "stores repr_list live qs0 m (\<lambda>q. []) \<Longrightarrow>
     \<exists>m'. ub_run lst_step m (map Lst_Init qs) = Inr m' \<and> stores repr_list live (qs0 @ qs) m' (\<lambda>q. [])"
proof (induction qs arbitrary: qs0 m)
  case (Cons q qs)
  have "stores repr_list live (qs0 @ [q]) (LIST_INIT m q) (\<lambda>q. [])"
    using Cons.prems by (auto simp: stores_def repr_list_def LIST_INIT_def)
  with Cons.IH [OF this] show ?case by simp
qed simp

lemma stores_none: "set live \<subseteq> dom (e_next m) \<Longrightarrow> stores repr live [] m Q"
  by (simp add: stores_def)

lemma ub_run_append: "ub_run step m (xs @ ys) = ub_bind (ub_run step m xs) (\<lambda>m'. ub_run step m' ys)"
  by (induction xs arbitrary: m) (auto simp: ub_bind_def split: sum.splits)

text \<open>
  C25. The tail queue macros implement lists. Whatever the memory holds before: after \<open>STAILQ_INIT\<close> of the heads \<open>qs\<close>, every
  sequence of operations that makes sense on lists (an inserted element is in memory and in none of the lists, a removed one or
  the one to insert behind is in the list it is said to be in, \<open>STAILQ_REMOVE_HEAD\<close> finds the list not empty) follows no bad
  pointer and ends. Then \<open>STAILQ_FOREACH\<close> visits the elements of each list in order, \<open>STAILQ_EMPTY\<close> and \<open>STAILQ_FIRST\<close> tell
  its first element, and the loop that removes and frees the first element until there is none frees each element once, in
  order, and leaves the queue empty.\<close>

theorem stailq_refines_list:
  assumes live: "set live \<subseteq> dom (e_next m)" and spec: "spec_run (stq_spec live qs) (\<lambda>q. []) xs = Some Q"
  shows "\<exists>m'. ub_run stq_step m (map Stq_Init qs @ xs) = Inr m' \<and>
    (\<forall>q \<in> set qs.
       STAILQ_FOREACH m' q = Inr (Q q) \<and> (STAILQ_EMPTY m' q \<longleftrightarrow> Q q = []) \<and>
       STAILQ_FIRST m' q = (case Q q of [] \<Rightarrow> None | e # _ \<Rightarrow> Some e) \<and>
       (\<exists>m''. drain STAILQ_FIRST (\<lambda>m q e. STAILQ_REMOVE_HEAD m q) q_free m' q [] = Some (Inr (m'', Q q)) \<and>
              STAILQ_EMPTY m'' q))"
proof -
  obtain m1 where m1: "ub_run stq_step m (map Stq_Init qs) = Inr m1" "stores repr_stailq live qs m1 (\<lambda>q. [])"
    using stq_init_all [OF stores_none [OF live], of qs] by auto
  obtain m' where m': "ub_run stq_step m1 xs = Inr m'" and st: "stores repr_stailq live qs m' Q"
    using stq.run_refines [OF m1(2) spec] by blast
  have "STAILQ_FOREACH m' q = Inr (Q q)" "STAILQ_FIRST m' q = (case Q q of [] \<Rightarrow> None | e # _ \<Rightarrow> Some e)"
    "\<exists>m''. drain STAILQ_FIRST (\<lambda>m q e. STAILQ_REMOVE_HEAD m q) q_free m' q [] = Some (Inr (m'', Q q)) \<and> repr_stailq m'' q []"
    if "q \<in> set qs" for q
    using stores_repr [OF st that] stq.drain_all [of m' q "Q q" "[]"] stq.first_empty stq.first_elem
    by (auto simp: stailq_foreach split: list.split)
  then show ?thesis using m1(1) m'
    by (fastforce simp: ub_run_append STAILQ_EMPTY_def STAILQ_FIRST_def repr_stailq_def split: list.splits)
qed

definition sample_mem :: qmem where
  "sample_mem =
     \<lparr>q_first = (\<lambda>q. Some 7), q_last = (\<lambda>q. Next_Slot 9), e_next = (\<lambda>e. if e < 4 then Some None else None),
      e_prev = (\<lambda>e. Next_Slot 9)\<rparr>"

definition sample_stq :: "stq_op list" where
  "sample_stq =
     [Stq_Insert_Tail 0 1, Stq_Insert_Tail 0 2, Stq_Insert_After 0 1 3, Stq_Remove 0 2, Stq_Insert_Tail 1 2, Stq_Concat 1 0,
      Stq_Remove_Head 1, Stq_Insert_Head 0 2]"

lemma sample_live: "set [1, 2, 3] \<subseteq> dom (e_next sample_mem)"
  by (simp add: sample_mem_def dom_def)

theorem stailq_refines_list_witness:
  "\<exists>m'. ub_run stq_step sample_mem (map Stq_Init [0, 1] @ sample_stq) = Inr m' \<and>
     STAILQ_FOREACH m' 0 = Inr [2] \<and> STAILQ_FOREACH m' 1 = Inr [1, 3]"
proof -
  have "spec_run (stq_spec [1, 2, 3] [0, 1]) (\<lambda>q. []) sample_stq = Some ((\<lambda>q. [])(0 := [2], 1 := [1, 3]))"
    by (auto simp: sample_stq_def fresh_elem_def)
  from stailq_refines_list [OF sample_live this] show ?thesis by auto
qed

text \<open>The list macros implement lists. After \<open>LIST_INIT\<close> of the heads \<open>qs\<close>, every sequence of operations that makes sense on
  lists follows no bad pointer and ends, although \<open>LIST_INSERT_AFTER\<close>, \<open>LIST_INSERT_BEFORE\<close> and \<open>LIST_REMOVE\<close> are not told the
  head. Then \<open>LIST_FOREACH\<close> visits the elements of each list in order, \<open>LIST_EMPTY\<close> and \<open>LIST_FIRST\<close> tell its first element, and
  the loop that frees a header list frees each element once, in order, and leaves the list empty.\<close>

lemma list_refines_list:
  assumes live: "set live \<subseteq> dom (e_next m)" and spec: "spec_run (lst_spec live qs) (\<lambda>q. []) xs = Some Q"
  shows "\<exists>m'. ub_run lst_step m (map Lst_Init qs @ xs) = Inr m' \<and>
    (\<forall>q \<in> set qs.
       LIST_FOREACH m' q = Inr (Q q) \<and> (LIST_EMPTY m' q \<longleftrightarrow> Q q = []) \<and>
       LIST_FIRST m' q = (case Q q of [] \<Rightarrow> None | e # _ \<Rightarrow> Some e) \<and>
       (\<exists>m''. drain LIST_FIRST (\<lambda>m q e. LIST_REMOVE m e) q_free m' q [] = Some (Inr (m'', Q q)) \<and>
              LIST_EMPTY m'' q))"
proof -
  obtain m1 where m1: "ub_run lst_step m (map Lst_Init qs) = Inr m1" "stores repr_list live qs m1 (\<lambda>q. [])"
    using lst_init_all [OF stores_none [OF live], of qs] by auto
  obtain m' where m': "ub_run lst_step m1 xs = Inr m'" and st: "stores repr_list live qs m' Q"
    using lst.run_refines [OF m1(2) spec] by blast
  have "LIST_FOREACH m' q = Inr (Q q)" "LIST_FIRST m' q = (case Q q of [] \<Rightarrow> None | e # _ \<Rightarrow> Some e)"
    "\<exists>m''. drain LIST_FIRST (\<lambda>m q e. LIST_REMOVE m e) q_free m' q [] = Some (Inr (m'', Q q)) \<and> repr_list m'' q []"
    if "q \<in> set qs" for q
    using stores_repr [OF st that] lst.drain_all [of m' q "Q q" "[]"] lst.first_empty lst.first_elem
    by (auto simp: list_foreach split: list.split)
  then show ?thesis using m1(1) m'
    by (fastforce simp: ub_run_append LIST_EMPTY_def LIST_FIRST_def repr_list_def split: list.splits)
qed

end
