(* ===== verification/Bio_Mem.thy ===== *)
theory Bio_Mem
  imports Bio Queue
begin

text \<open>
  The byte queue of \<open>src/bio.c\<close> once more, with its memory: messages and their buffers are allocated and freed, and the messages are
  linked by the macros of \<open>queue.h\<close>. The operations follow no bad pointer, do what the operations of \<open>Bio\<close> do on lists, and the
  queue owns all the memory there is, so that freeing it leaves none.
\<close>

section \<open>Memory\<close>

text \<open>
  A \<open>struct msg\<close> is in memory when its next pointer is; \<open>bm_len\<close> and \<open>bm_buf\<close> are its other fields. A buffer is a block of bytes
  at an address of its own. The head of the messages is the one with number 0.
\<close>

record bio_mem =
  bm_queue :: qmem
  bm_len :: "nat \<Rightarrow> size_t"
  bm_buf :: "nat \<Rightarrow> nat"
  bm_blocks :: "nat \<rightharpoonup> byte list"
  bm_available :: size_t
  bm_headoffset :: size_t
  bm_qlen :: "32 word"

definition malloc_msg :: "bio_mem \<Rightarrow> nat \<Rightarrow> bio_mem" where
  "malloc_msg b a = b\<lparr>bm_queue := (bm_queue b)\<lparr>e_next := (e_next (bm_queue b))(a \<mapsto> None)\<rparr>\<rparr>"

definition free_msg :: "bio_mem \<Rightarrow> nat \<Rightarrow> ub + bio_mem" where
  "free_msg b a =
     (case e_next (bm_queue b) a of
        None \<Rightarrow> Inl Bad_Pointer
      | Some n \<Rightarrow> Inr (b\<lparr>bm_queue := q_free (bm_queue b) a\<rparr>))"

definition free_block :: "bio_mem \<Rightarrow> nat \<Rightarrow> ub + bio_mem" where
  "free_block b p =
     (case bm_blocks b p of None \<Rightarrow> Inl Bad_Pointer | Some bs \<Rightarrow> Inr (b\<lparr>bm_blocks := (bm_blocks b)(p := None)\<rparr>))"

text \<open>\<open>memcpy\<close> out of a block.\<close>

definition copy_block :: "bio_mem \<Rightarrow> nat \<Rightarrow> size_t \<Rightarrow> size_t \<Rightarrow> ub + byte list" where
  "copy_block b p off n =
     (case bm_blocks b p of
        None \<Rightarrow> Inl Bad_Pointer
      | Some bs \<Rightarrow>
          if unat off + unat n \<le> length bs then Inr (take (unat n) (drop (unat off) bs)) else Inl Out_Of_Bounds_Read)"

section \<open>Operations\<close>

definition mem_BIO_new :: bio_mem where
  "mem_BIO_new =
     \<lparr>bm_queue = STAILQ_INIT \<lparr>q_first = (\<lambda>q. None), q_last = (\<lambda>q. Head_Slot q), e_next = Map.empty, e_prev = (\<lambda>e. Head_Slot 0)\<rparr> 0,
      bm_len = (\<lambda>a. 0), bm_buf = (\<lambda>a. 0), bm_blocks = Map.empty, bm_available = 0, bm_headoffset = 0, bm_qlen = 0\<rparr>"

text \<open>The two options are what the two calls of \<open>malloc\<close> return.\<close>

definition mem_BIO_put :: "bio_mem \<Rightarrow> nat option \<Rightarrow> nat option \<Rightarrow> byte list \<Rightarrow> ub + int \<times> bio_mem" where
  "mem_BIO_put b m_addr buf_addr buf =
     (case m_addr of
        None \<Rightarrow> Inr (-1, b)
      | Some a \<Rightarrow>
          (let b1 = malloc_msg b a in
           case buf_addr of
             None \<Rightarrow> ub_bind (free_msg b1 a) (\<lambda>b2. Inr (-1, b2))
           | Some p \<Rightarrow>
               (let len = of_nat (length buf) :: size_t;
                    b2 = b1\<lparr>bm_blocks := (bm_blocks b1)(p \<mapsto> take (unat len) buf), bm_buf := (bm_buf b1)(a := p),
                            bm_len := (bm_len b1)(a := len)\<rparr>
                in ub_bind (STAILQ_INSERT_TAIL (bm_queue b2) 0 a) (\<lambda>q.
                     Inr (0, b2\<lparr>bm_queue := q, bm_available := bm_available b2 + len, bm_qlen := bm_qlen b2 + 1\<rparr>)))))"

text \<open>One turn of the loop of \<open>tlsuv_BIO_read\<close>.\<close>

definition mem_read_turn :: "bio_mem \<Rightarrow> size_t \<Rightarrow> size_t \<Rightarrow> ub + bio_mem \<times> size_t \<times> byte list" where
  "mem_read_turn b len tot =
     (case STAILQ_FIRST (bm_queue b) 0 of
        None \<Rightarrow> Inl Null_Deref
      | Some a \<Rightarrow>
          if e_next (bm_queue b) a = None then Inl Bad_Pointer
          else
            (let n = min (len - tot) (bm_len b a - bm_headoffset b) in
             ub_bind (copy_block b (bm_buf b a) (bm_headoffset b) n) (\<lambda>bs.
               (let b1 = b\<lparr>bm_headoffset := bm_headoffset b + n, bm_available := bm_available b - n\<rparr> in
                if bm_headoffset b1 = bm_len b1 a
                then ub_bind (STAILQ_REMOVE_HEAD (bm_queue b1) 0) (\<lambda>q.
                       (let b2 = b1\<lparr>bm_queue := q, bm_headoffset := 0, bm_qlen := bm_qlen b1 - 1\<rparr>
                        in ub_bind (free_block b2 (bm_buf b2 a)) (\<lambda>b3.
                             ub_bind (free_msg b3 a) (\<lambda>b4. Inr (b4, n, bs)))))
                else Inr (b1, n, bs)))))"

partial_function (option) mem_read_loop ::
  "bio_mem \<Rightarrow> size_t \<Rightarrow> size_t \<Rightarrow> byte list \<Rightarrow> (ub + bio_mem \<times> size_t \<times> byte list) option" where
  "mem_read_loop b len tot out =
     (if \<not> STAILQ_EMPTY (bm_queue b) 0 \<and> tot < len
      then (case mem_read_turn b len tot of
              Inl u \<Rightarrow> Some (Inl u)
            | Inr (b1, n, bs) \<Rightarrow> mem_read_loop b1 len (tot + n) (out @ bs))
      else Some (Inr (b, tot, out)))"

declare mem_read_loop.simps [code]

definition mem_BIO_read :: "bio_mem \<Rightarrow> size_t \<Rightarrow> ub + int \<times> bio_mem \<times> byte list" where
  "mem_BIO_read b len =
     (case mem_read_loop b len 0 [] of
        None \<Rightarrow> Inl Endless_Loop
      | Some r \<Rightarrow> ub_bind r (\<lambda>(b', tot, out). Inr (to_c_int tot, b', out)))"

text \<open>The body of the loop of \<open>tlsuv_BIO_free\<close>, and the loop.\<close>

definition mem_drop_msg :: "bio_mem \<Rightarrow> nat \<Rightarrow> nat \<Rightarrow> ub + bio_mem" where
  "mem_drop_msg b q a =
     ub_bind (STAILQ_REMOVE_HEAD (bm_queue b) q) (\<lambda>m.
       (let b1 = b\<lparr>bm_queue := m\<rparr> in ub_bind (free_block b1 (bm_buf b1 a)) (\<lambda>b2. free_msg b2 a)))"

definition mem_BIO_free :: "bio_mem \<Rightarrow> ub + bio_mem \<times> nat list" where
  "mem_BIO_free b =
     (case drain (\<lambda>b q. STAILQ_FIRST (bm_queue b) q) mem_drop_msg (\<lambda>b a. b) b 0 [] of
        None \<Rightarrow> Inl Endless_Loop
      | Some r \<Rightarrow> r)"

section \<open>The memory as a queue\<close>

text \<open>The queue owns all messages and buffers, one buffer for each message.\<close>

definition bm_owns :: "bio_mem \<Rightarrow> nat list \<Rightarrow> bool" where
  "bm_owns b xs \<longleftrightarrow>
     repr_stailq (bm_queue b) 0 xs \<and> dom (e_next (bm_queue b)) = set xs \<and> owned (bm_buf b) (bm_blocks b) (set xs)"

definition bm_msg :: "bio_mem \<Rightarrow> nat \<Rightarrow> msg" where
  "bm_msg b a = \<lparr>msg_len = bm_len b a, msg_buf = the (bm_blocks b (bm_buf b a))\<rparr>"

definition bio_of :: "bio_mem \<Rightarrow> nat list \<Rightarrow> tlsuv_BIO" where
  "bio_of b xs =
     \<lparr>available = bm_available b, headoffset = bm_headoffset b, qlen = bm_qlen b, message_q = map (bm_msg b) xs\<rparr>"

lemma mem_new_owns: "bm_owns mem_BIO_new [] \<and> bio_of mem_BIO_new [] = tlsuv_BIO_new"
  by (simp add: bm_owns_def owned_def mem_BIO_new_def bio_of_def tlsuv_BIO_new_def stailq_init STAILQ_INIT_def repr_stailq_def)

text \<open>What \<open>malloc\<close> returns is not in use.\<close>

definition addr_fresh :: "bio_mem \<Rightarrow> nat option \<Rightarrow> nat option \<Rightarrow> bool" where
  "addr_fresh b m_addr buf_addr \<longleftrightarrow>
     (case m_addr of None \<Rightarrow> True | Some a \<Rightarrow> e_next (bm_queue b) a = None) \<and>
     (case buf_addr of None \<Rightarrow> True | Some p \<Rightarrow> bm_blocks b p = None)"

lemma repr_stailq_malloc:
  "repr_stailq m 0 xs \<Longrightarrow> e_next m a = None \<Longrightarrow> repr_stailq (m\<lparr>e_next := (e_next m)(a \<mapsto> None)\<rparr>) 0 xs"
proof -
  assume r: "repr_stailq m 0 xs" and a: "e_next m a = None"
  then have "a \<notin> set xs" using path_alloc [of "e_next m" "q_first m 0" xs None a] by (auto simp: repr_stailq_def)
  with r show ?thesis by (simp add: repr_stailq_def)
qed

lemma mem_put_ok:
  assumes own: "bm_owns b xs" and a: "e_next (bm_queue b) a = None" and p: "bm_blocks b p = None"
  shows "\<exists>b'. mem_BIO_put b (Some a) (Some p) buf = Inr (0, b') \<and> bm_owns b' (xs @ [a]) \<and>
    tlsuv_BIO_put True True (bio_of b xs) buf = (0, bio_of b' (xs @ [a]))"
proof -
  let ?m = "(bm_queue b)\<lparr>e_next := (e_next (bm_queue b))(a \<mapsto> None)\<rparr>"
  have ax: "a \<notin> set xs" using own a by (auto simp: bm_owns_def owned_def)
  have px: "p \<noteq> bm_buf b x" if "x \<in> set xs" for x using own p that by (metis bm_owns_def owned_def domIff imageI)
  have "repr_stailq ?m 0 xs" using own a by (simp add: bm_owns_def owned_def repr_stailq_malloc)
  from stailq_insert_tail [OF this ax] obtain m' where m': "STAILQ_INSERT_TAIL ?m 0 a = Inr m'"
    "repr_stailq m' 0 (xs @ [a])" "same_outside ?m m' {0} (insert a (set xs))" by auto
  from m'(3) have "dom (e_next m') = insert a (set xs)"
    using own by (auto simp: same_outside_def bm_owns_def owned_def)
  with m' own ax px show ?thesis
    by (auto simp: mem_BIO_put_def malloc_msg_def Let_def bm_owns_def owned_def tlsuv_BIO_put_def bio_of_def bm_msg_def inj_on_def)
qed

lemma mem_put_refines:
  assumes own: "bm_owns b xs" and fr: "addr_fresh b m_addr buf_addr"
  shows "\<exists>rc b' xs'. mem_BIO_put b m_addr buf_addr buf = Inr (rc, b') \<and> bm_owns b' xs' \<and>
    tlsuv_BIO_put (m_addr \<noteq> None) (buf_addr \<noteq> None) (bio_of b xs) buf = (rc, bio_of b' xs')"
proof (cases m_addr)
  case None
  with own show ?thesis by (auto simp: mem_BIO_put_def tlsuv_BIO_put_def)
next
  case (Some a)
  show ?thesis
  proof (cases buf_addr)
    case None
    have "(e_next (bm_queue b))(a := None) = e_next (bm_queue b)" using fr Some by (auto simp: addr_fresh_def)
    then have "mem_BIO_put b m_addr buf_addr buf = Inr (-1, b)"
      using None Some by (simp add: mem_BIO_put_def malloc_msg_def free_msg_def q_free_def)
    with None Some own show ?thesis by (auto simp: tlsuv_BIO_put_def)
  next
    case (Some p)
    with \<open>m_addr = Some a\<close> mem_put_ok [OF own, of a p buf] fr show ?thesis by (auto simp: addr_fresh_def)
  qed
qed

lemma mem_drop_ok:
  assumes own: "bm_owns b (a # xs)"
  shows "\<exists>b'. mem_drop_msg b 0 a = Inr b' \<and> bm_owns b' xs \<and> (\<forall>x \<in> set xs. bm_msg b' x = bm_msg b x) \<and>
    bm_available b' = bm_available b \<and> bm_headoffset b' = bm_headoffset b \<and> bm_qlen b' = bm_qlen b"
proof -
  obtain m where m: "STAILQ_REMOVE_HEAD (bm_queue b) 0 = Inr m" "repr_stailq m 0 xs" "same_outside (bm_queue b) m {0} {}"
    using own stailq_remove_head [of "bm_queue b" 0 a xs] by (auto simp: bm_owns_def owned_def)
  have ax: "a \<notin> set xs" using own by (simp add: bm_owns_def owned_def repr_stailq_def)
  have inj: "bm_buf b x \<noteq> bm_buf b a" if "x \<in> set xs" for x using own ax that by (auto simp: bm_owns_def owned_def inj_on_def)
  have "bm_buf b a \<in> dom (bm_blocks b)" using own by (auto simp: bm_owns_def owned_def)
  then obtain bs where bs: "bm_blocks b (bm_buf b a) = Some bs" by auto
  have dm: "dom (e_next m) = insert a (set xs)" using own m(3) by (simp add: bm_owns_def owned_def same_outside_def)
  then obtain n where n: "e_next m a = Some n" by blast
  let ?b = "b\<lparr>bm_queue := q_free m a, bm_blocks := (bm_blocks b)(bm_buf b a := None)\<rparr>"
  have "mem_drop_msg b 0 a = Inr ?b" using m(1) bs n by (simp add: mem_drop_msg_def free_block_def free_msg_def)
  moreover have "dom ((bm_blocks b)(bm_buf b a := None)) = bm_buf b ` set xs"
    using own inj by (auto simp: bm_owns_def owned_def)
  then have "bm_owns ?b xs"
    using own ax dm stailq_free [OF m(2) ax] by (auto simp: bm_owns_def owned_def q_free_def)
  ultimately show ?thesis using inj by (auto simp: bm_msg_def)
qed

lemma bm_upd_order:
  "b\<lparr>bm_headoffset := h, bm_available := v, bm_qlen := l, bm_queue := q\<rparr> =
     b\<lparr>bm_available := v, bm_queue := q, bm_headoffset := h, bm_qlen := l\<rparr>"
  by simp

lemma mem_turn_refines:
  assumes own: "bm_owns b (a # xs)" and wf: "bio_wf (bio_of b (a # xs))" and le: "tot \<le> len"
  defines "n \<equiv> bio_recv_size (bio_of b (a # xs)) (bm_msg b a) len tot"
  shows "\<exists>b' xs'. mem_read_turn b len tot = Inr (b', n, take (unat n) (drop (unat (bm_headoffset b)) (msg_buf (bm_msg b a)))) \<and>
    bm_owns b' xs' \<and> bio_of b' xs' = bio_consume (bio_of b (a # xs)) (bm_msg b a) (map (bm_msg b) xs) n"
proof -
  have q: "message_q (bio_of b (a # xs)) = bm_msg b a # map (bm_msg b) xs" by (simp add: bio_of_def)
  have first: "STAILQ_FIRST (bm_queue b) 0 = Some a" using own stq.first_elem by (auto simp: bm_owns_def owned_def)
  have "a \<in> dom (e_next (bm_queue b))" "bm_buf b a \<in> dom (bm_blocks b)" using own by (auto simp: bm_owns_def owned_def)
  then obtain nx bs where al: "e_next (bm_queue b) a = Some nx" "bm_blocks b (bm_buf b a) = Some bs" by auto
  have neq: "n = min (len - tot) (bm_len b a - bm_headoffset b)"
    by (simp add: n_def bio_recv_size_def bm_msg_def bio_of_def)
  have "unat (bm_headoffset b) + unat n \<le> length bs"
    using bio_recv_size_nat [OF wf q le, folded n_def] bio_wf_offset_le(2) [OF wf q] al(2)
    by (simp add: bio_of_def bm_msg_def)
  then have cp: "copy_block b (bm_buf b a) (bm_headoffset b) n = Inr (take (unat n) (drop (unat (bm_headoffset b)) bs))"
    using al(2) by (simp add: copy_block_def)
  show ?thesis
  proof (cases "bm_headoffset b + n = bm_len b a")
    case False
    let ?b = "b\<lparr>bm_headoffset := bm_headoffset b + n, bm_available := bm_available b - n\<rparr>"
    have "bm_owns ?b (a # xs)" "bm_msg ?b = bm_msg b" using own by (simp_all add: bm_owns_def owned_def bm_msg_def fun_eq_iff)
    moreover have "mem_read_turn b len tot = Inr (?b, n, take (unat n) (drop (unat (bm_headoffset b)) bs))"
      using first al(1) cp False by (simp add: mem_read_turn_def neq [symmetric])
    ultimately show ?thesis using al(2) False
      by (intro exI [of _ ?b] exI [of _ "a # xs"]) (simp add: bio_of_def bio_consume_def bm_msg_def)
  next
    case True
    let ?b = "b\<lparr>bm_headoffset := 0, bm_available := bm_available b - n, bm_qlen := bm_qlen b - 1\<rparr>"
    have "bm_owns ?b (a # xs)" "bm_msg ?b = bm_msg b" using own by (simp_all add: bm_owns_def owned_def bm_msg_def fun_eq_iff)
    with mem_drop_ok [of ?b a xs] obtain b' where b': "mem_drop_msg ?b 0 a = Inr b'" "bm_owns b' xs"
      "\<forall>x \<in> set xs. bm_msg b' x = bm_msg b x" "bm_available b' = bm_available b - n" "bm_headoffset b' = 0"
      "bm_qlen b' = bm_qlen b - 1" by auto
    have "mem_read_turn b len tot = Inr (b', n, take (unat n) (drop (unat (bm_headoffset b)) bs))"
      using first al(1) cp True b'(1)
      by (auto simp: mem_read_turn_def neq [symmetric] mem_drop_msg_def Let_def ub_bind_Inr bm_upd_order)
    with b' True al(2) show ?thesis
      by (intro exI [of _ b'] exI [of _ xs]) (simp add: bio_of_def bio_consume_def bm_msg_def)
  qed
qed

lemma size_t_add_le: "n \<le> len - tot \<Longrightarrow> tot \<le> len \<Longrightarrow> tot + n \<le> (len :: size_t)"
proof -
  assume n: "n \<le> len - tot" and le: "tot \<le> len"
  have "unat tot + unat n \<le> unat len"
    using n le by (simp add: word_le_nat_alt unat_sub_size_t)
  moreover from this have "unat (tot + n) = unat tot + unat n"
    using unat_lt_size_t [of len] by (intro unat_add_size_t) simp
  ultimately show "tot + n \<le> len" by (simp add: word_le_nat_alt)
qed

lemma mem_read_loop_refines:
  assumes "bm_owns b xs" and "bio_wf (bio_of b xs)" and "tot \<le> len"
  shows "\<exists>b' xs' tot' out'. mem_read_loop b len tot out = Some (Inr (b', tot', out')) \<and> bm_owns b' xs' \<and>
    bio_read_loop (bio_of b xs) len tot out = (bio_of b' xs', tot', out')"
  using assms
proof (induction "bio_of b xs" len tot out arbitrary: b xs rule: bio_read_loop.induct)
  case (1 len tot out b xs)
  show ?case
  proof (cases xs)
    case Nil
    then have "message_q (bio_of b xs) = []" "STAILQ_EMPTY (bm_queue b) 0"
      using "1.prems"(1) by (simp_all add: bio_of_def bm_owns_def owned_def STAILQ_EMPTY_def repr_stailq_def)
    with "1.prems"(1) show ?thesis by (auto simp: mem_read_loop.simps [of b] bio_read_loop.simps [of "bio_of b xs"])
  next
    case (Cons a ys)
    have q: "message_q (bio_of b xs) = bm_msg b a # map (bm_msg b) ys" by (simp add: bio_of_def Cons)
    have ne: "\<not> STAILQ_EMPTY (bm_queue b) 0" using "1.prems"(1) Cons by (simp add: bm_owns_def owned_def STAILQ_EMPTY_def repr_stailq_def)
    show ?thesis
    proof (cases "tot < len")
      case False
      with "1.prems"(1) q show ?thesis
        by (auto simp: mem_read_loop.simps [of b] bio_read_loop.simps [of "bio_of b xs"])
    next
      case True
      let ?n = "bio_recv_size (bio_of b xs) (bm_msg b a) len tot"
      let ?bs = "take (unat ?n) (drop (unat (bm_headoffset b)) (msg_buf (bm_msg b a)))"
      obtain b1 ys1 where t: "mem_read_turn b len tot = Inr (b1, ?n, ?bs)" "bm_owns b1 ys1"
        "bio_of b1 ys1 = bio_consume (bio_of b xs) (bm_msg b a) (map (bm_msg b) ys) ?n"
        using mem_turn_refines [of b a ys tot len] "1.prems" Cons by blast
      have "bio_wf (bio_of b1 ys1)" unfolding t(3) by (rule bio_consume_step(3) [OF "1.prems"(2) q "1.prems"(3)])
      moreover have "tot + ?n \<le> len"
        by (rule size_t_add_le [OF _ "1.prems"(3)]) (simp add: bio_recv_size_def)
      ultimately show ?thesis
        using "1.hyps" [OF q True refl _ t(2)] t ne True q
        by (simp add: mem_read_loop.simps [of b] bio_read_loop.simps [of "bio_of b xs"] Let_def) (simp add: bio_of_def)
    qed
  qed
qed

lemma mem_read_refines:
  assumes "bm_owns b xs" and "bio_wf (bio_of b xs)"
  shows "\<exists>rc b' xs' out. mem_BIO_read b len = Inr (rc, b', out) \<and> bm_owns b' xs' \<and>
    tlsuv_BIO_read (bio_of b xs) len = (rc, bio_of b' xs', out)"
  using mem_read_loop_refines [OF assms, of 0 len "[]"] by (auto simp: mem_BIO_read_def tlsuv_BIO_read_def)

text \<open>\<open>tlsuv_BIO_free\<close> is one of the loops that empty a list.\<close>

interpretation bm: drainable "\<lambda>b q xs. q = 0 \<and> bm_owns b xs" "\<lambda>b q. STAILQ_FIRST (bm_queue b) q" mem_drop_msg "\<lambda>b a. b"
proof unfold_locales
  fix b q x xs
  show "q = 0 \<and> bm_owns b (x # xs) \<Longrightarrow> \<exists>b'. mem_drop_msg b q x = Inr b' \<and> q = 0 \<and> bm_owns b' xs"
    using mem_drop_ok by blast
qed (auto simp: bm_owns_def owned_def repr_stailq_def STAILQ_FIRST_def)

lemma mem_free_all:
  "bm_owns b xs \<Longrightarrow> \<exists>b'. mem_BIO_free b = Inr (b', xs) \<and> dom (e_next (bm_queue b')) = {} \<and> dom (bm_blocks b') = {}"
  using bm.drain_all [of 0 b xs "[]"] by (auto simp: mem_BIO_free_def bm_owns_def owned_def)

section \<open>Operation sequences\<close>

datatype bio_op = Bio_Put "nat option" "nat option" "byte list" | Bio_Read size_t

text \<open>The results of a sequence of operations on memory, and of the same operations on lists.\<close>

fun mem_run :: "bio_mem \<Rightarrow> bio_op list \<Rightarrow> ub + bio_mem \<times> (int \<times> byte list) list" where
  "mem_run b [] = Inr (b, [])"
| "mem_run b (Bio_Put m_addr buf_addr buf # ops) =
     ub_bind (mem_BIO_put b m_addr buf_addr buf) (\<lambda>(rc, b1).
       ub_bind (mem_run b1 ops) (\<lambda>(b2, rs). Inr (b2, (rc, []) # rs)))"
| "mem_run b (Bio_Read n # ops) =
     ub_bind (mem_BIO_read b n) (\<lambda>(rc, b1, out).
       ub_bind (mem_run b1 ops) (\<lambda>(b2, rs). Inr (b2, (rc, out) # rs)))"

fun bio_run :: "tlsuv_BIO \<Rightarrow> bio_op list \<Rightarrow> tlsuv_BIO \<times> (int \<times> byte list) list" where
  "bio_run bio [] = (bio, [])"
| "bio_run bio (Bio_Put m_addr buf_addr buf # ops) =
     (let (rc, bio1) = tlsuv_BIO_put (m_addr \<noteq> None) (buf_addr \<noteq> None) bio buf;
          (bio2, rs) = bio_run bio1 ops
      in (bio2, (rc, []) # rs))"
| "bio_run bio (Bio_Read n # ops) =
     (let (rc, bio1, out) = tlsuv_BIO_read bio n; (bio2, rs) = bio_run bio1 ops in (bio2, (rc, out) # rs))"

text \<open>\<open>malloc\<close> returns unused addresses all along the sequence.\<close>

fun mallocs_fresh :: "bio_mem \<Rightarrow> bio_op list \<Rightarrow> bool" where
  "mallocs_fresh b [] \<longleftrightarrow> True"
| "mallocs_fresh b (Bio_Put m_addr buf_addr buf # ops) \<longleftrightarrow>
     addr_fresh b m_addr buf_addr \<and>
     (case mem_BIO_put b m_addr buf_addr buf of Inl u \<Rightarrow> True | Inr (rc, b1) \<Rightarrow> mallocs_fresh b1 ops)"
| "mallocs_fresh b (Bio_Read n # ops) \<longleftrightarrow>
     (case mem_BIO_read b n of Inl u \<Rightarrow> True | Inr (rc, b1, out) \<Rightarrow> mallocs_fresh b1 ops)"

primrec bytes_put :: "bio_op list \<Rightarrow> nat" where
  "bytes_put [] = 0"
| "bytes_put (x # ops) = (case x of Bio_Put m_addr buf_addr buf \<Rightarrow> length buf | Bio_Read n \<Rightarrow> 0) + bytes_put ops"

lemma bio_put_keeps:
  assumes "bio_wf bio" and "bio_held bio + length buf < 2 ^ 64" and "tlsuv_BIO_put am ab bio buf = (rc, bio')"
  shows "bio_wf bio' \<and> bio_held bio' \<le> bio_held bio + length buf"
proof (cases "am \<and> ab")
  case True
  with assms bio.wf_put [of bio buf] bio.held_put [of bio buf] show ?thesis by (simp add: bio_put_def)
next
  case False
  with assms show ?thesis by (auto simp: tlsuv_BIO_put_def split: if_splits)
qed

lemma bio_read_keeps:
  "bio_wf bio \<Longrightarrow> tlsuv_BIO_read bio n = (rc, bio', out) \<Longrightarrow> bio_wf bio' \<and> bio_held bio' \<le> bio_held bio"
  using bio.wf_get [of bio n] bio.held_get [of bio n] by (simp add: bio_get_def)

lemma mem_run_refines:
  assumes "bm_owns b xs" and "bio_wf (bio_of b xs)" and "bio_held (bio_of b xs) + bytes_put ops < 2 ^ 64"
    and "mallocs_fresh b ops"
  shows "\<exists>b' xs' rs. mem_run b ops = Inr (b', rs) \<and> bm_owns b' xs' \<and> bio_run (bio_of b xs) ops = (bio_of b' xs', rs)"
  using assms
proof (induction ops arbitrary: b xs)
  case Nil
  then show ?case by auto
next
  case (Cons x ops)
  show ?case
  proof (cases x)
    case (Bio_Put m_addr buf_addr buf)
    then have "addr_fresh b m_addr buf_addr" using Cons.prems(4) by simp
    from mem_put_refines [OF Cons.prems(1) this, of buf] obtain rc b1 xs1
      where p: "mem_BIO_put b m_addr buf_addr buf = Inr (rc, b1)" "bm_owns b1 xs1"
        "tlsuv_BIO_put (m_addr \<noteq> None) (buf_addr \<noteq> None) (bio_of b xs) buf = (rc, bio_of b1 xs1)" by blast
    have "bio_wf (bio_of b1 xs1)" "bio_held (bio_of b1 xs1) + bytes_put ops < 2 ^ 64"
      using bio_put_keeps [OF Cons.prems(2) _ p(3)] Cons.prems(3) Bio_Put by simp_all
    from Cons.IH [OF p(2) this] Cons.prems(4) Bio_Put p show ?thesis by auto
  next
    case (Bio_Read n)
    from mem_read_refines [OF Cons.prems(1,2), of n] obtain rc b1 xs1 out
      where p: "mem_BIO_read b n = Inr (rc, b1, out)" "bm_owns b1 xs1"
        "tlsuv_BIO_read (bio_of b xs) n = (rc, bio_of b1 xs1, out)" by blast
    have "bio_wf (bio_of b1 xs1)" "bio_held (bio_of b1 xs1) + bytes_put ops < 2 ^ 64"
      using bio_read_keeps [OF Cons.prems(2) p(3)] Cons.prems(3) Bio_Read by simp_all
    from Cons.IH [OF p(2) this] Cons.prems(4) Bio_Read p show ?thesis by auto
  qed
qed

section \<open>Properties\<close>

text \<open>
  C9. The memory of the byte queue. Starting with a new queue, whatever is put and read, and whichever calls of \<open>malloc\<close> fail: as long as
  those that do not fail return unused memory and less than \<open>2^64\<close> bytes are put, no operation follows a bad pointer, reads beyond a
  buffer, frees memory twice or loops, and every operation returns what it returns on lists. Freeing the queue afterwards frees
  every message that is left, in order, and leaves no message and no buffer in memory.
\<close>

theorem bio_memory_safe:
  assumes "mallocs_fresh mem_BIO_new ops" and "bytes_put ops < 2 ^ 64"
  shows "\<exists>b rs. mem_run mem_BIO_new ops = Inr (b, rs) \<and> snd (bio_run tlsuv_BIO_new ops) = rs \<and>
    (\<exists>b' xs. mem_BIO_free b = Inr (b', xs) \<and> map (bm_msg b) xs = tlsuv_BIO_free (fst (bio_run tlsuv_BIO_new ops)) \<and>
       dom (e_next (bm_queue b')) = {} \<and> dom (bm_blocks b') = {})"
proof -
  have new: "bm_owns mem_BIO_new []" "bio_of mem_BIO_new [] = tlsuv_BIO_new" using mem_new_owns by auto
  with assms mem_run_refines [OF new(1), of ops] obtain b xs rs where
    r: "mem_run mem_BIO_new ops = Inr (b, rs)" "bm_owns b xs" "bio_run tlsuv_BIO_new ops = (bio_of b xs, rs)"
    by (auto simp: bio_wf_new bio.held_empty)
  with mem_free_all [OF r(2)] show ?thesis by (auto simp: tlsuv_BIO_free_all bio_of_def)
qed

definition sample_bio_ops :: "bio_op list" where
  "sample_bio_ops =
     [Bio_Put (Some 4) (Some 9) [1, 2, 3], Bio_Put (Some 5) None [7], Bio_Read 2, Bio_Put (Some 5) (Some 8) [4, 5], Bio_Read 2,
      Bio_Put (Some 4) (Some 9) [6]]"

theorem bio_memory_safe_witness:
  "\<exists>b rs. mem_run mem_BIO_new sample_bio_ops = Inr (b, rs) \<and>
     rs = [(0, []), (-1, []), (2, [1, 2]), (0, []), (2, [3, 4]), (0, [])] \<and>
     (\<exists>b' xs. mem_BIO_free b = Inr (b', xs) \<and> dom (bm_blocks b') = {})"
proof -
  have "mallocs_fresh mem_BIO_new sample_bio_ops" by code_simp
  moreover have "bytes_put sample_bio_ops < 2 ^ 64" by (simp add: sample_bio_ops_def)
  moreover have "snd (bio_run tlsuv_BIO_new sample_bio_ops) =
      [(0, []), (-1, []), (2, [1, 2]), (0, []), (2, [3, 4]), (0, [])]" by code_simp
  ultimately show ?thesis using bio_memory_safe [of sample_bio_ops] by auto
qed

end
