(* ===== verification/Headers_Mem.thy ===== *)
theory Headers_Mem
  imports Headers Queue
begin

text \<open>
  The header lists of \<open>src/http_req.c\<close> once more, with their memory: headers, names and values are allocated and freed, and the
  headers are linked by the \<open>LIST\<close> macros of \<open>queue.h\<close>. The operations follow no bad pointer, do what the operations of \<open>Headers\<close>
  do, and the list owns all the memory there is, so that freeing it leaves none.
\<close>

section \<open>Memory\<close>

text \<open>
  A header is in memory when its next pointer is; \<open>hm_name\<close> and \<open>hm_value\<close> are the addresses of its two strings. The head of the
  list is the one with number 0.
\<close>

record hdr_mem =
  hm_q :: qmem
  hm_name :: "nat \<Rightarrow> nat"
  hm_value :: "nat \<Rightarrow> nat"
  hm_strs :: "nat \<rightharpoonup> string"

text \<open>A string argument: one of the caller's, or the address of one in this memory.\<close>

datatype str_arg = Foreign string | Stored nat

definition str_read :: "hdr_mem \<Rightarrow> str_arg \<Rightarrow> ub + string" where
  "str_read m s =
     (case s of
        Foreign v \<Rightarrow> Inr v
      | Stored p \<Rightarrow> (case hm_strs m p of None \<Rightarrow> Inl Bad_Pointer | Some v \<Rightarrow> Inr v))"

definition malloc_hdr :: "hdr_mem \<Rightarrow> nat \<Rightarrow> hdr_mem" where
  "malloc_hdr m h = m\<lparr>hm_q := (hm_q m)\<lparr>e_next := (e_next (hm_q m))(h \<mapsto> None)\<rparr>\<rparr>"

definition release_hdr :: "hdr_mem \<Rightarrow> nat \<Rightarrow> ub + hdr_mem" where
  "release_hdr m h =
     (case e_next (hm_q m) h of None \<Rightarrow> Inl Bad_Pointer | Some n \<Rightarrow> Inr (m\<lparr>hm_q := q_free (hm_q m) h\<rparr>))"

definition release_str :: "hdr_mem \<Rightarrow> nat \<Rightarrow> ub + hdr_mem" where
  "release_str m p =
     (case hm_strs m p of None \<Rightarrow> Inl Bad_Pointer | Some v \<Rightarrow> Inr (m\<lparr>hm_strs := (hm_strs m)(p := None)\<rparr>))"

text \<open>The results of \<open>strdup\<close> and \<open>strndup\<close> at the address \<open>p\<close>, stored in the name or the value of a header.\<close>

definition set_name :: "hdr_mem \<Rightarrow> nat \<Rightarrow> nat \<Rightarrow> string \<Rightarrow> hdr_mem" where
  "set_name m h p v = m\<lparr>hm_strs := (hm_strs m)(p \<mapsto> v), hm_name := (hm_name m)(h := p)\<rparr>"

definition set_value :: "hdr_mem \<Rightarrow> nat \<Rightarrow> nat \<Rightarrow> string \<Rightarrow> hdr_mem" where
  "set_value m h p v = m\<lparr>hm_strs := (hm_strs m)(p \<mapsto> v), hm_value := (hm_value m)(h := p)\<rparr>"

section \<open>Operations\<close>

text \<open>The loop that looks for a header with an equal name, from \<open>p\<close> on.\<close>

partial_function (option) hdr_walk :: "hdr_mem \<Rightarrow> nat option \<Rightarrow> string \<Rightarrow> (ub + nat option) option" where
  "hdr_walk m p name =
     (case p of
        None \<Rightarrow> Some (Inr None)
      | Some h \<Rightarrow>
          (case (e_next (hm_q m) h, hm_strs m (hm_name m h)) of
             (Some n, Some v) \<Rightarrow> if strcasecmp_eq v name then Some (Inr (Some h)) else hdr_walk m n name
           | _ \<Rightarrow> Some (Inl Bad_Pointer)))"

declare hdr_walk.simps [code]

definition mem_hdr_find :: "hdr_mem \<Rightarrow> string \<Rightarrow> ub + nat option" where
  "mem_hdr_find m name =
     (case hdr_walk m (q_first (hm_q m) 0) name of None \<Rightarrow> Inl Endless_Loop | Some r \<Rightarrow> r)"

text \<open>A new header at \<open>h\<close> with its name at \<open>np\<close>, at the head of the list; its value is not set.\<close>

definition insert_hdr :: "hdr_mem \<Rightarrow> nat \<Rightarrow> nat \<Rightarrow> string \<Rightarrow> ub + hdr_mem" where
  "insert_hdr m h np name =
     (let m1 = set_name (malloc_hdr m h) h np name
      in ub_bind (LIST_INSERT_HEAD (hm_q m1) 0 h) (\<lambda>q. Inr (m1\<lparr>hm_q := q\<rparr>)))"

text \<open>The addresses \<open>h\<close>, \<open>np\<close> and \<open>vp\<close> are what the allocations of the header, its name and its value return, if they are made.\<close>

definition mem_add_http_header ::
  "hdr_mem \<Rightarrow> nat \<Rightarrow> nat \<Rightarrow> nat \<Rightarrow> string \<Rightarrow> string \<Rightarrow> nat \<Rightarrow> ub + hdr_mem" where
  "mem_add_http_header m h np vp name val vallen =
     ub_bind (insert_hdr m h np name) (\<lambda>m1. Inr (set_value m1 h vp (c_strndup val vallen)))"

definition mem_set_http_header ::
  "hdr_mem \<Rightarrow> nat \<Rightarrow> nat \<Rightarrow> nat \<Rightarrow> string \<Rightarrow> str_arg option \<Rightarrow> ub + hdr_mem" where
  "mem_set_http_header m h np vp name val =
     ub_bind (mem_hdr_find m name) (\<lambda>found.
       (case val of
          None \<Rightarrow>
            (case found of
               None \<Rightarrow> Inr m
             | Some x \<Rightarrow>
                 ub_bind (LIST_REMOVE (hm_q m) x) (\<lambda>q.
                   (let m1 = m\<lparr>hm_q := q\<rparr> in
                    ub_bind (release_str m1 (hm_value m1 x)) (\<lambda>m2.
                      ub_bind (release_str m2 (hm_name m2 x)) (\<lambda>m3. release_hdr m3 x)))))
        | Some s \<Rightarrow>
            (case found of
               None \<Rightarrow>
                 ub_bind (insert_hdr m h np name) (\<lambda>m1. ub_bind (str_read m1 s) (\<lambda>v. Inr (set_value m1 h vp v)))
             | Some x \<Rightarrow>
                 ub_bind (release_str m (hm_value m x)) (\<lambda>m1.
                   ub_bind (str_read m1 s) (\<lambda>v. Inr (set_value m1 x vp v))))))"

text \<open>The value a lookup finds; the code returns its address.\<close>

definition mem_resp_header :: "hdr_mem \<Rightarrow> string \<Rightarrow> ub + string option" where
  "mem_resp_header m name =
     ub_bind (mem_hdr_find m name) (\<lambda>found.
       (case found of
          None \<Rightarrow> Inr None
        | Some x \<Rightarrow> (case hm_strs m (hm_value m x) of None \<Rightarrow> Inl Bad_Pointer | Some v \<Rightarrow> Inr (Some v))))"

text \<open>The body of the loop of \<open>free_hdr_list\<close>, and the loop.\<close>

definition mem_drop_hdr :: "hdr_mem \<Rightarrow> nat \<Rightarrow> nat \<Rightarrow> ub + hdr_mem" where
  "mem_drop_hdr m q x =
     ub_bind (LIST_REMOVE (hm_q m) x) (\<lambda>q'.
       (let m1 = m\<lparr>hm_q := q'\<rparr> in
        ub_bind (release_str m1 (hm_name m1 x)) (\<lambda>m2.
          ub_bind (release_str m2 (hm_value m2 x)) (\<lambda>m3. release_hdr m3 x))))"

definition mem_free_hdr_list :: "hdr_mem \<Rightarrow> ub + hdr_mem \<times> nat list" where
  "mem_free_hdr_list m =
     (case drain (\<lambda>m q. LIST_FIRST (hm_q m) q) mem_drop_hdr (\<lambda>m x. m) m 0 [] of None \<Rightarrow> Inl Endless_Loop | Some r \<Rightarrow> r)"

definition mem_hdr_new :: hdr_mem where
  "mem_hdr_new =
     \<lparr>hm_q = LIST_INIT \<lparr>q_first = (\<lambda>q. None), q_last = (\<lambda>q. Head_Slot q), e_next = Map.empty, e_prev = (\<lambda>e. Head_Slot 0)\<rparr> 0,
      hm_name = (\<lambda>h. 0), hm_value = (\<lambda>h. 0), hm_strs = Map.empty\<rparr>"

section \<open>The memory as a header list\<close>

datatype str_field = Name_Of nat | Value_Of nat

primrec hm_addr :: "hdr_mem \<Rightarrow> str_field \<Rightarrow> nat" where
  "hm_addr m (Name_Of h) = hm_name m h"
| "hm_addr m (Value_Of h) = hm_value m h"

definition hm_fields :: "nat set \<Rightarrow> str_field set" where
  "hm_fields S = Name_Of ` S \<union> Value_Of ` S"

text \<open>The list owns all headers and strings, two strings for each header.\<close>

definition hm_owns :: "hdr_mem \<Rightarrow> nat list \<Rightarrow> bool" where
  "hm_owns m xs \<longleftrightarrow>
     repr_list (hm_q m) 0 xs \<and> dom (e_next (hm_q m)) = set xs \<and> owned (hm_addr m) (hm_strs m) (hm_fields (set xs))"

definition hm_hdr :: "hdr_mem \<Rightarrow> nat \<Rightarrow> tlsuv_http_hdr" where
  "hm_hdr m h = \<lparr>hdr_name = the (hm_strs m (hm_name m h)), hdr_value = the (hm_strs m (hm_value m h))\<rparr>"

definition hdrs_of :: "hdr_mem \<Rightarrow> nat list \<Rightarrow> um_header_list" where
  "hdrs_of m xs = map (hm_hdr m) xs"

lemma hm_fields_iff [simp]:
  "Name_Of h \<in> hm_fields S \<longleftrightarrow> h \<in> S" "Value_Of h \<in> hm_fields S \<longleftrightarrow> h \<in> S"
  by (auto simp: hm_fields_def)

lemma hm_new_owns: "hm_owns mem_hdr_new []"
  by (simp add: hm_owns_def mem_hdr_new_def LIST_INIT_def repr_list_def owned_def hm_fields_def)

lemma hm_strs_owned:
  assumes "hm_owns m xs" and "x \<in> set xs"
  obtains n v where "hm_strs m (hm_name m x) = Some n" "hm_strs m (hm_value m x) = Some v"
  using owned_get [of "hm_addr m" "hm_strs m" "hm_fields (set xs)" "Name_Of x"]
    owned_get [of "hm_addr m" "hm_strs m" "hm_fields (set xs)" "Value_Of x"] assms that
  by (auto simp: hm_owns_def)

lemma hm_strs_apart:
  assumes "hm_owns m xs" and "x \<in> set xs" and "y \<in> set xs"
  shows "hm_name m x \<noteq> hm_value m y" and "hm_name m x = hm_name m y \<longleftrightarrow> x = y" and "hm_value m x = hm_value m y \<longleftrightarrow> x = y"
  using owned_apart [of "hm_addr m" "hm_strs m" "hm_fields (set xs)" "Name_Of x" "Value_Of y"]
    owned_apart [of "hm_addr m" "hm_strs m" "hm_fields (set xs)" "Name_Of x" "Name_Of y"]
    owned_apart [of "hm_addr m" "hm_strs m" "hm_fields (set xs)" "Value_Of x" "Value_Of y"] assms
  by (auto simp: hm_owns_def)

lemma hdr_walk_path:
  assumes "path (e_next (hm_q m)) p xs None" and "\<forall>x \<in> set xs. hm_strs m (hm_name m x) \<noteq> None"
  shows "hdr_walk m p name = Some (Inr (map_option (\<lambda>i. xs ! i) (hdr_find (hdrs_of m xs) name)))"
  using assms
proof (induction xs arbitrary: p)
  case Nil
  then show ?case by (simp add: hdr_walk.simps hdrs_of_def)
next
  case (Cons x xs)
  then obtain n v where "p = Some x" "e_next (hm_q m) x = Some n" "path (e_next (hm_q m)) n xs None"
    "hm_strs m (hm_name m x) = Some v" by auto
  with Cons.IH [of n] Cons.prems(2) show ?case
    by (subst hdr_walk.simps) (simp add: hdrs_of_def hm_hdr_def option.map_comp comp_def)
qed

lemma mem_hdr_find_refines:
  assumes "hm_owns m xs"
  shows "mem_hdr_find m name = Inr (map_option (\<lambda>i. xs ! i) (hdr_find (hdrs_of m xs) name))"
proof -
  have "path (e_next (hm_q m)) (q_first (hm_q m) 0) xs None"
    using assms dpath_path by (auto simp: hm_owns_def repr_list_def)
  moreover have "\<forall>x \<in> set xs. hm_strs m (hm_name m x) \<noteq> None" using hm_strs_owned [OF assms] by blast
  ultimately show ?thesis by (simp add: mem_hdr_find_def hdr_walk_path)
qed

lemma hm_addr_upd [simp]:
  "hm_addr (m\<lparr>hm_name := (hm_name m)(h := p)\<rparr>) = (hm_addr m)(Name_Of h := p)"
  "hm_addr (m\<lparr>hm_value := (hm_value m)(h := p)\<rparr>) = (hm_addr m)(Value_Of h := p)"
  "hm_addr (m\<lparr>hm_q := q\<rparr>) = hm_addr m" "hm_addr (m\<lparr>hm_strs := t\<rparr>) = hm_addr m"
  by (rule ext, rename_tac f, case_tac f; simp)+

text \<open>A header is taken out and freed with its strings.\<close>

definition hm_without :: "hdr_mem \<Rightarrow> qmem \<Rightarrow> nat \<Rightarrow> hdr_mem" where
  "hm_without m q x =
     m\<lparr>hm_q := q_free q x, hm_strs := (hm_strs m)(hm_name m x := None, hm_value m x := None)\<rparr>"

lemma owned_without:
  assumes own: "owned (hm_addr m) (hm_strs m) (hm_fields S)" and x: "x \<in> S"
  shows "owned (hm_addr m) ((hm_strs m)(hm_name m x := None, hm_value m x := None)) (hm_fields (S - {x}))"
proof -
  have "owned (hm_addr m) ((hm_strs m)(hm_addr m (Name_Of x) := None, hm_addr m (Value_Of x) := None))
      (hm_fields S - {Name_Of x} - {Value_Of x})"
    using own x by (intro owned_free) simp_all
  moreover have "hm_fields S - {Name_Of x} - {Value_Of x} = hm_fields (S - {x})" by (auto simp: hm_fields_def)
  ultimately show ?thesis by simp
qed

lemma hm_removed:
  assumes own: "hm_owns m (ys @ x # zs)"
  shows "\<exists>q. LIST_REMOVE (hm_q m) x = Inr q \<and> x \<in> dom (e_next q) \<and> hm_owns (hm_without m q x) (ys @ zs) \<and>
    hdrs_of (hm_without m q x) (ys @ zs) = hdrs_of m (ys @ zs)"
proof -
  let ?xs = "ys @ x # zs"
  have r: "repr_list (hm_q m) 0 ?xs" using own by (simp add: hm_owns_def)
  then have x: "x \<notin> set (ys @ zs)" by (auto simp: repr_list_def)
  obtain q where q: "LIST_REMOVE (hm_q m) x = Inr q" "repr_list q 0 (ys @ zs)" and dq: "dom (e_next q) = insert x (set (ys @ zs))"
    using list_remove [OF r] own by (auto simp: hm_owns_def same_outside_def)
  have ap: "hm_name m y \<noteq> hm_name m x" "hm_name m y \<noteq> hm_value m x" "hm_value m y \<noteq> hm_name m x" "hm_value m y \<noteq> hm_value m x"
    if "y \<in> set (ys @ zs)" for y
    using hm_strs_apart [OF own, of y x] hm_strs_apart(1) [OF own, of x y] that x by auto
  have "set ?xs - {x} = set (ys @ zs)" using x by auto
  with owned_without [of m "set ?xs" x] own
  have "owned (hm_addr m) ((hm_strs m)(hm_name m x := None, hm_value m x := None)) (hm_fields (set (ys @ zs)))"
    by (simp add: hm_owns_def)
  moreover have "dom (e_next (q_free q x)) = set (ys @ zs)" using dq x by (auto simp: q_free_def)
  ultimately have "hm_owns (hm_without m q x) (ys @ zs)"
    using list_free [OF q(2) x] by (simp add: hm_owns_def hm_without_def)
  moreover have "hdrs_of (hm_without m q x) (ys @ zs) = hdrs_of m (ys @ zs)"
    unfolding hdrs_of_def by (rule map_cong [OF refl]) (simp add: hm_hdr_def hm_without_def ap)
  ultimately show ?thesis using q(1) dq by blast
qed

lemma hm_drop_ok:
  assumes own: "hm_owns m (x # xs)"
  shows "\<exists>m'. mem_drop_hdr m 0 x = Inr m' \<and> hm_owns m' xs"
proof -
  obtain q where q: "LIST_REMOVE (hm_q m) x = Inr q" "x \<in> dom (e_next q)" "hm_owns (hm_without m q x) xs"
    using hm_removed [of m "[]" x xs] own by auto
  obtain n v where "hm_strs m (hm_name m x) = Some n" "hm_strs m (hm_value m x) = Some v"
    using hm_strs_owned [OF own, of x] by auto
  moreover have "hm_name m x \<noteq> hm_value m x" using hm_strs_apart(1) [OF own] by simp
  ultimately have "mem_drop_hdr m 0 x = Inr (hm_without m q x)"
    using q(1,2) by (auto simp: mem_drop_hdr_def release_str_def release_hdr_def hm_without_def)
  with q(3) show ?thesis by blast
qed

interpretation hm: drainable "\<lambda>m q xs. q = 0 \<and> hm_owns m xs" "\<lambda>m q. LIST_FIRST (hm_q m) q" mem_drop_hdr "\<lambda>m x. m"
proof unfold_locales
  fix m q x xs
  show "q = 0 \<and> hm_owns m (x # xs) \<Longrightarrow> \<exists>m'. mem_drop_hdr m q x = Inr m' \<and> q = 0 \<and> hm_owns m' xs"
    using hm_drop_ok by blast
qed (auto simp: hm_owns_def repr_list_def LIST_FIRST_def)

lemma mem_free_hdrs_all:
  "hm_owns m xs \<Longrightarrow> \<exists>m'. mem_free_hdr_list m = Inr (m', xs) \<and> dom (e_next (hm_q m')) = {} \<and> dom (hm_strs m') = {}"
  using hm.drain_all [of 0 m xs "[]"] by (auto simp: mem_free_hdr_list_def hm_owns_def owned_def hm_fields_def)

text \<open>A header is added at the head.\<close>

lemma repr_list_malloc:
  "repr_list m 0 xs \<Longrightarrow> h \<notin> set xs \<Longrightarrow> repr_list (m\<lparr>e_next := (e_next m)(h \<mapsto> None)\<rparr>) 0 xs"
  by (simp add: repr_list_def)

lemma hm_addr_set [simp]:
  "hm_addr (set_name m h p v) = (hm_addr m)(Name_Of h := p)" "hm_addr (set_value m h p v) = (hm_addr m)(Value_Of h := p)"
  "hm_addr (malloc_hdr m h) = hm_addr m"
  by (rule ext, rename_tac f, case_tac f; simp add: set_name_def set_value_def malloc_hdr_def)+

lemma owned_with:
  assumes own: "owned ad bl (hm_fields S)" and h: "h \<notin> S" and fr: "bl np = None" "bl vp = None" "np \<noteq> vp"
  shows "owned (ad(Name_Of h := np, Value_Of h := vp)) (bl(np \<mapsto> name, vp \<mapsto> v)) (hm_fields (insert h S))"
proof -
  have "owned (ad(Name_Of h := np)) (bl(np \<mapsto> name)) (insert (Name_Of h) (hm_fields S))"
    using own h fr by (intro owned_alloc) simp_all
  from owned_alloc [OF this, of "Value_Of h" vp v]
  have "owned (ad(Name_Of h := np, Value_Of h := vp)) (bl(np \<mapsto> name, vp \<mapsto> v))
      (insert (Value_Of h) (insert (Name_Of h) (hm_fields S)))"
    using h fr by simp
  moreover have "insert (Value_Of h) (insert (Name_Of h) (hm_fields S)) = hm_fields (insert h S)"
    by (auto simp: hm_fields_def)
  ultimately show ?thesis by simp
qed

lemma hm_inserted:
  assumes own: "hm_owns m xs" and h: "e_next (hm_q m) h = None" and np: "hm_strs m np = None" and vp: "hm_strs m vp = None"
    and ne: "np \<noteq> vp"
  shows "\<exists>m1. insert_hdr m h np name = Inr m1 \<and> hm_owns (set_value m1 h vp v) (h # xs) \<and>
    hdrs_of (set_value m1 h vp v) (h # xs) = \<lparr>hdr_name = name, hdr_value = v\<rparr> # hdrs_of m xs"
proof -
  let ?q = "(hm_q m)\<lparr>e_next := (e_next (hm_q m))(h \<mapsto> None)\<rparr>"
  have hx: "h \<notin> set xs" using own h by (auto simp: hm_owns_def)
  have "repr_list ?q 0 xs" using own hx by (simp add: hm_owns_def repr_list_malloc)
  from list_insert_head [OF this hx] obtain q where q: "LIST_INSERT_HEAD ?q 0 h = Inr q" "repr_list q 0 (h # xs)"
    "same_outside ?q q {0} (insert h (set xs))" by auto
  have dq: "dom (e_next q) = insert h (set xs)" using q(3) own by (auto simp: same_outside_def hm_owns_def)
  have fr: "np \<noteq> hm_name m x" "np \<noteq> hm_value m x" "vp \<noteq> hm_name m x" "vp \<noteq> hm_value m x" if "x \<in> set xs" for x
    using hm_strs_owned [OF own that] np vp by (metis option.distinct(1))+
  let ?m1 = "(set_name (malloc_hdr m h) h np name)\<lparr>hm_q := q\<rparr>"
  have "insert_hdr m h np name = Inr ?m1" using q(1) by (simp add: insert_hdr_def set_name_def malloc_hdr_def)
  moreover have "hdrs_of (set_value ?m1 h vp v) (h # xs) = \<lparr>hdr_name = name, hdr_value = v\<rparr> # hdrs_of m xs"
    using hx fr ne by (auto simp: hdrs_of_def hm_hdr_def set_value_def set_name_def malloc_hdr_def)
  moreover have "hm_owns (set_value ?m1 h vp v) (h # xs)"
    using owned_with [of "hm_addr m" "hm_strs m" "set xs" h np vp name v] own q(2) dq hx np vp ne
    by (simp add: hm_owns_def) (simp add: set_value_def set_name_def malloc_hdr_def)
  ultimately show ?thesis by blast
qed

text \<open>The value of a header is replaced.\<close>

lemma hm_replaced:
  assumes own: "hm_owns m (ys @ x # zs)" and vp: "hm_strs m vp = None \<or> vp = hm_value m x"
  shows "\<exists>m1. release_str m (hm_value m x) = Inr m1 \<and> hm_owns (set_value m1 x vp v) (ys @ x # zs) \<and>
    hdrs_of (set_value m1 x vp v) (ys @ x # zs) = hdrs_of m ys @ (hm_hdr m x)\<lparr>hdr_value := v\<rparr> # hdrs_of m zs"
proof -
  let ?xs = "ys @ x # zs" and ?K = "hm_fields (set (ys @ x # zs))" and ?m1 = "m\<lparr>hm_strs := (hm_strs m)(hm_value m x := None)\<rparr>"
  have x: "x \<notin> set ys" "x \<notin> set zs" using own by (auto simp: hm_owns_def repr_list_def)
  have o1: "owned (hm_addr m) ((hm_strs m)(hm_value m x := None)) (?K - {Value_Of x})"
    using owned_free [of "hm_addr m" "hm_strs m" ?K "Value_Of x"] own by (simp add: hm_owns_def)
  have vp1: "((hm_strs m)(hm_value m x := None)) vp = None" using vp by auto
  have "insert (Value_Of x) (?K - {Value_Of x}) = ?K" by (auto simp: hm_fields_def)
  moreover have "owned ((hm_addr m)(Value_Of x := vp)) ((hm_strs m)(hm_value m x := None, vp \<mapsto> v))
      (insert (Value_Of x) (?K - {Value_Of x}))" by (rule owned_alloc [OF o1 _ vp1]) simp
  ultimately have ow: "hm_owns (set_value ?m1 x vp v) ?xs" using own by (simp add: hm_owns_def) (simp add: set_value_def)
  have ap: "vp \<noteq> hm_name m y" "hm_name m y \<noteq> hm_value m x" "y \<noteq> x \<Longrightarrow> vp \<noteq> hm_value m y"
    "y \<noteq> x \<Longrightarrow> hm_value m y \<noteq> hm_value m x"
    if "y \<in> set ?xs" for y
    using owned_fresh [OF o1 vp1, of "Name_Of y"] owned_fresh [OF o1 vp1, of "Value_Of y"] that
      hm_strs_apart [OF own that, of x] by auto
  have "hm_hdr (set_value ?m1 x vp v) y = hm_hdr m y" if "y \<in> set ?xs" "y \<noteq> x" for y
    using ap [OF that(1)] that(2) by (simp add: hm_hdr_def set_value_def)
  then have "map (hm_hdr (set_value ?m1 x vp v)) ys = map (hm_hdr m) ys" "map (hm_hdr (set_value ?m1 x vp v)) zs = map (hm_hdr m) zs"
    using x by auto
  then have "hdrs_of (set_value ?m1 x vp v) ?xs = hdrs_of m ys @ (hm_hdr m x)\<lparr>hdr_value := v\<rparr> # hdrs_of m zs"
    using ap(1,2) [of x] by (simp add: hdrs_of_def) (simp add: hm_hdr_def set_value_def)
  moreover obtain v' where "hm_strs m (hm_value m x) = Some v'" using hm_strs_owned [OF own, of x] by auto
  then have "release_str m (hm_value m x) = Inr ?m1" by (simp add: release_str_def)
  ultimately show ?thesis using ow by blast
qed

lemma hm_upd_order: "m\<lparr>hm_strs := t, hm_q := q\<rparr> = m\<lparr>hm_q := q, hm_strs := t\<rparr>"
  by simp

lemma hm_delete_ok:
  assumes own: "hm_owns m (ys @ x # zs)"
  shows "\<exists>q m1 m2 m3. LIST_REMOVE (hm_q m) x = Inr q \<and> release_str (m\<lparr>hm_q := q\<rparr>) (hm_value m x) = Inr m1 \<and>
    release_str m1 (hm_name m1 x) = Inr m2 \<and> release_hdr m2 x = Inr m3 \<and> hm_owns m3 (ys @ zs) \<and>
    hdrs_of m3 (ys @ zs) = hdrs_of m (ys @ zs)"
proof -
  obtain q where q: "LIST_REMOVE (hm_q m) x = Inr q" "x \<in> dom (e_next q)" "hm_owns (hm_without m q x) (ys @ zs)"
    "hdrs_of (hm_without m q x) (ys @ zs) = hdrs_of m (ys @ zs)"
    using hm_removed [OF own] by auto
  obtain n v where "hm_strs m (hm_name m x) = Some n" "hm_strs m (hm_value m x) = Some v"
    using hm_strs_owned [OF own, of x] by auto
  moreover have "hm_name m x \<noteq> hm_value m x" using hm_strs_apart(1) [OF own] by simp
  ultimately show ?thesis
    using q by (auto simp: release_str_def release_hdr_def hm_without_def fun_upd_twist hm_upd_order)
qed

section \<open>Operation sequences\<close>

datatype hdr_op =
    Hdr_Add nat nat nat string string nat
  | Hdr_Set nat nat nat string "string option"

text \<open>One call, by a caller whose strings are its own.\<close>

primrec hdr_step :: "hdr_mem \<Rightarrow> hdr_op \<Rightarrow> ub + hdr_mem" where
  "hdr_step m (Hdr_Add h np vp name val vallen) = mem_add_http_header m h np vp name val vallen"
| "hdr_step m (Hdr_Set h np vp name val) = mem_set_http_header m h np vp name (map_option Foreign val)"

primrec hdr_spec :: "um_header_list \<Rightarrow> hdr_op \<Rightarrow> um_header_list" where
  "hdr_spec hl (Hdr_Add h np vp name val vallen) = add_http_header hl name val vallen"
| "hdr_spec hl (Hdr_Set h np vp name val) = set_http_header hl name val"

text \<open>
  The allocations return memory that is not in use; removing a header makes none. When a value is replaced, the old value is freed first, and the new one may
  be where it was.
\<close>

definition new_hdr_fresh :: "hdr_mem \<Rightarrow> nat \<Rightarrow> nat \<Rightarrow> nat \<Rightarrow> bool" where
  "new_hdr_fresh m h np vp \<longleftrightarrow> e_next (hm_q m) h = None \<and> hm_strs m np = None \<and> hm_strs m vp = None \<and> np \<noteq> vp"

primrec hdr_fresh :: "hdr_mem \<Rightarrow> hdr_op \<Rightarrow> bool" where
  "hdr_fresh m (Hdr_Add h np vp name val vallen) \<longleftrightarrow> new_hdr_fresh m h np vp"
| "hdr_fresh m (Hdr_Set h np vp name val) \<longleftrightarrow> val = None \<or>
     (case mem_hdr_find m name of
        Inl u \<Rightarrow> True
      | Inr None \<Rightarrow> new_hdr_fresh m h np vp
      | Inr (Some x) \<Rightarrow> hm_strs m vp = None \<or> vp = hm_value m x)"

primrec hdr_mallocs_fresh :: "hdr_mem \<Rightarrow> hdr_op list \<Rightarrow> bool" where
  "hdr_mallocs_fresh m [] \<longleftrightarrow> True"
| "hdr_mallocs_fresh m (x # xs) \<longleftrightarrow>
     hdr_fresh m x \<and> (case hdr_step m x of Inl u \<Rightarrow> True | Inr m' \<Rightarrow> hdr_mallocs_fresh m' xs)"

lemma mem_add_refines:
  assumes "hm_owns m xs" and "new_hdr_fresh m h np vp"
  shows "\<exists>m'. mem_add_http_header m h np vp name val vallen = Inr m' \<and> hm_owns m' (h # xs) \<and>
    hdrs_of m' (h # xs) = add_http_header (hdrs_of m xs) name val vallen"
  using hm_inserted [OF assms(1), of h np vp name "c_strndup val vallen"] assms(2)
  by (auto simp: new_hdr_fresh_def mem_add_http_header_def add_http_header_def)

lemma mem_set_refines:
  assumes own: "hm_owns m xs" and fr: "hdr_fresh m (Hdr_Set h np vp name val)"
  shows "\<exists>m' xs'. mem_set_http_header m h np vp name (map_option Foreign val) = Inr m' \<and> hm_owns m' xs' \<and>
    hdrs_of m' xs' = set_http_header (hdrs_of m xs) name val"
proof (cases "hdr_find (hdrs_of m xs) name")
  case None
  then have f: "mem_hdr_find m name = Inr None" by (simp add: mem_hdr_find_refines [OF own])
  show ?thesis
  proof (cases val)
    case None
    with f \<open>hdr_find _ _ = None\<close> own show ?thesis by (auto simp: mem_set_http_header_def set_http_header_def)
  next
    case (Some v)
    with f fr hm_inserted [OF own, of h np vp name v] None show ?thesis
      by (auto simp: mem_set_http_header_def set_http_header_def new_hdr_fresh_def str_read_def)
  qed
next
  case (Some i)
  then have i: "i < length xs" using hdr_find_Some by (fastforce simp: hdrs_of_def)
  let ?x = "xs ! i" and ?ys = "take i xs" and ?zs = "drop (Suc i) xs"
  have xs: "xs = ?ys @ ?x # ?zs" using i by (simp add: id_take_nth_drop)
  have f: "mem_hdr_find m name = Inr (Some ?x)" using Some by (simp add: mem_hdr_find_refines [OF own])
  have o: "hm_owns m (?ys @ ?x # ?zs)" using own xs by simp
  show ?thesis
  proof (cases val)
    case None
    from hm_delete_ok [OF o] obtain q m1 m2 m3 where "LIST_REMOVE (hm_q m) ?x = Inr q"
      "release_str (m\<lparr>hm_q := q\<rparr>) (hm_value m ?x) = Inr m1" "release_str m1 (hm_name m1 ?x) = Inr m2" "release_hdr m2 ?x = Inr m3"
      and m3: "hm_owns m3 (?ys @ ?zs)" "hdrs_of m3 (?ys @ ?zs) = hdrs_of m (?ys @ ?zs)" by blast
    then have "mem_set_http_header m h np vp name (map_option Foreign val) = Inr m3"
      using f None by (simp add: mem_set_http_header_def)
    moreover have "hdrs_of m (?ys @ ?zs) = set_http_header (hdrs_of m xs) name val"
      using Some None by (simp add: set_http_header_def) (simp add: hdrs_of_def take_map drop_map)
    ultimately show ?thesis using m3 by metis
  next
    case (Some v)
    have "hm_strs m vp = None \<or> vp = hm_value m ?x" using fr f Some by simp
    from hm_replaced [OF o this, of v] obtain m1 where m1: "release_str m (hm_value m ?x) = Inr m1"
      "hm_owns (set_value m1 ?x vp v) xs" "hdrs_of (set_value m1 ?x vp v) xs = hdrs_of m ?ys @ (hm_hdr m ?x)\<lparr>hdr_value := v\<rparr> # hdrs_of m ?zs"
      using xs by auto
    then have "mem_set_http_header m h np vp name (map_option Foreign val) = Inr (set_value m1 ?x vp v)"
      using f Some by (simp add: mem_set_http_header_def str_read_def)
    moreover have "hdrs_of m ?ys @ (hm_hdr m ?x)\<lparr>hdr_value := v\<rparr> # hdrs_of m ?zs = set_http_header (hdrs_of m xs) name val"
      using \<open>hdr_find _ _ = Some i\<close> Some i
      by (simp add: set_http_header_def) (simp add: hdrs_of_def upd_conv_take_nth_drop take_map drop_map)
    ultimately show ?thesis using m1(2,3) by metis
  qed
qed

lemma hdr_run_refines:
  "hm_owns m xs \<Longrightarrow> hdr_mallocs_fresh m ops \<Longrightarrow>
     \<exists>m' xs'. ub_run hdr_step m ops = Inr m' \<and> hm_owns m' xs' \<and> hdrs_of m' xs' = foldl hdr_spec (hdrs_of m xs) ops"
proof (induction ops arbitrary: m xs)
  case Nil
  then show ?case by auto
next
  case (Cons x ops)
  then have "\<exists>m1 xs1. hdr_step m x = Inr m1 \<and> hm_owns m1 xs1 \<and> hdrs_of m1 xs1 = hdr_spec (hdrs_of m xs) x"
    using mem_add_refines mem_set_refines by (cases x) (fastforce simp: hdr_fresh.simps(1))+
  then obtain m1 xs1 where m1: "hdr_step m x = Inr m1" "hm_owns m1 xs1" "hdrs_of m1 xs1 = hdr_spec (hdrs_of m xs) x" by blast
  with Cons.IH [OF m1(2)] Cons.prems(2) show ?case by simp
qed

lemma hdr_lookup_find:
  "tlsuv_http_resp_header hl name = map_option (\<lambda>i. hdr_value (hl ! i)) (hdr_find hl name)"
  by (induction hl) (simp_all add: option.map_comp comp_def)

lemma mem_lookup_refines:
  assumes own: "hm_owns m xs"
  shows "mem_resp_header m name = Inr (tlsuv_http_resp_header (hdrs_of m xs) name)"
proof (cases "hdr_find (hdrs_of m xs) name")
  case None
  then show ?thesis by (simp add: mem_resp_header_def mem_hdr_find_refines [OF own] hdr_lookup_find)
next
  case (Some i)
  then have i: "i < length xs" using hdr_find_Some by (fastforce simp: hdrs_of_def)
  then obtain v where "hm_strs m (hm_value m (xs ! i)) = Some v" using hm_strs_owned [OF own, of "xs ! i"] by auto
  with Some i show ?thesis
    by (simp add: mem_resp_header_def mem_hdr_find_refines [OF own] hdr_lookup_find) (simp add: hdrs_of_def hm_hdr_def)
qed

lemma free_hdr_list_all: "free_hdr_list hl = (hl, [])"
  by (induction hl) simp_all

text \<open>
  The strings have to be the caller's own: \<open>set_http_header\<close> frees the old value before it copies the new one, so that a header
  cannot be set to its own value.
\<close>

lemma set_own_value_bad:
  assumes own: "hm_owns m xs" and i: "hdr_find (hdrs_of m xs) name = Some i"
  shows "mem_set_http_header m h np vp name (Some (Stored (hm_value m (xs ! i)))) = Inl Bad_Pointer"
proof -
  have "i < length xs" using hdr_find_Some [OF i] by (simp add: hdrs_of_def)
  then obtain v where "hm_strs m (hm_value m (xs ! i)) = Some v" using hm_strs_owned [OF own, of "xs ! i"] by auto
  then show ?thesis
    by (simp add: mem_set_http_header_def mem_hdr_find_refines [OF own] i release_str_def str_read_def)
qed

section \<open>Properties\<close>

text \<open>
  C10. The memory of header lists. Starting with an empty list, whatever headers are added, set, replaced and removed: as long as the
  allocations return unused memory, no operation follows a bad pointer, frees memory twice or loops, and afterwards every lookup
  returns what it returns on the list of headers that the same operations make. Freeing the list frees its headers in order and leaves no
  header, no name and no value in memory.
\<close>

theorem header_memory_safe:
  assumes "hdr_mallocs_fresh mem_hdr_new ops"
  shows "\<exists>m. ub_run hdr_step mem_hdr_new ops = Inr m \<and>
    (\<forall>name. mem_resp_header m name = Inr (tlsuv_http_resp_header (foldl hdr_spec [] ops) name)) \<and>
    (\<exists>m' xs. mem_free_hdr_list m = Inr (m', xs) \<and> map (hm_hdr m) xs = fst (free_hdr_list (foldl hdr_spec [] ops)) \<and>
       dom (e_next (hm_q m')) = {} \<and> dom (hm_strs m') = {})"
proof -
  obtain m xs where m: "ub_run hdr_step mem_hdr_new ops = Inr m" "hm_owns m xs" "hdrs_of m xs = foldl hdr_spec [] ops"
    using hdr_run_refines [OF hm_new_owns assms] by (auto simp: hdrs_of_def)
  with mem_free_hdrs_all [OF m(2)] mem_lookup_refines [OF m(2)] show ?thesis
    by (auto simp: free_hdr_list_all hdrs_of_def [symmetric])
qed

definition sample_hdr_ops :: "hdr_op list" where
  "sample_hdr_ops =
     [Hdr_Set 1 11 12 ''Host'' (Some ''a''), Hdr_Add 2 13 14 ''Via'' ''bcd'' 2, Hdr_Set 0 0 12 ''host'' (Some ''x''),
      Hdr_Set 0 0 0 ''via'' None, Hdr_Set 2 14 13 ''Via'' (Some ''y'')]"

theorem header_memory_safe_witness:
  "\<exists>m. ub_run hdr_step mem_hdr_new sample_hdr_ops = Inr m \<and> mem_resp_header m ''HOST'' = Inr (Some ''x'') \<and>
     mem_resp_header m ''VIA'' = Inr (Some ''y'') \<and> (\<exists>m' xs. mem_free_hdr_list m = Inr (m', xs) \<and> dom (hm_strs m') = {})"
proof -
  have "hdr_mallocs_fresh mem_hdr_new sample_hdr_ops" by code_simp
  moreover have "tlsuv_http_resp_header (foldl hdr_spec [] sample_hdr_ops) ''HOST'' = Some ''x''"
    "tlsuv_http_resp_header (foldl hdr_spec [] sample_hdr_ops) ''VIA'' = Some ''y''" by code_simp+
  ultimately show ?thesis using header_memory_safe [of sample_hdr_ops] by auto
qed

end
