(* ===== verification/Mbed_P11.thy ===== *)
theory Mbed_P11
  imports P11 Mbed_Cert
begin

text \<open>
  Token keys of the mbedTLS engine, from \<open>src/mbedtls/mbed_p11.c\<close>, \<open>p11_ecdsa.c\<close> and \<open>p11_rsa.c\<close>, and \<open>mbedtls_set_own_cert_p11\<close> of
  \<open>src/mbedtls/engine.c\<close>. Nothing in the library calls this code. The driver of the token is the parameter of the model of
  \<open>p11.c\<close>, the TLS library that of \<open>Mbed_Cert\<close>; error codes are below \<open>2^31\<close>.
\<close>

section \<open>Data\<close>

definition CKR_KEY_HANDLE_INVALID :: nat where "CKR_KEY_HANDLE_INVALID = 96"
definition CKR_BUFFER_TOO_SMALL :: nat where "CKR_BUFFER_TOO_SMALL = 336"
definition CKM_RSA_PKCS :: nat where "CKM_RSA_PKCS = 1"
definition CKM_ECDSA_SHA1 :: nat where "CKM_ECDSA_SHA1 = 4162"
definition CKM_ECDSA_SHA224 :: nat where "CKM_ECDSA_SHA224 = 4163"
definition CKM_ECDSA_SHA256 :: nat where "CKM_ECDSA_SHA256 = 4164"
definition CKM_ECDSA_SHA384 :: nat where "CKM_ECDSA_SHA384 = 4165"
definition CKM_ECDSA_SHA512 :: nat where "CKM_ECDSA_SHA512 = 4166"

declare CKR_KEY_HANDLE_INVALID_def [ck_codes] CKR_BUFFER_TOO_SMALL_def [ck_codes] CKM_RSA_PKCS_def [ck_codes]
  CKM_ECDSA_SHA1_def [ck_codes] CKM_ECDSA_SHA224_def [ck_codes] CKM_ECDSA_SHA256_def [ck_codes]
  CKM_ECDSA_SHA384_def [ck_codes] CKM_ECDSA_SHA512_def [ck_codes]

definition ERR_PK_KEY_INVALID_FORMAT :: int where "ERR_PK_KEY_INVALID_FORMAT = - 0x3D00"
definition ERR_PLATFORM_HW_ACCEL_FAILED :: int where "ERR_PLATFORM_HW_ACCEL_FAILED = - 0x0070"
definition ERR_RSA_BAD_INPUT_DATA :: int where "ERR_RSA_BAD_INPUT_DATA = - 0x4080"

text \<open>The one context of the file: \<open>mp_lib\<close> tells whether a driver was loaded, \<open>mp_funcs\<close> are its functions.\<close>

record mp11_context =
  mp_lib :: bool
  mp_funcs :: "p11_driver option"
  mp_session :: nat
  mp_slot_id :: nat

definition mp11_zero :: mp11_context where
  "mp11_zero = \<lparr>mp_lib = False, mp_funcs = None, mp_session = 0, mp_slot_id = 0\<rparr>"

text \<open>Public keys: modulus and exponent, or the bits of a curve and a point, if it could be read.\<close>

datatype mp11_pub = Rsa_Pub nat nat | Ec_Pub nat "byte list option"

record mp11_key_ctx =
  mk_priv_handle :: nat
  mk_pub_handle :: nat
  mk_sign_mechanism :: nat
  mk_pub :: "mp11_pub option"

datatype pk_kind = PK_RSA | PK_ECDSA

text \<open>What is left in the key context of the library: its kind, and the token key as its data.\<close>

record mp11_pk =
  pk_info :: pk_kind
  pk_ctx :: mp11_key_ctx

section \<open>Opening the token\<close>

definition mp11_init :: "p11_driver option \<Rightarrow> string option \<Rightarrow> string \<Rightarrow> ub + int \<times> mp11_context" where
  "mp11_init lib slot pin =
     (case lib of
        None \<Rightarrow> Inr (int CKR_FUNCTION_FAILED, mp11_zero)
      | Some d \<Rightarrow>
          (let c1 = mp11_zero\<lparr>mp_lib := True\<rparr> in
           case function_list d of
             None \<Rightarrow> Inr (int CKR_LIBRARY_LOAD_FAILED, c1)
           | Some rc \<Rightarrow>
               if rc \<noteq> CKR_OK then Inr (int rc, c1)
               else
                 (let c2 = c1\<lparr>mp_funcs := Some d\<rparr> in
                  if C_Initialize d \<noteq> CKR_OK then Inr (int (C_Initialize d), c2)
                  else ub_bind (p11_slot d slot) (\<lambda>r.
                    case r of
                      Inl rc2 \<Rightarrow> Inr (int rc2, c2)
                    | Inr slot_id \<Rightarrow>
                        (let c3 = c2\<lparr>mp_slot_id := slot_id\<rparr>; (rc3, session) = C_OpenSession d slot_id
                         in if rc3 \<noteq> CKR_OK then Inr (int rc3, c3)
                            else Inr (int (C_Login d session pin), c3\<lparr>mp_session := session\<rparr>))))))"

section \<open>Elliptic curve keys\<close>

text \<open>
  Two attributes read into buffers of \<open>n1\<close> and \<open>n2\<close> bytes.
\<close>

definition two_attrs :: "p11_driver \<Rightarrow> nat \<Rightarrow> ck_attr \<Rightarrow> nat \<Rightarrow> ck_attr \<Rightarrow> nat \<Rightarrow> nat + byte list \<times> byte list" where
  "two_attrs d h a1 n1 a2 n2 =
     (let (rc1, v1) = C_GetAttributeValue d h a1; (rc2, v2) = C_GetAttributeValue d h a2
      in if rc1 \<noteq> CKR_OK then Inl rc1
         else if rc2 \<noteq> CKR_OK then Inl rc2
         else if length v1 > n1 \<or> length v2 > n2 then Inl CKR_BUFFER_TOO_SMALL
         else Inr (v1, v2))"

definition asn1_content :: "('x, 'k) mbed_x509_lib \<Rightarrow> byte list \<Rightarrow> byte \<Rightarrow> byte list option" where
  "asn1_content lib p tag = (case asn1_get_tag lib p tag of Inl rc \<Rightarrow> None | Inr (len, q) \<Rightarrow> Some (take len q))"

definition ecdsa_mechanism :: "nat \<Rightarrow> nat" where
  "ecdsa_mechanism pbits =
     (if pbits = 512 then CKM_ECDSA_SHA512
      else if pbits = 384 then CKM_ECDSA_SHA384
      else if pbits = 256 then CKM_ECDSA_SHA256
      else if pbits = 224 then CKM_ECDSA_SHA224
      else CKM_ECDSA_SHA1)"

text \<open>
  \<open>group_bits\<close> gives the size of the curve that the library finds for an object identifier (\<open>None\<close>: the identifier could not be
  read, which the code does not notice), and \<open>max_pt\<close> is \<open>MBEDTLS_ECP_MAX_PT_LEN\<close>. The results are a code and the key context.
\<close>

definition p11_load_ecdsa ::
  "('x, 'k) mbed_x509_lib \<Rightarrow> (byte list option \<Rightarrow> nat) \<Rightarrow> nat \<Rightarrow> p11_driver \<Rightarrow> nat \<Rightarrow> mp11_key_ctx \<Rightarrow> int \<times> mp11_pk" where
  "p11_load_ecdsa lib group_bits max_pt d slot_id key =
     (case two_attrs d (mk_pub_handle key) CKA_EC_PARAMS 32 CKA_EC_POINT max_pt of
        Inl rc \<Rightarrow> (ERR_PK_KEY_INVALID_FORMAT, \<lparr>pk_info = PK_ECDSA, pk_ctx = key\<rparr>)
      | Inr (ec_param, ec_point) \<Rightarrow>
          (let pbits = group_bits (asn1_content lib ec_param ASN1_OID);
               key1 = key\<lparr>mk_pub := Some (Ec_Pub pbits (asn1_content lib ec_point 0x04))\<rparr>;
               mech1 = ecdsa_mechanism pbits;
               mech = (if fst (C_GetMechanismInfo d slot_id mech1) \<noteq> CKR_OK then CKM_ECDSA else mech1)
           in if fst (C_GetMechanismInfo d slot_id mech) \<noteq> CKR_OK
              then (ERR_PK_KEY_INVALID_FORMAT, \<lparr>pk_info = PK_ECDSA, pk_ctx = key1\<rparr>)
              else (0, \<lparr>pk_info = PK_ECDSA, pk_ctx = key1\<lparr>mk_sign_mechanism := mech\<rparr>\<rparr>)))"

definition p11_ecdsa_can_do :: "pk_kind \<Rightarrow> bool" where
  "p11_ecdsa_can_do type \<longleftrightarrow> type = PK_ECDSA"

text \<open>The signature in standard form, or \<open>None\<close> when it does not fit into \<open>max_len\<close> bytes.\<close>

definition ecdsa_signature_to_asn1 :: "('x, 'k) mbed_x509_lib \<Rightarrow> nat \<Rightarrow> nat \<Rightarrow> nat \<Rightarrow> byte list option" where
  "ecdsa_signature_to_asn1 lib max_len r s =
     (let body = asn1_mpi lib r @ asn1_mpi lib s;
          out = ASN1_SEQUENCE # asn1_len lib (length body) @ body
      in if length out > max_len then None else Some out)"

text \<open>The results are a code and what is written to \<open>sig\<close>, if anything is.\<close>

definition p11_ecdsa_sign ::
  "('x, 'k) mbed_x509_lib \<Rightarrow> nat \<Rightarrow> nat \<Rightarrow> p11_driver \<Rightarrow> mp11_key_ctx \<Rightarrow> byte list \<Rightarrow> int \<times> byte list option" where
  "p11_ecdsa_sign lib max_pt max_len d key hash =
     (if C_SignInit d (mk_sign_mechanism key) (mk_priv_handle key) \<noteq> CKR_OK then (ERR_PLATFORM_HW_ACCEL_FAILED, None)
      else
        (let (rc, rawsig) = C_Sign d hash max_pt
         in if rc \<noteq> CKR_OK then (ERR_PLATFORM_HW_ACCEL_FAILED, None)
            else
              (let coordlen = length rawsig div 2
               in (0, ecdsa_signature_to_asn1 lib max_len (bin_value (take coordlen rawsig))
                        (bin_value (take coordlen (drop coordlen rawsig)))))))"

definition p11_ecdsa_bitlen :: "mp11_key_ctx \<Rightarrow> ub + nat" where
  "p11_ecdsa_bitlen key = (case mk_pub key of Some (Ec_Pub pbits p) \<Rightarrow> Inr pbits | _ \<Rightarrow> Inl Bad_Pointer)"

section \<open>RSA keys\<close>

definition p11_load_rsa :: "p11_driver \<Rightarrow> nat \<Rightarrow> mp11_key_ctx \<Rightarrow> int \<times> mp11_pk" where
  "p11_load_rsa d slot_id key =
     (let (rc1, e) = C_GetAttributeValue d (mk_pub_handle key) CKA_PUBLIC_EXPONENT;
          (rc2, n) = C_GetAttributeValue d (mk_pub_handle key) CKA_MODULUS
      in if rc1 \<noteq> CKR_OK \<or> rc2 \<noteq> CKR_OK then (ERR_PK_KEY_INVALID_FORMAT, \<lparr>pk_info = PK_RSA, pk_ctx = key\<rparr>)
         else if fst (C_GetMechanismInfo d slot_id CKM_RSA_PKCS) \<noteq> CKR_OK
         then (ERR_PK_KEY_INVALID_FORMAT, \<lparr>pk_info = PK_RSA, pk_ctx = key\<rparr>)
         else (0, \<lparr>pk_info = PK_RSA,
                   pk_ctx = key\<lparr>mk_sign_mechanism := CKM_RSA_PKCS, mk_pub := Some (Rsa_Pub (bin_value n) (bin_value e))\<rparr>\<rparr>))"

definition p11_rsa_can_do :: "pk_kind \<Rightarrow> bool" where
  "p11_rsa_can_do type \<longleftrightarrow> type = PK_ECDSA"

datatype md_type = MD_NONE | MD_MD5 | MD_SHA1 | MD_SHA224 | MD_SHA256 | MD_SHA384 | MD_SHA512 | MD_RIPEMD160

text \<open>The prefixes of the source, in decimal.\<close>

definition HASH_HEADERS :: "(md_type \<times> byte list) list" where
  "HASH_HEADERS =
     [(MD_MD5, [48, 32, 48, 12, 6, 8, 42, 134, 72, 134, 247, 13, 2, 5, 5, 0, 4, 16]),
      (MD_SHA1, [48, 33, 48, 9, 6, 5, 43, 14, 3, 2, 26, 5, 0, 4, 20]),
      (MD_SHA224, [48, 45, 48, 13, 6, 9, 96, 134, 72, 1, 101, 3, 4, 2, 4, 5, 0, 4, 28]),
      (MD_SHA256, [48, 49, 48, 13, 6, 9, 96, 134, 72, 1, 101, 3, 4, 2, 1, 5, 0, 4, 32]),
      (MD_SHA384, [48, 65, 48, 13, 6, 9, 96, 134, 72, 1, 101, 3, 4, 2, 2, 5, 0, 4, 48]),
      (MD_SHA512, [48, 81, 48, 13, 6, 9, 96, 134, 72, 1, 101, 3, 4, 2, 3, 5, 0, 4, 64]),
      (MD_RIPEMD160, [48, 32, 48, 8, 6, 6, 40, 207, 6, 3, 0, 49, 4, 20])]"

definition get_md_prefix :: "md_type \<Rightarrow> byte list option" where
  "get_md_prefix md = map_of HASH_HEADERS md"

text \<open>\<open>md_size\<close> is the length of a digest, if the library has it; the length that the caller gives is not used.\<close>

definition p11_rsa_sign ::
  "(md_type \<Rightarrow> nat option) \<Rightarrow> p11_driver \<Rightarrow> mp11_key_ctx \<Rightarrow> md_type \<Rightarrow> byte list \<Rightarrow> ub + int \<times> byte list option" where
  "p11_rsa_sign md_size d key md hash =
     (case md_size md of
        None \<Rightarrow> Inr (ERR_RSA_BAD_INPUT_DATA, None)
      | Some hash_len \<Rightarrow>
          (case get_md_prefix md of
             None \<Rightarrow> Inr (ERR_PLATFORM_HW_ACCEL_FAILED, None)
           | Some oid \<Rightarrow>
               if length hash < hash_len then Inl Out_Of_Bounds_Read
               else if C_SignInit d (mk_sign_mechanism key) (mk_priv_handle key) \<noteq> CKR_OK
               then Inr (ERR_PLATFORM_HW_ACCEL_FAILED, None)
               else
                 (let (rc, rawsig) = C_Sign d (oid @ take hash_len hash) 4096
                  in if rc \<noteq> CKR_OK then Inr (ERR_PLATFORM_HW_ACCEL_FAILED, None) else Inr (0, Some rawsig))))"

text \<open>The bytes of a number.\<close>

fun mpi_size :: "nat \<Rightarrow> nat" where
  "mpi_size n = (if n = 0 then 0 else Suc (mpi_size (n div 256)))"

declare mpi_size.simps [simp del]

definition p11_rsa_bitlen :: "mp11_key_ctx \<Rightarrow> ub + nat" where
  "p11_rsa_bitlen key = (case mk_pub key of Some (Rsa_Pub n e) \<Rightarrow> Inr (8 * mpi_size n) | _ \<Rightarrow> Inl Bad_Pointer)"

section \<open>Finding a key\<close>

text \<open>
  The key with the identifier, or any key when the text is empty. \<open>junk\<close> is what is in the buffer for the identifier before.
  The results are a code, and the key context of the library when it was touched.
\<close>

definition mp11_find :: "p11_driver \<Rightarrow> mp11_context \<Rightarrow> nat \<Rightarrow> template \<Rightarrow> nat + nat option" where
  "mp11_find d ctx cls ident =
     fst (p11_search \<lparr>p11_driver_of = d, p11_session = mp_session ctx, p11_slot_id = mp_slot_id ctx\<rparr>
            ((CKA_CLASS, Ck_Ulong cls) # ident))"

definition mp11_load_type ::
  "('x, 'k) mbed_x509_lib \<Rightarrow> (byte list option \<Rightarrow> nat) \<Rightarrow> nat \<Rightarrow> p11_driver \<Rightarrow> mp11_context \<Rightarrow> mp11_key_ctx \<Rightarrow> int \<times> mp11_pk option" where
  "mp11_load_type lib group_bits max_pt d ctx key =
     (let (rc, type) = key_type_of d (mk_priv_handle key)
      in if rc \<noteq> CKR_OK then (int rc, None)
         else if type = CKK_EC then map_prod id Some (p11_load_ecdsa lib group_bits max_pt d (mp_slot_id ctx) key)
         else if type = CKK_RSA then map_prod id Some (p11_load_rsa d (mp_slot_id ctx) key)
         else (int CKR_KEY_HANDLE_INVALID, None))"

definition mp11_get_key ::
  "('x, 'k) mbed_x509_lib \<Rightarrow> (byte list option \<Rightarrow> nat) \<Rightarrow> nat \<Rightarrow> (nat \<Rightarrow> byte) \<Rightarrow> mp11_context \<Rightarrow> string option \<Rightarrow>
     ub + int \<times> mp11_pk option" where
  "mp11_get_key lib group_bits max_pt junk ctx idstr =
     (case idstr of
        None \<Rightarrow> Inr (int CKR_KEY_NEEDED, None)
      | Some text \<Rightarrow>
          ub_bind (if text = [] then Inr [] else ub_bind (p11_key_id junk text) (\<lambda>ident. Inr [(CKA_ID, Ck_Bytes ident)])) (\<lambda>q.
            case mp_funcs ctx of
              None \<Rightarrow> Inl Null_Deref
            | Some d \<Rightarrow>
                (case mp11_find d ctx CKO_PRIVATE_KEY q of
                   Inl rc \<Rightarrow> Inr (int rc, None)
                 | Inr None \<Rightarrow> Inr (int CKR_KEY_NEEDED, None)
                 | Inr (Some privh) \<Rightarrow>
                     (case mp11_find d ctx CKO_PUBLIC_KEY q of
                        Inl rc \<Rightarrow> Inr (int rc, None)
                      | Inr None \<Rightarrow> Inr (int CKR_KEY_NEEDED, None)
                      | Inr (Some pubh) \<Rightarrow>
                          Inr (mp11_load_type lib group_bits max_pt d ctx
                                 \<lparr>mk_priv_handle = privh, mk_pub_handle = pubh, mk_sign_mechanism = 0, mk_pub = None\<rparr>)))))"

text \<open>The context is opened by the first call.\<close>

definition mp11_load_key ::
  "('x, 'k) mbed_x509_lib \<Rightarrow> (byte list option \<Rightarrow> nat) \<Rightarrow> nat \<Rightarrow> (nat \<Rightarrow> byte) \<Rightarrow> mp11_context \<Rightarrow> p11_driver option \<Rightarrow> string \<Rightarrow>
     string option \<Rightarrow> string option \<Rightarrow> ub + int \<times> mp11_pk option \<times> mp11_context" where
  "mp11_load_key lib group_bits max_pt junk ctx driver pin slot key_id =
     ub_bind (if \<not> mp_lib ctx then mp11_init driver slot pin else Inr (0, ctx)) (\<lambda>(rc, ctx1).
       if rc \<noteq> 0 then Inr (rc, None, ctx1)
       else ub_bind (mp11_get_key lib group_bits max_pt junk ctx1 key_id) (\<lambda>(rc2, pk). Inr (rc2, pk, ctx1)))"

text \<open>
  A key of a token together with its certificate, for a context of the engine. The key is a fresh record whose methods are not
  set, so that releasing it after a certificate that cannot be read calls a null pointer.
\<close>

definition mbedtls_set_own_cert_p11 ::
  "('x, mp11_pk) mbed_x509_lib \<Rightarrow> (byte list option \<Rightarrow> nat) \<Rightarrow> nat \<Rightarrow> (nat \<Rightarrow> byte) \<Rightarrow> mp11_context \<Rightarrow> ('x, mp11_pk) mbedtls_context \<Rightarrow>
     byte list \<Rightarrow> nat \<Rightarrow> p11_driver option \<Rightarrow> string \<Rightarrow> string option \<Rightarrow> string option \<Rightarrow>
     ub + int \<times> ('x, mp11_pk) mbedtls_context \<times> mp11_context" where
  "mbedtls_set_own_cert_p11 lib group_bits max_pt junk ctx c mem len driver pin slot key_id =
     ub_bind (mp11_load_key lib group_bits max_pt junk ctx driver pin slot key_id) (\<lambda>(rc, pk, ctx1).
       if rc \<noteq> 0 then Inr (-1, c\<lparr>m_own_key := None\<rparr>, ctx1)
       else if len > length mem then Inl Out_Of_Bounds_Read
       else
         (let (rc2, certs) = mbed_parse_or_path lib mem len
          in if rc2 < 0 then Inl Null_Deref
             else
               (let c1 = c\<lparr>m_own_key := pk, m_own_cert := Some certs\<rparr>
                in Inr (0, case pk of
                             None \<Rightarrow> c1
                           | Some k \<Rightarrow> if conf_own_cert lib certs k = 0 then c1\<lparr>m_conf_own := Some (certs, k)\<rparr> else c1, ctx1))))"

section \<open>What is signed\<close>

text \<open>
  A reader for elements with short lengths, for object identifiers, and for the structure that a PKCS#1 signature is made of:
  the identifier of the digest with its parameters, and the digest.
\<close>

fun der_elem :: "byte list \<Rightarrow> (byte \<times> byte list \<times> byte list) option" where
  "der_elem (t # l # r) = (if unat l < 128 \<and> unat l \<le> length r then Some (t, take (unat l) r, drop (unat l) r) else None)"
| "der_elem _ = None"

fun oid_arcs :: "byte list \<Rightarrow> nat \<Rightarrow> nat list" where
  "oid_arcs [] v = []"
| "oid_arcs (b # bs) v =
     (if unat b \<ge> 128 then oid_arcs bs (128 * v + (unat b - 128)) else (128 * v + unat b) # oid_arcs bs 0)"

definition oid_of :: "byte list \<Rightarrow> nat list" where
  "oid_of bs = (case oid_arcs bs 0 of [] \<Rightarrow> [] | a # as \<Rightarrow> (if a < 40 then [0, a] else if a < 80 then [1, a - 40] else [2, a - 80]) @ as)"

definition digest_info :: "byte list \<Rightarrow> (nat list \<times> byte list) option" where
  "digest_info bs =
     (case der_elem bs of
        Some (t, c, []) \<Rightarrow>
          (case der_elem c of
             Some (t1, alg, r1) \<Rightarrow>
               (case (der_elem alg, der_elem r1) of
                  (Some (t2, oid, params), Some (t3, digest, [])) \<Rightarrow>
                    if t = 0x30 \<and> t1 = 0x30 \<and> t2 = 0x06 \<and> t3 = 0x04 \<and> (params = [] \<or> params = [0x05, 0x00])
                    then Some (oid_of oid, digest) else None
                | _ \<Rightarrow> None)
           | None \<Rightarrow> None)
      | _ \<Rightarrow> None)"

text \<open>The lengths of digests and their registered identifiers.\<close>

primrec digest_size :: "md_type \<Rightarrow> nat option" where
  "digest_size MD_NONE = None"
| "digest_size MD_MD5 = Some 16"
| "digest_size MD_SHA1 = Some 20"
| "digest_size MD_SHA224 = Some 28"
| "digest_size MD_SHA256 = Some 32"
| "digest_size MD_SHA384 = Some 48"
| "digest_size MD_SHA512 = Some 64"
| "digest_size MD_RIPEMD160 = Some 20"

primrec digest_oid :: "md_type \<Rightarrow> nat list" where
  "digest_oid MD_NONE = []"
| "digest_oid MD_MD5 = [1, 2, 840, 113549, 2, 5]"
| "digest_oid MD_SHA1 = [1, 3, 14, 3, 2, 26]"
| "digest_oid MD_SHA224 = [2, 16, 840, 1, 101, 3, 4, 2, 4]"
| "digest_oid MD_SHA256 = [2, 16, 840, 1, 101, 3, 4, 2, 1]"
| "digest_oid MD_SHA384 = [2, 16, 840, 1, 101, 3, 4, 2, 2]"
| "digest_oid MD_SHA512 = [2, 16, 840, 1, 101, 3, 4, 2, 3]"
| "digest_oid MD_RIPEMD160 = [1, 0, 10118, 3, 0, 49]"

lemma prefix_digest_info:
  assumes "digest_size md = Some (length hash)"
  shows "\<exists>pfx. get_md_prefix md = Some pfx \<and> digest_info (pfx @ hash) = Some (digest_oid md, hash)"
  using assms by (cases md) (simp_all add: get_md_prefix_def HASH_HEADERS_def digest_info_def oid_of_def)

text \<open>
  What a token is asked to sign for an RSA key is the well-formed structure with the registered identifier of the digest and the
  digest, for every digest the library has.
\<close>

lemma p11_rsa_sign_asks:
  assumes "\<And>md. md_size md = digest_size md" and "digest_size md = Some (length hash)"
  shows "\<exists>msg. digest_info msg = Some (digest_oid md, hash) \<and>
    p11_rsa_sign md_size d key md hash =
      Inr (if C_SignInit d (mk_sign_mechanism key) (mk_priv_handle key) = CKR_OK \<and> fst (C_Sign d msg 4096) = CKR_OK
           then (0, Some (snd (C_Sign d msg 4096))) else (ERR_PLATFORM_HW_ACCEL_FAILED, None))"
proof -
  obtain pfx where "get_md_prefix md = Some pfx" "digest_info (pfx @ hash) = Some (digest_oid md, hash)"
    using prefix_digest_info [OF assms(2)] by blast
  with assms show ?thesis
    by (intro exI [of _ "pfx @ hash"]) (auto simp: p11_rsa_sign_def split: prod.splits)
qed

text \<open>
  For an elliptic curve key the two numbers of the raw signature are written the way \<open>mbedtls_sig_to_asn1\<close> of the engine does it
  when it checks raw signatures.
\<close>

lemma p11_ecdsa_sign_form:
  assumes "C_SignInit d (mk_sign_mechanism key) (mk_priv_handle key) = CKR_OK" and "C_Sign d hash max_pt = (CKR_OK, rawsig)"
    and "mbedtls_sig_to_asn1 lib max_len rawsig = Inr sig"
  shows "p11_ecdsa_sign lib max_pt max_len d key hash = (0, Some sig)"
  using assms
  by (auto simp: p11_ecdsa_sign_def mbedtls_sig_to_asn1_def ecdsa_signature_to_asn1_def Let_def split: if_splits)

text \<open>An open context is kept, and what is loaded names the keys that the driver finds for the identifier.\<close>

lemma mp11_load_key_finds:
  assumes ctx: "mp_lib ctx" "mp_funcs ctx = Some d" and ident: "length ident \<le> 32" "ident \<noteq> []"
    and priv: "mp11_find d ctx CKO_PRIVATE_KEY [(CKA_ID, Ck_Bytes ident)] = Inr (Some privh)"
    and pub: "mp11_find d ctx CKO_PUBLIC_KEY [(CKA_ID, Ck_Bytes ident)] = Inr (Some pubh)"
    and res: "mp11_load_key lib group_bits max_pt junk ctx driver pin slot (Some (hex_text ident)) = Inr (0, pk, ctx')"
  shows "ctx' = ctx \<and> (\<exists>k. pk = Some k \<and> mk_priv_handle (pk_ctx k) = privh \<and> mk_pub_handle (pk_ctx k) = pubh \<and> mk_pub (pk_ctx k) \<noteq> None)"
proof -
  have ne: "hex_text ident \<noteq> []" using ident(2) by (cases ident) (auto simp: hex_text_def)
  let ?key = "\<lparr>mk_priv_handle = privh, mk_pub_handle = pubh, mk_sign_mechanism = 0, mk_pub = None\<rparr>"
  have "mp11_get_key lib group_bits max_pt junk ctx (Some (hex_text ident)) = Inr (mp11_load_type lib group_bits max_pt d ctx ?key)"
    using ne ctx(2) priv pub by (simp add: mp11_get_key_def p11_key_id_hex [OF ident(1)])
  with res ctx have "ctx' = ctx" and l: "mp11_load_type lib group_bits max_pt d ctx ?key = (0, pk)"
    by (auto simp: mp11_load_key_def split: prod.splits)
  from l have "\<exists>k. pk = Some k \<and> mk_priv_handle (pk_ctx k) = privh \<and> mk_pub_handle (pk_ctx k) = pubh \<and> mk_pub (pk_ctx k) \<noteq> None"
    by (auto simp: mp11_load_type_def p11_load_ecdsa_def p11_load_rsa_def Let_def ERR_PK_KEY_INVALID_FORMAT_def
        CKR_OK_def CKR_KEY_HANDLE_INVALID_def split: prod.splits if_splits sum.splits)
  with \<open>ctx' = ctx\<close> show ?thesis by blast
qed

section \<open>Defects\<close>

text \<open>
  The context counts as open once the driver is loaded. When the driver then refuses its functions, the next call uses them
  all the same.
\<close>

lemma failed_open_is_kept:
  assumes "function_list d = Some rc" and "rc \<noteq> CKR_OK"
  shows "\<exists>ctx. mp11_load_key lib group_bits max_pt junk mp11_zero (Some d) pin slot (Some []) = Inr (int rc, None, ctx) \<and>
    mp11_load_key lib group_bits max_pt junk ctx (Some d) pin slot (Some []) = Inl Null_Deref"
  using assms by (simp add: mp11_load_key_def mp11_init_def mp11_zero_def mp11_get_key_def CKR_OK_def)

text \<open>A wrong PIN is not asked for again: the next call neither opens a session nor logs in, whatever it is given.\<close>

lemma wrong_pin_is_kept:
  assumes "function_list d = Some CKR_OK" and "C_Initialize d = CKR_OK" and "p11_slot d slot = Inr (Inr sl)"
    and "C_OpenSession d sl = (CKR_OK, session)" and "C_Login d session pin = rc" and "rc \<noteq> 0"
  shows "\<exists>ctx. mp11_load_key lib group_bits max_pt junk mp11_zero (Some d) pin slot key_id = Inr (int rc, None, ctx) \<and>
    mp11_load_key lib group_bits max_pt junk ctx driver2 pin2 slot2 key_id =
      ub_bind (mp11_get_key lib group_bits max_pt junk ctx key_id) (\<lambda>(rc2, pk). Inr (rc2, pk, ctx))"
  using assms by (simp add: mp11_load_key_def mp11_init_def mp11_zero_def CKR_OK_def)

text \<open>
  The mechanisms with a digest in their name digest what they are given, and \<open>p11_ecdsa_sign\<close> gives them a digest. The plain
  mechanism is used only with a token that lacks the other one.
\<close>

lemma digest_signed_twice:
  assumes "fst (p11_load_ecdsa lib group_bits max_pt d slot_id key) = 0"
    and "fst (C_GetMechanismInfo d slot_id (ecdsa_mechanism (group_bits (asn1_content lib ec_param ASN1_OID)))) = CKR_OK"
    and "C_GetAttributeValue d (mk_pub_handle key) CKA_EC_PARAMS = (CKR_OK, ec_param)"
  shows "mk_sign_mechanism (pk_ctx (snd (p11_load_ecdsa lib group_bits max_pt d slot_id key))) \<noteq> CKM_ECDSA"
  using assms
  by (auto simp: p11_load_ecdsa_def two_attrs_def Let_def ERR_PK_KEY_INVALID_FORMAT_def ecdsa_mechanism_def ck_codes
      split: prod.splits if_splits sum.splits)

text \<open>The largest curve has 521 bits, not 512, and gets the weakest digest.\<close>

lemma largest_curve_weakest_digest: "ecdsa_mechanism 521 = CKM_ECDSA_SHA1"
  by (simp add: ecdsa_mechanism_def)

text \<open>An RSA key says that it can be used for elliptic curves, and not for RSA.\<close>

lemma rsa_cannot_do_rsa: "p11_rsa_can_do PK_ECDSA" "\<not> p11_rsa_can_do PK_RSA"
  by (simp_all add: p11_rsa_can_do_def)

text \<open>A signature that does not fit is reported as made, although nothing was written.\<close>

lemma long_signature_reported:
  assumes "C_SignInit d (mk_sign_mechanism key) (mk_priv_handle key) = CKR_OK" and "C_Sign d hash max_pt = (CKR_OK, rawsig)"
    and "mbedtls_sig_to_asn1 lib max_len rawsig = Inl u"
  shows "p11_ecdsa_sign lib max_pt max_len d key hash = (0, None)"
  using assms
  by (auto simp: p11_ecdsa_sign_def mbedtls_sig_to_asn1_def ecdsa_signature_to_asn1_def Let_def split: if_splits)

text \<open>A certificate that cannot be read after the key was found.\<close>

lemma unreadable_cert_calls_null:
  assumes "mp11_load_key lib group_bits max_pt junk ctx driver pin slot key_id = Inr (0, pk, ctx1)"
    and "len \<le> length mem" and "fst (mbed_parse_or_path lib mem len) < 0"
  shows "mbedtls_set_own_cert_p11 lib group_bits max_pt junk ctx c mem len driver pin slot key_id = Inl Null_Deref"
  using assms by (auto simp: mbedtls_set_own_cert_p11_def split: prod.splits)

end
