(* ===== verification/Uv_Link_Observer.thy ===== *)
theory Uv_Link_Observer
  imports Uv_Link_Io
begin

text \<open>
  The observer of \<open>deps/uv_link_t/src/uv_link_observer_t.c\<close>: a link with the default methods whose read override shows what is read to
  a callback before it passes it on. The library itself has no observer; the chains here may have any.
\<close>

section \<open>Operations\<close>

text \<open>\<open>oread\<close> is the number of the override, \<open>dalloc\<close> and \<open>dread\<close> are those of the defaults.\<close>

definition uv_link_observer_init :: "nat \<Rightarrow> nat \<Rightarrow> nat \<Rightarrow> uv_link" where
  "uv_link_observer_init dalloc dread oread = uv_link_init dalloc dread (Some dalloc) (Some oread) No_Stream"

text \<open>
  The way of a read through a chain with observers: \<open>obs\<close> gives the callback of an observer, if it has one. A callback that is
  \<open>oread\<close> is \<open>uv_link_observer_read_cb\<close>.
\<close>

definition observer_call :: "(nat \<Rightarrow> nat option) \<Rightarrow> nat \<Rightarrow> int \<Rightarrow> link_io list" where
  "observer_call obs l nread = (case obs l of None \<Rightarrow> [] | Some cb \<Rightarrow> [Io_Read_Cb l cb nread])"

partial_function (option) observed_read_cb ::
  "nat \<Rightarrow> nat \<Rightarrow> (nat \<Rightarrow> nat option) \<Rightarrow> link_heap \<Rightarrow> nat \<Rightarrow> int \<Rightarrow> (ub + link_heap \<times> link_io list) option" where
  "observed_read_cb dread oread obs h link nread =
     (case h link of
        None \<Rightarrow> Some (Inl Bad_Pointer)
      | Some r \<Rightarrow>
          (let target = (case lk_child r of Some c \<Rightarrow> c | None \<Rightarrow> link);
               n = (if nread < 0 then uv_link_error (Some r) nread else nread)
           in case uv_link_enter h target of
                Inl u \<Rightarrow> Some (Inl u)
              | Inr h1 \<Rightarrow>
                  Option.bind
                    (if lk_read_cb r = dread then observed_read_cb dread oread obs h1 target n
                     else if lk_read_cb r = oread
                     then Option.bind (observed_read_cb dread oread obs h1 target n)
                            (\<lambda>res. Some (ub_bind res (\<lambda>(h2, os). Inr (h2, observer_call obs target n @ os))))
                     else Some (Inr (h1, [Io_Read_Cb target (lk_read_cb r) n])))
                    (\<lambda>res. Some (ub_bind res (\<lambda>(h2, os).
                       ub_bind (uv_link_leave h2 target) (\<lambda>(h3, os3). Inr (h3, os @ map Io_Close os3)))))))"

declare observed_read_cb.simps [code]

section \<open>What is observed\<close>

text \<open>A chain whose links other than the first have one of the two overrides, and whose last link has the reader \<open>cb\<close>.\<close>

definition observed_chain :: "nat \<Rightarrow> nat \<Rightarrow> (nat \<Rightarrow> bool) \<Rightarrow> nat \<Rightarrow> link_heap \<Rightarrow> nat list \<Rightarrow> bool" where
  "observed_chain dread oread observes cb h ls \<longleftrightarrow> chain h ls \<and>
     (\<forall>i < length ls. \<exists>r. h (ls ! i) = Some r \<and> calm r \<and>
        lk_read_cb r = (if Suc i < length ls then (if observes (ls ! Suc i) then oread else dread) else cb))"

definition observations :: "(nat \<Rightarrow> bool) \<Rightarrow> (nat \<Rightarrow> nat option) \<Rightarrow> nat list \<Rightarrow> int \<Rightarrow> link_io list" where
  "observations observes obs ls nread = concat (map (\<lambda>l. observer_call obs l nread) (filter observes ls))"

lemma observations_Cons:
  "observations observes obs (l # ls) n = (if observes l then observer_call obs l n else []) @ observations observes obs ls n"
  by (simp add: observations_def)

lemma observed_chain_nth:
  "observed_chain dread oread observes cb h ls \<Longrightarrow> i < length ls \<Longrightarrow> h (ls ! i) = Some r \<Longrightarrow>
   chain h ls \<and> calm r \<and> lk_read_cb r = (if Suc i < length ls then (if observes (ls ! Suc i) then oread else dread) else cb)"
  unfolding observed_chain_def by (metis option.inject)

text \<open>
  What libuv reads, or its error, is shown to every observer behind the link, once and in the order of the chain, and then given to
  the reader of the last link; the links are left as they were.
\<close>

lemma observed_read_all:
  assumes "observed_chain dread oread observes cb h ls" and "cb \<noteq> dread" and "cb \<noteq> oread" and "oread \<noteq> dread"
    and "nread \<ge> UV_ERRNO_MAX" and "i < length ls"
    and "h (ls ! i) = Some r0" and "h' (ls ! i) = Some (r0\<lparr>lk_close_depth := d\<rparr>)" and "lk_close_depth r0 \<le> d"
    and "\<And>k. i < k \<Longrightarrow> k < length ls \<Longrightarrow> h' (ls ! k) = h (ls ! k)"
  shows "observed_read_cb dread oread obs h' (ls ! i) nread =
    Some (Inr (h', observations observes obs (drop (Suc i) ls) nread @ [Io_Read_Cb (last ls) cb nread]))"
  using assms(6-10)
proof (induction "length ls - Suc i" arbitrary: i h' r0 d)
  case 0
  then have i: "Suc i = length ls" by simp
  have l: "last ls = ls ! i" using i by (metis diff_Suc_1 last_conv_nth length_0_conv nat.simps(3))
  have c: "chain h ls" "calm r0" "lk_read_cb r0 = cb" using observed_chain_nth [OF assms(1) 0(2,3)] i by simp_all
  have ch: "lk_child r0 = None" using links_nth [of h None ls None 1 i] c(1) 0 i by (auto simp: chain_def)
  let ?r = "r0\<lparr>lk_close_depth := d\<rparr>"
  have "calm ?r" using c(2) 0(5) by (auto simp: calm_def)
  note e = enter_leave [of h' "ls ! i" ?r, OF 0(4) this]
  have n: "(if nread < 0 then uv_link_error (Some ?r) nread else nread) = nread" using uv_link_error_libuv [OF assms(5)] by simp
  show ?case using e ch c(3) assms(2,3) n 0(4) l i
    by (subst observed_read_cb.simps) (simp add: observations_def)
next
  case (Suc m)
  then have i: "Suc i < length ls" by simp
  have c: "chain h ls" "lk_read_cb r0 = (if observes (ls ! Suc i) then oread else dread)"
    using observed_chain_nth [OF assms(1) Suc.prems(1,2)] i by simp_all
  have ch: "lk_child r0 = Some (ls ! Suc i)" using links_nth [of h None ls None 1 i] c(1) Suc.prems i by (auto simp: chain_def)
  obtain t where t: "h (ls ! Suc i) = Some t" "calm t" using assms(1) i unfolding observed_chain_def by blast
  then have t': "h' (ls ! Suc i) = Some t" using Suc.prems(5) i by simp
  let ?h = "h'(ls ! Suc i \<mapsto> t\<lparr>lk_close_depth := lk_close_depth t + 1\<rparr>)"
  note e = enter_leave [of h' "ls ! Suc i" t, OF t' t(2)]
  have k: "?h (ls ! k) = h (ls ! k)" if "Suc i < k" "k < length ls" for k
    using that Suc.prems(5) c(1) i by (auto simp: chain_def nth_eq_iff_index_eq)
  have "observed_read_cb dread oread obs ?h (ls ! Suc i) nread =
      Some (Inr (?h, observations observes obs (drop (Suc (Suc i)) ls) nread @ [Io_Read_Cb (last ls) cb nread]))"
    by (rule Suc.hyps(1) [OF _ i t(1)]) (use Suc.hyps(2) k in auto)
  moreover have "(if nread < 0 then uv_link_error (Some (r0\<lparr>lk_close_depth := d\<rparr>)) nread else nread) = nread"
    using uv_link_error_libuv [OF assms(5)] by simp
  moreover have "drop (Suc i) ls = ls ! Suc i # drop (Suc (Suc i)) ls" using i by (simp add: Cons_nth_drop_Suc)
  ultimately show ?case using e ch c(2) Suc.prems(3) assms(4)
    by (subst observed_read_cb.simps) (auto simp: observations_Cons)
qed

text \<open>In particular from the source of a chain on.\<close>

lemma observed_read_from_source:
  assumes "observed_chain dread oread observes cb h (src # ls)" and "cb \<noteq> dread" and "cb \<noteq> oread" and "oread \<noteq> dread"
    and "nread \<ge> UV_ERRNO_MAX"
  shows "observed_read_cb dread oread obs h src nread =
    Some (Inr (h, observations observes obs ls nread @ [Io_Read_Cb (last (src # ls)) cb nread]))"
proof -
  obtain r where "h src = Some r" using assms(1) by (force simp: observed_chain_def)
  with observed_read_all [OF assms, of 0 r h "lk_close_depth r" obs] show ?thesis by simp
qed

end
