(* ===== verification/Stack.thy ===== *)
theory Stack
  imports Http_Client Websocket Mbed_Engine Uv_Link_Io
begin

text \<open>
  A connection as a whole: the HTTP client or the WebSocket client on top of the TLS link with an mbedTLS engine, on top of the source
  and its stream. What a client sends is followed down to the stream, and read back the way the peer reads it.
\<close>

section \<open>Writing through the links\<close>

text \<open>
  A write of the last link of a connection goes through the TLS link to the source, and from there to the stream: the links are the
  source \<open>src\<close>, the TLS link \<open>tls\<close> and the client on top; \<open>cb\<close> and \<open>arg\<close> are what the TLS link passes with its request.
\<close>

definition stack_write ::
  "'e tls_engine_api \<Rightarrow> link_heap \<Rightarrow> nat \<Rightarrow> nat \<Rightarrow> nat \<Rightarrow> nat \<Rightarrow> 'e \<Rightarrow> byte list \<Rightarrow> ub + int \<times> 'e \<times> link_io list" where
  "stack_write api h src tls cb arg e data =
     ub_bind (tls_write api 0 e [data] ()) (\<lambda>(rc, e1, os).
       (case os of
          [link_out.Link_Write w c] \<Rightarrow>
            ub_bind (uv_link_propagate_write 0 h (Some src) tls w cb arg) (\<lambda>(rc1, h1, ios). Inr (rc1, e1, ios))
        | _ \<Rightarrow> Inr (rc, e1, [])))"

text \<open>
  What the peer does with the records of one write in the state \<open>e\<close> of the engine: it gets the data back. This is what TLS promises
  for data of up to \<open>2^24\<close> bytes.
\<close>

definition peer_gets ::
  "(tlsuv_BIO \<Rightarrow> byte list \<Rightarrow> bool) \<Rightarrow> ('s, 'n) mbed_lib \<Rightarrow> ('s, 'n) mbedtls_engine \<Rightarrow> (byte list \<Rightarrow> byte list) \<Rightarrow> byte list \<Rightarrow> bool" where
  "peer_gets fits lib e peer data \<longleftrightarrow>
     mbed_enc fits lib e data \<noteq> [] \<and> length (mbed_enc fits lib e data) < 2 ^ 31 \<and> peer (mbed_enc fits lib e data) = data"

definition on_wire ::
  "('s \<Rightarrow> bool) \<Rightarrow> (byte list \<Rightarrow> byte list) \<Rightarrow> nat list \<Rightarrow> nat \<Rightarrow> nat \<Rightarrow> byte list \<Rightarrow> ub + int \<times> ('s, 'n) mbedtls_engine \<times> link_io list \<Rightarrow> bool" where
  "on_wire good peer ls cb arg data r \<longleftrightarrow>
     (\<exists>rc e'. r = Inr (rc, e', []) \<and> rc < 0) \<or>
     (\<exists>e' w. r = Inr (0, e', [Io_Write (ls ! 0) (ls ! 1) w cb arg]) \<and> peer w = data \<and> mbed_ready good e' \<and> mbed_outq e' = [])"

lemma stack_write_on_wire:
  assumes "memory_ok fits" and "mbed_contract fits lib good dec" and "mbed_ready good e" and "mbed_outq e = []"
    and "default_chain h ls" and "length ls \<ge> 2" and "peer_gets fits lib e peer data"
  shows "on_wire good peer ls cb arg data (stack_write (mbedtls_engine_api fits lib) h (ls ! 0) (ls ! 1) cb arg e data)"
proof -
  let ?api = "mbedtls_engine_api fits lib"
  define w where "w = wrapped ?api (mbed_enc fits lib) e [data]"
  have w: "w = mbed_enc fits lib e data" by (simp add: w_def split: sum.splits)
  have "(\<exists>rc e'. tls_write ?api 0 e [data] () = Inr (rc, e', []) \<and> rc < 0) \<or>
      (\<exists>e'. tls_write ?api 0 e [data] () = Inr (0, e', [link_out.Link_Write w (Wr_Child ())]) \<and> mbed_ready good e' \<and> mbed_outq e' = [])"
    using tls_transport.write_outcome [OF mbed_transport [OF assms(1,2)] assms(3), of "[data]" 0 "()"] assms(4,7)
    by (simp add: w_def [symmetric] del: wrapped.simps) (simp add: w peer_gets_def)
  moreover have "uv_link_propagate_write 0 h (Some (ls ! 0)) (ls ! 1) w cb arg = Inr (0, h, [Io_Write (ls ! 0) (ls ! 1) w cb arg])"
    using write_reaches_source [OF assms(5), of 0 0 "ls ! 1" w cb arg] assms(6) by fastforce
  ultimately show ?thesis
    using assms(7) by (auto simp: on_wire_def stack_write_def w peer_gets_def)
qed

section \<open>Properties\<close>


definition toy_stack :: link_heap where
  "toy_stack =
     [1 \<mapsto> (uv_link_init 1 2 None None Stream_Open)\<lparr>lk_child := Some 2\<rparr>,
      2 \<mapsto> (uv_link_init 1 2 (Some 3) (Some 4) No_Stream)\<lparr>lk_parent := Some 1, lk_child := Some 3, lk_err_prefix := 0x20000\<rparr>,
      3 \<mapsto> (uv_link_init 1 2 (Some 5) (Some 6) No_Stream)\<lparr>lk_parent := Some 2, lk_err_prefix := 0x30000\<rparr>]"

lemma toy_stack_chain: "default_chain toy_stack [1, 2, 3]"
  by (auto simp: default_chain_def chain_def toy_stack_def uv_link_init_def push_bit_eq_mult calm_def less_Suc_eq numeral_eq_Suc)

abbreviation toy_engine :: "(mbed_state, unit) mbedtls_engine" where
  "toy_engine \<equiv> new_mbedtls_engine SSL_HANDSHAKE_OVER"

lemma toy_engine_ready: "mbed_ready null_good toy_engine" "mbed_outq toy_engine = []"
  by (simp_all add: mbed_ready_def new_mbedtls_engine_def null_good_def bio_wf_new mbed_outq_def)




end
