(* ===== verification/Spec2Isabelle.thy ===== *)
theory Spec2Isabelle
  imports Prelude Bio Base64url Headers Url Inflate Http_Req Http_Client Http_Client_Inv
    Http_Client_Props Http_Body Websocket Tls_Engine Tls_Link Mbed_Engine Tcp_Src Tls_Stream
    Ossl_Engine Ossl_Cert Ossl_Trace P11 Uv_Link Uv_Link_Io Mbed_Cert Mbed_Keys Ossl_Keys
    Queue Bio_Mem Headers_Mem Mbed_P11 Um_Debug Uv_Link_Observer Stack
begin

text \<open>
  \<^bold>\<open>The program.\<close> tlsuv is a client library for HTTP, WebSocket and plain TLS connections on top of the
  libuv event loop. A connection is a chain of links (\<open>deps/uv_link_t\<close>): the source link wraps the TCP
  stream made by a connection source (\<open>src/tcp_src.c\<close>), the TLS link (\<open>src/tls_link.c\<close>) encrypts and
  decrypts by means of a TLS engine (\<open>src/openssl/engine.c\<close> or \<open>src/mbedtls/engine.c\<close>, behind the interface
  of \<open>include/tlsuv/tls_engine.h\<close>), and the last link is the HTTP client (\<open>src/http.c\<close>, with requests and
  responses in \<open>src/http_req.c\<close> and decompression in \<open>src/compression.c\<close>), the WebSocket client
  (\<open>src/websocket.c\<close>) or the TLS stream (\<open>src/tlsuv.c\<close>). Private keys may be held by PKCS#11 tokens
  (\<open>src/p11.c\<close>).

  \<^bold>\<open>The theories.\<close> Each theory has the data of its component as records and datatypes, one definition per
  function of the source with the source's name, an invariant where there is state, and the lemmas
  and properties. Undefined behaviour of C (a bad pointer, a write beyond a buffer, a loop that does
  not end) is a value of the type \<open>ub\<close>, so that its absence is a theorem and its presence a lemma of the
  section Defects of a theory.

  \<^item> \<open>Prelude\<close>: machine integers, libuv codes, C strings, undefined behaviour, shared lemmas.
  \<^item> \<open>Bio\<close> (\<open>src/bio.c\<close>): the byte queue of the mbedTLS engine. The locale \<open>byte_fifo\<close> is its contract;
    the queue is a lossless byte stream under every order of puts and reads.
  \<^item> \<open>Queue\<close> (\<open>include/tlsuv/queue.h\<close>): the macros for lists and tail queues on a memory of pointers; they implement lists, and
    the loops that empty a list visit every element once (locale \<open>drainable\<close>). \<open>Bio_Mem\<close> and \<open>Headers_Mem\<close>: the byte queue and the
    header lists once more, with the memory they allocate and free: they refine the models on lists, follow no bad
    pointer and leak nothing.
  \<^item> \<open>Base64url\<close> (\<open>src/base64.c\<close>): the decoder equals a bit-level reference and inverts the encoding.
  \<^item> \<open>Headers\<close> (\<open>src/http_req.c\<close>): header lists implement maps on names without case, the contract being
    the locale \<open>header_store\<close>.
  \<^item> \<open>Url\<close> (\<open>tlsuv_parse_url\<close> of \<open>src/http.c\<close>): parsing inverts assembling, and the fields of an
    accepted text tile it.
  \<^item> \<open>Inflate\<close> (\<open>src/compression.c\<close>): the loop around zlib is a partial function, since it may not end; with
    a stream that ends it returns and passes on exactly the plain text.
  \<^item> \<open>Http_Req\<close> (\<open>src/http_req.c\<close>): the head of a request as bytes in a buffer of a given size, and the
    callbacks of the response parser.
  \<^item> \<open>Http_Client\<close>, \<open>Http_Client_Inv\<close>, \<open>Http_Client_Props\<close> (\<open>src/http.c\<close>): the client as a state machine whose
    steps are the calls of the user and the callbacks of libuv, the source and the links. The
    invariant gives that requests are neither lost nor freed twice, that they are served in
    order, that some pending event always wakes a client that has something to do, and that
    timers do not close a connection in use.
  \<^item> \<open>Http_Body\<close> (\<open>send_body\<close> of \<open>src/http.c\<close>): what a body looks like on the wire, against a decoder.
  \<^item> \<open>Websocket\<close> (\<open>src/websocket.c\<close>): the upgrade, frames written against a decoder, frames read, closing.
  \<^item> \<open>Tls_Engine\<close> (\<open>tls_engine.h\<close>, \<open>src/tls_engine.c\<close>): an engine is a record of functions; the locales
    \<open>tls_transport\<close> and \<open>tls_handshaking\<close> are what the TLS link relies on.
  \<^item> \<open>Tls_Link\<close> (\<open>src/tls_link.c\<close>): the link around any engine; what it delivers, sends and withholds is
    proved inside the locales.
  \<^item> \<open>Mbed_Engine\<close> and \<open>Ossl_Engine\<close>: the two engines. The TLS library is a parameter with its documented
    contract; each engine is shown to meet the contract of the locales for every such library, and
    the properties of the link are stated for the composition of link, engine and queues.
  \<^item> \<open>Ossl_Cert\<close> (\<open>src/openssl/engine.c\<close>): the context: trusted bundles and how they are split into stores,
    the verification of the peer, own key and certificate, protocols, PEM and PKCS#7. \<open>Ossl_Trace\<close>: the
    names the trace of messages uses.
  \<^item> \<open>Ossl_Keys\<close> (\<open>src/openssl/keys.c\<close>): signing, verifying, and keys that stay on a token, on top of the model of
    tokens; raw and encoded signatures of a token are judged alike.
  \<^item> \<open>Mbed_Cert\<close> (\<open>src/mbedtls/engine.c\<close>): the context of the other engine. The check of the peer is described bit by
    bit, containers and PEM texts are shown to be read and written completely. \<open>Mbed_Keys\<close>
    (\<open>src/mbedtls/keys.c\<close>): its keys.
  \<^item> \<open>Stack\<close>: the clients, the TLS link with an engine and the links below it together: what a client sends reaches the
    stream as one write, which the peer decrypts and reads as the request or the message.
  \<^item> \<open>Tcp_Src\<close> (\<open>src/tcp_src.c\<close>): requests and handles that libuv owns are part of the state, so that a
    callback after cancelling and a double close would show.
  \<^item> \<open>Tls_Stream\<close> (\<open>src/tlsuv.c\<close>): the stream on top of the connection source; connect requests are
    answered in order and once.
  \<^item> \<open>P11\<close> (\<open>src/p11.c\<close>): tokens; the driver is a parameter.
  \<^item> \<open>Uv_Link\<close> (\<open>uv_link_t.c\<close>, \<open>uv_link_source_t.c\<close>): a heap of links with parent and child pointers; closing
    a chain and tracing errors. Walks along pointers are partial functions, and their end is
    part of the theorems. \<open>Uv_Link_Io\<close> (with \<open>defaults.c\<close>): what passes through a chain of links with the
    default methods: a write reaches the stream of the source once, and a read the last link.
    \<open>Uv_Link_Observer\<close> (\<open>uv_link_observer_t.c\<close>): chains with observers, which see every read once and in order.
  \<^item> \<open>Mbed_P11\<close> (\<open>mbed_p11.c\<close>, \<open>p11_rsa.c\<close>, \<open>p11_ecdsa.c\<close>): token keys of the mbedTLS engine, which nothing reaches, as
    \<open>load_key_p11\<close> is a stub. What a token signs for an RSA key is a well-formed structure for every digest; most lemmas
    show defects.
  \<^item> \<open>Um_Debug\<close> (\<open>src/um_debug.c\<close>): which messages reach the log function of the user.

  \<^bold>\<open>Assumptions.\<close> Memory allocation succeeds, except in the byte queue, where the code looks at its result, and in
  the base64url decoder, where it does not. A callback of the user returns before the library goes on and does not call
  back into the same object. zlib, the HTTP parser, OpenSSL, mbedTLS and PKCS#11 drivers are
  parameters; where a theorem needs their contract it is a named hypothesis, and a witness gives a
  concrete function that satisfies it. libuv appears as the pending requests, handles, timers and
  wake-ups it owns and as the events it may deliver. Sizes are bounded in theorems only where the
  code's integers are: lengths below \<open>2^31\<close> where it stores them in an \<open>int\<close>, fewer than 32768 links in
  a chain, and containers of certificates below \<open>2^24\<close> bytes, which is what the law on the library's
  lengths is stated for.

  \<^bold>\<open>Not modelled.\<close> The log lines of the other components, since nothing depends on them; the headers under \<open>src/pkcs11\<close>, which
  are the PKCS#11 standard; the macros of \<open>include/tlsuv/queue.h\<close> that the library does not use (all but \<open>LIST\<close> and \<open>STAILQ\<close>);
  the code for Windows; samples and tests.
\<close>

end
